(* ===== verification/Prelude.thy ===== *)
theory Prelude
  imports Main "HOL-Library.Word" "HOL-Library.AList" "HOL-Library.Signed_Division"
begin

text \<open>
  Shared material of the development: the machine types of the Rust code, the big-endian byte
  order of the wire, signed comparisons on words, results as sums, and the association lists that
  stand for the code's hash maps. Integers keep the width they have in the code; \<open>+\<close>, \<open>-\<close> and
  \<open>*\<close> wrap around, as they do in a release build. An \<open>i64\<close> is a 64-bit word that is read with
  \<open>sint\<close> and compared with the signed orders; a \<open>usize\<close> count or index is a \<open>nat\<close>.
\<close>

named_theorems wire_simps \<open>evaluation of readers and writers on encoded bytes\<close>
named_theorems frame_simps \<open>what an operation leaves unchanged\<close>
named_theorems inv_intros \<open>operations keep the invariant\<close>

section \<open>Machine types\<close>

type_synonym u8 = "8 word"
type_synonym u16 = "16 word"
type_synonym u32 = "32 word"
type_synonym u64 = "64 word"
type_synonym u128 = "128 word"
type_synonym i16 = "16 word"
type_synonym i32 = "32 word"
type_synonym i64 = "64 word"
type_synonym byte = u8
type_synonym bytes = "byte list"

subsection \<open>Signed arithmetic\<close>

definition smax :: "'a::len word \<Rightarrow> 'a word \<Rightarrow> 'a word" where
  "smax a b = (if a \<le>s b then b else a)"

definition smin :: "'a::len word \<Rightarrow> 'a word \<Rightarrow> 'a word" where
  "smin a b = (if a \<le>s b then a else b)"

definition sabs :: "'a::len word \<Rightarrow> 'a word" where
  "sabs a = (if a <s 0 then - a else a)"

lemma sint_smax [simp]: "sint (smax a b) = max (sint a) (sint b)"
  by (simp add: smax_def word_sle_eq)

lemma sint_smin [simp]: "sint (smin a b) = min (sint a) (sint b)"
  by (simp add: smin_def word_sle_eq)

lemma i64_range: "- (2 ^ 63) \<le> sint (x :: i64)" "sint (x :: i64) < 2 ^ 63"
  using sint_range_size [of x] by (simp_all add: word_size)

lemma sint_of_int_i64:
  "- (2 ^ 63) \<le> i \<Longrightarrow> i < 2 ^ 63 \<Longrightarrow> sint (word_of_int i :: i64) = i"
  by (simp add: sint_sbintrunc' signed_take_bit_int_eq_self)

lemma sint_add_i64:
  fixes a b :: i64
  assumes "- (2 ^ 63) \<le> sint a + sint b" and "sint a + sint b < 2 ^ 63"
  shows "sint (a + b) = sint a + sint b"
  using assms by (simp add: sint_word_ariths signed_take_bit_int_eq_self)

lemma sint_sub_i64:
  fixes a b :: i64
  assumes "- (2 ^ 63) \<le> sint a - sint b" and "sint a - sint b < 2 ^ 63"
  shows "sint (a - b) = sint a - sint b"
  using assms by (simp add: sint_word_ariths signed_take_bit_int_eq_self)

section \<open>Big-endian bytes\<close>

text \<open>\<open>to_be n\<close> is \<open>to_be_bytes\<close> of an integer of \<open>n\<close> bytes, \<open>from_be\<close> its inverse
  \<open>from_be_bytes\<close>.\<close>

primrec to_be :: "nat \<Rightarrow> 'a::len word \<Rightarrow> bytes" where
  "to_be 0 w = []"
| "to_be (Suc n) w = to_be n (drop_bit 8 w) @ [ucast w]"

definition from_be :: "bytes \<Rightarrow> 'a::len word" where
  "from_be bs = foldl (\<lambda>a b. or (push_bit 8 a) (ucast b)) 0 bs"

lemma from_be_Nil [simp]: "from_be [] = 0"
  by (simp add: from_be_def)

lemma from_be_snoc: "from_be (bs @ [b]) = or (push_bit 8 (from_be bs)) (ucast b)"
  by (simp add: from_be_def)

lemma length_to_be [simp]: "length (to_be n w) = n"
  by (induction n arbitrary: w) auto

lemma from_be_to_be_take: "from_be (to_be n (w :: 'a::len word)) = take_bit (8 * n) w"
proof (induction n arbitrary: w)
  case 0
  then show ?case by simp
next
  case (Suc n)
  have "or (push_bit 8 (take_bit (8 * n) (drop_bit 8 w))) (ucast (ucast w :: byte))
      = take_bit (8 + 8 * n) w"
    by (rule bit_eqI) (auto simp: bit_simps)
  then show ?case by (simp add: from_be_snoc Suc.IH)
qed

lemma from_be_to_be:
  "LENGTH('a) \<le> 8 * n \<Longrightarrow> from_be (to_be n (w :: 'a::len word)) = w"
  by (simp add: from_be_to_be_take take_bit_word_eq_self)

lemma from_be_bound: "take_bit (8 * length bs) (from_be bs :: 'a::len word) = from_be bs"
proof (induction bs rule: rev_induct)
  case Nil
  then show ?case by simp
next
  case (snoc b bs)
  have *: "bit (from_be bs :: 'a word) n \<longleftrightarrow> n < 8 * length bs \<and> bit (from_be bs :: 'a word) n" for n
    by (metis snoc.IH bit_take_bit_iff)
  show ?case
    by (rule bit_eqI) (auto simp: from_be_snoc bit_simps dest: bit_imp_le_length *[THEN iffD1])
qed

lemma to_be_from_be:
  "8 * length bs \<le> LENGTH('a) \<Longrightarrow> to_be (length bs) (from_be bs :: 'a::len word) = bs"
proof (induction bs rule: rev_induct)
  case Nil
  then show ?case by simp
next
  case (snoc b bs)
  have bnd: "bit (from_be bs :: 'a word) n \<Longrightarrow> n < 8 * length bs" for n
    by (metis from_be_bound bit_take_bit_iff)
  have d: "drop_bit 8 (from_be (bs @ [b]) :: 'a word) = from_be bs"
    using snoc.prems
    by (intro bit_eqI) (auto simp: from_be_snoc bit_simps dest: bit_imp_le_length bnd)
  have u: "(ucast (from_be (bs @ [b]) :: 'a word) :: byte) = b"
    by (rule bit_eqI) (use snoc.prems in \<open>auto simp: from_be_snoc bit_simps dest: bit_imp_le_length\<close>)
  show ?case using snoc d u by simp
qed

lemma to_be_from_be_length:
  "length bs = n \<Longrightarrow> 8 * n \<le> LENGTH('a) \<Longrightarrow> to_be n (from_be bs :: 'a::len word) = bs"
  using to_be_from_be by blast

section \<open>Results\<close>

text \<open>Rust's \<open>Result\<close> is a sum with the error on the left; \<open>bind_res\<close> is the \<open>?\<close> operator.\<close>

definition bind_res :: "'e + 'a \<Rightarrow> ('a \<Rightarrow> 'e + 'b) \<Rightarrow> 'e + 'b" where
  "bind_res r f = (case r of Inl e \<Rightarrow> Inl e | Inr x \<Rightarrow> f x)"

lemma bind_res_simps [simp]: "bind_res (Inl e) f = Inl e" "bind_res (Inr x) f = f x"
  by (simp_all add: bind_res_def)

lemma bind_res_Inr: "bind_res r f = Inr y \<longleftrightarrow> (\<exists>x. r = Inr x \<and> f x = Inr y)"
  by (cases r) auto

lemma bind_res_cong [fundef_cong]:
  "r = r' \<Longrightarrow> (\<And>x. r' = Inr x \<Longrightarrow> f x = g x) \<Longrightarrow> bind_res r f = bind_res r' g"
  by (cases r') auto

definition ok_or :: "'a option \<Rightarrow> 'e \<Rightarrow> 'e + 'a" where
  "ok_or x e = (case x of None \<Rightarrow> Inl e | Some y \<Rightarrow> Inr y)"

lemma ok_or_simps [simp]: "ok_or None e = Inl e" "ok_or (Some y) e = Inr y"
  by (simp_all add: ok_or_def)

text \<open>A loop that folds a fallible body over a list and leaves at the first error.\<close>

primrec fold_res :: "('s \<Rightarrow> 'a \<Rightarrow> 'e + 's) \<Rightarrow> 's \<Rightarrow> 'a list \<Rightarrow> 'e + 's" where
  "fold_res f s [] = Inr s"
| "fold_res f s (x # xs) = bind_res (f s x) (\<lambda>s'. fold_res f s' xs)"

lemma fold_res_append:
  "fold_res f s (xs @ ys) = bind_res (fold_res f s xs) (\<lambda>s'. fold_res f s' ys)"
  by (induction xs arbitrary: s) (auto simp: bind_res_def split: sum.splits)

end
