(* ===== verification/Float64.thy ===== *)
theory Float64
  imports Complex_Main Prelude
begin

text \<open>
  The \<open>f64\<close> operations the code uses, as an executable model of IEEE 754 double precision: a finite
  value is the rational it denotes, and each operation is the exact one followed by rounding to the
  nearest representable value, ties to even. Subnormals and overflow are modelled; the sign of a
  zero is not, since no operation of the code observes it. The lemmas are the two facts the client
  proofs need: representable values are exact, and rounding is monotone.
\<close>

section \<open>Rounding\<close>

fun bit_length :: "nat \<Rightarrow> nat" where
  "bit_length n = (if n = 0 then 0 else Suc (bit_length (n div 2)))"

declare bit_length.simps [simp del]

text \<open>The binary exponent of a positive rational: \<open>2 ^ e \<le> x < 2 ^ (e + 1)\<close>.\<close>

definition ilog2 :: "rat \<Rightarrow> int" where
  "ilog2 x = (let (p, q) = quotient_of x;
      e = int (bit_length (nat p)) - int (bit_length (nat q))
    in if 2 powi e \<le> x then e else e - 1)"

definition round_half_even :: "rat \<Rightarrow> int" where
  "round_half_even x = (let f = \<lfloor>x\<rfloor>; d = x - of_int f in
     if d < 1 / 2 then f else if d > 1 / 2 then f + 1 else if even f then f else f + 1)"

text \<open>The unit in the last place of a value with this magnitude.\<close>

definition ulp :: "rat \<Rightarrow> rat" where
  "ulp x = 2 powi (max (ilog2 \<bar>x\<bar> - 52) (- 1074))"

definition round53 :: "rat \<Rightarrow> rat" where
  "round53 x = (if x = 0 then 0 else of_int (round_half_even (x / ulp x)) * ulp x)"

datatype f64 = Fin rat | PInf | NInf | NaN

definition f64_limit :: rat where
  "f64_limit = 2 ^ 1024"

definition rnd :: "rat \<Rightarrow> f64" where
  "rnd x = (let r = round53 x in
     if r \<ge> f64_limit then PInf else if r \<le> - f64_limit then NInf else Fin r)"

section \<open>Operations\<close>

definition f64_of_int :: "int \<Rightarrow> f64" where
  "f64_of_int i = rnd (of_int i)"

fun f64_neg :: "f64 \<Rightarrow> f64" where
  "f64_neg (Fin a) = Fin (- a)"
| "f64_neg PInf = NInf"
| "f64_neg NInf = PInf"
| "f64_neg NaN = NaN"

fun f64_add :: "f64 \<Rightarrow> f64 \<Rightarrow> f64" where
  "f64_add (Fin a) (Fin b) = rnd (a + b)"
| "f64_add NaN _ = NaN"
| "f64_add _ NaN = NaN"
| "f64_add PInf NInf = NaN"
| "f64_add NInf PInf = NaN"
| "f64_add PInf _ = PInf"
| "f64_add _ PInf = PInf"
| "f64_add NInf _ = NInf"
| "f64_add _ NInf = NInf"

definition f64_sub :: "f64 \<Rightarrow> f64 \<Rightarrow> f64" where
  "f64_sub a b = f64_add a (f64_neg b)"

definition signed_inf :: "bool \<Rightarrow> f64" where
  "signed_inf positive = (if positive then PInf else NInf)"

fun f64_mul :: "f64 \<Rightarrow> f64 \<Rightarrow> f64" where
  "f64_mul (Fin a) (Fin b) = rnd (a * b)"
| "f64_mul NaN _ = NaN"
| "f64_mul _ NaN = NaN"
| "f64_mul (Fin a) PInf = (if a = 0 then NaN else signed_inf (a > 0))"
| "f64_mul (Fin a) NInf = (if a = 0 then NaN else signed_inf (a < 0))"
| "f64_mul PInf (Fin b) = (if b = 0 then NaN else signed_inf (b > 0))"
| "f64_mul NInf (Fin b) = (if b = 0 then NaN else signed_inf (b < 0))"
| "f64_mul PInf PInf = PInf"
| "f64_mul NInf NInf = PInf"
| "f64_mul _ _ = NInf"

text \<open>A zero divisor counts as a positive zero.\<close>

fun f64_div :: "f64 \<Rightarrow> f64 \<Rightarrow> f64" where
  "f64_div (Fin a) (Fin b) =
     (if b = 0 then (if a = 0 then NaN else signed_inf (a > 0)) else rnd (a / b))"
| "f64_div NaN _ = NaN"
| "f64_div _ NaN = NaN"
| "f64_div (Fin a) _ = Fin 0"
| "f64_div PInf (Fin b) = signed_inf (b \<ge> 0)"
| "f64_div NInf (Fin b) = signed_inf (b < 0)"
| "f64_div _ _ = NaN"

fun f64_less :: "f64 \<Rightarrow> f64 \<Rightarrow> bool" where
  "f64_less (Fin a) (Fin b) \<longleftrightarrow> a < b"
| "f64_less (Fin _) PInf \<longleftrightarrow> True"
| "f64_less NInf (Fin _) \<longleftrightarrow> True"
| "f64_less NInf PInf \<longleftrightarrow> True"
| "f64_less _ _ \<longleftrightarrow> False"

definition f64_le :: "f64 \<Rightarrow> f64 \<Rightarrow> bool" where
  "f64_le a b \<longleftrightarrow> f64_less a b \<or> (a = b \<and> a \<noteq> NaN)"

text \<open>\<open>f64::clamp\<close> keeps a NaN.\<close>

definition f64_clamp :: "f64 \<Rightarrow> f64 \<Rightarrow> f64 \<Rightarrow> f64" where
  "f64_clamp lo hi x = (let y = (if f64_less x lo then lo else x) in if f64_less hi y then hi else y)"

text \<open>\<open>f64::round\<close> rounds half away from zero, \<open>as i64\<close> truncates and saturates.\<close>

definition round_half_away :: "rat \<Rightarrow> int" where
  "round_half_away x = (if x \<ge> 0 then \<lfloor>x + 1 / 2\<rfloor> else - \<lfloor>- x + 1 / 2\<rfloor>)"

fun f64_round :: "f64 \<Rightarrow> f64" where
  "f64_round (Fin a) = Fin (of_int (round_half_away a))"
| "f64_round x = x"

definition trunc_rat :: "rat \<Rightarrow> int" where
  "trunc_rat x = (if x \<ge> 0 then \<lfloor>x\<rfloor> else - \<lfloor>- x\<rfloor>)"

fun f64_to_i64 :: "f64 \<Rightarrow> i64" where
  "f64_to_i64 (Fin a) = word_of_int (max (- (2 ^ 63)) (min (2 ^ 63 - 1) (trunc_rat a)))"
| "f64_to_i64 PInf = word_of_int (2 ^ 63 - 1)"
| "f64_to_i64 NInf = word_of_int (- (2 ^ 63))"
| "f64_to_i64 NaN = 0"

text \<open>\<open>f64::max\<close> returns the other operand when one is a NaN, \<open>total_cmp\<close> puts a NaN last.\<close>

text \<open>The remainder of a division with a truncated quotient, which is exact, and the one moved to the
  divisor's range.\<close>

fun f64_abs :: "f64 \<Rightarrow> f64" where
  "f64_abs (Fin a) = Fin \<bar>a\<bar>"
| "f64_abs NInf = PInf"
| "f64_abs x = x"

fun f64_rem :: "f64 \<Rightarrow> f64 \<Rightarrow> f64" where
  "f64_rem (Fin a) (Fin b) = (if b = 0 then NaN else Fin (a - of_int (trunc_rat (a / b)) * b))"
| "f64_rem (Fin a) PInf = Fin a"
| "f64_rem (Fin a) NInf = Fin a"
| "f64_rem _ _ = NaN"

definition f64_rem_euclid :: "f64 \<Rightarrow> f64 \<Rightarrow> f64" where
  "f64_rem_euclid a b = (let r = f64_rem a b in if f64_less r (Fin 0) then f64_add r (f64_abs b) else r)"

definition f64_max :: "f64 \<Rightarrow> f64 \<Rightarrow> f64" where
  "f64_max a b = (if a = NaN then b else if b = NaN then a else if f64_less a b then b else a)"

definition f64_total_less :: "f64 \<Rightarrow> f64 \<Rightarrow> bool" where
  "f64_total_less a b \<longleftrightarrow> f64_less a b \<or> (a \<noteq> NaN \<and> b = NaN)"

definition f64_sum :: "f64 list \<Rightarrow> f64" where
  "f64_sum xs = foldl f64_add (Fin 0) xs"

text \<open>The correctly rounded square root. \<open>isqrt\<close> is the integer square root; the root is computed to
  54 bits or more, and an inexact one is represented by the middle of its unit, which rounds the
  same way.\<close>

fun isqrt :: "nat \<Rightarrow> nat" where
  "isqrt n = (if n = 0 then 0 else let r = 2 * isqrt (n div 4) in
     if (r + 1) * (r + 1) \<le> n then r + 1 else r)"

declare isqrt.simps [simp del]

definition sqrt_rat :: "rat \<Rightarrow> rat" where
  "sqrt_rat x = (let k = ilog2 x div 2 - 54; y = x / (2 powi (2 * k)); m = isqrt (nat \<lfloor>y\<rfloor>) in
     if of_nat (m * m) = y then of_nat m * 2 powi k else (of_nat m + 1 / 2) * 2 powi k)"

fun f64_sqrt :: "f64 \<Rightarrow> f64" where
  "f64_sqrt (Fin a) = (if a < 0 then NaN else if a = 0 then Fin 0 else rnd (sqrt_rat a))"
| "f64_sqrt PInf = PInf"
| "f64_sqrt _ = NaN"

section \<open>The binary exponent\<close>

lemma bit_length_bounds: "n > 0 \<Longrightarrow> 2 ^ (bit_length n - 1) \<le> n \<and> n < 2 ^ bit_length n \<and> bit_length n > 0"
proof (induction n rule: bit_length.induct)
  case (1 n)
  show ?case
  proof (cases "n = 1")
    case True
    then show ?thesis by (simp add: bit_length.simps)
  next
    case False
    with 1 have "2 ^ (bit_length (n div 2) - 1) \<le> n div 2" "n div 2 < 2 ^ bit_length (n div 2)"
      "bit_length (n div 2) > 0"
      by auto
    moreover from this(3) have "2 ^ bit_length (n div 2) = 2 * (2 :: nat) ^ (bit_length (n div 2) - 1)"
      by (metis power_Suc Suc_diff_1)
    ultimately show ?thesis
      using 1(2) by (simp add: bit_length.simps [of n]) linarith
  qed
qed

lemma ilog2_bounds:
  assumes "x > 0"
  shows "2 powi ilog2 x \<le> x" "x < 2 powi (ilog2 x + 1)"
proof -
  obtain p q where pq: "quotient_of x = (p, q)" by force
  have x: "x = of_int p / of_int q" and q: "q > 0"
    using quotient_of_div [OF pq] quotient_of_denom_pos [OF pq] by auto
  then have p: "p > 0" using assms by (simp add: zero_less_divide_iff)
  define bp where "bp = bit_length (nat p)"
  define bq where "bq = bit_length (nat q)"
  have nat_bounds: "(2 :: rat) ^ (bit_length (nat i) - 1) \<le> of_int i \<and> of_int i < (2 :: rat) ^ bit_length (nat i)
      \<and> bit_length (nat i) > 0" if "i > 0" for i
  proof -
    have b: "2 ^ (bit_length (nat i) - 1) \<le> nat i \<and> nat i < 2 ^ bit_length (nat i) \<and> bit_length (nat i) > 0"
      using that bit_length_bounds [of "nat i"] by simp
    then have "int (2 ^ (bit_length (nat i) - 1)) \<le> i" "i < int (2 ^ bit_length (nat i))"
      using that by linarith+
    then show ?thesis using b
      by (metis of_int_le_iff of_int_less_iff of_int_of_nat_eq of_nat_numeral of_nat_power)
  qed
  have P: "(2 :: rat) powi (int bp - 1) \<le> of_int p" "of_int p < (2 :: rat) powi int bp"
    using nat_bounds [OF p] by (simp_all add: bp_def power_int_def nat_diff_distrib' flip: of_nat_diff)
  have Q: "(2 :: rat) powi (int bq - 1) \<le> of_int q" "of_int q < (2 :: rat) powi int bq"
    using nat_bounds [OF q] by (simp_all add: bq_def power_int_def nat_diff_distrib' flip: of_nat_diff)
  let ?e = "int bp - int bq"
  have up: "x < 2 powi (?e + 1)"
  proof -
    have "of_int p / of_int q < (2 :: rat) powi int bp / of_int q"
      using P(2) q by (simp add: divide_strict_right_mono)
    also have "\<dots> \<le> 2 powi int bp / 2 powi (int bq - 1)"
      using Q(1) by (intro frac_le) simp_all
    also have "\<dots> = 2 powi (?e + 1)"
      by (subst power_int_diff [symmetric]) (simp_all add: algebra_simps)
    finally show ?thesis by (simp add: x)
  qed
  have lo: "2 powi (?e - 1) \<le> x"
  proof -
    have "(2 :: rat) powi (?e - 1) = 2 powi (int bp - 1) / 2 powi int bq"
      by (subst power_int_diff [symmetric]) (simp_all add: algebra_simps)
    also have "\<dots> \<le> of_int p / 2 powi int bq"
      using P(1) by (simp add: divide_right_mono)
    also have "\<dots> \<le> of_int p / of_int q"
      using Q(2) q p by (intro frac_le) simp_all
    finally show ?thesis by (simp add: x)
  qed
  have "ilog2 x = (if 2 powi ?e \<le> x then ?e else ?e - 1)"
    by (simp add: ilog2_def pq bp_def bq_def)
  with up lo show "2 powi ilog2 x \<le> x" "x < 2 powi (ilog2 x + 1)"
    by auto
qed

section \<open>Rounding to integers\<close>

lemma round_half_even_of_int [simp]: "round_half_even (of_int n) = n"
  by (simp add: round_half_even_def)

lemma round_half_even_near: "\<bar>of_int (round_half_even x) - x\<bar> \<le> 1 / 2"
  using floor_correct [of x] by (auto simp: round_half_even_def Let_def)

lemma round_half_even_mono:
  assumes "x \<le> y"
  shows "round_half_even x \<le> round_half_even y"
proof (cases "\<lfloor>x\<rfloor> = \<lfloor>y\<rfloor>")
  case True
  with assms show ?thesis by (auto simp: round_half_even_def Let_def)
next
  case False
  with floor_mono [OF assms] have "\<lfloor>x\<rfloor> + 1 \<le> \<lfloor>y\<rfloor>" by simp
  then show ?thesis by (auto simp: round_half_even_def Let_def)
qed

lemma round_half_even_minus: "round_half_even (- x) = - round_half_even x"
proof (cases "x = of_int \<lfloor>x\<rfloor>")
  case True
  then obtain n where "x = of_int n" by blast
  then show ?thesis by (simp flip: of_int_minus)
next
  case False
  then have f: "\<lfloor>- x\<rfloor> = - \<lfloor>x\<rfloor> - 1"
    using floor_correct [of x] by (intro floor_unique) (simp_all add: less_le)
  show ?thesis
    by (auto simp: round_half_even_def Let_def f)
qed

lemma round_half_even_le: "x \<le> of_int n \<Longrightarrow> round_half_even x \<le> n"
  using round_half_even_mono by fastforce

lemma round_half_even_ge: "of_int n \<le> x \<Longrightarrow> n \<le> round_half_even x"
  using round_half_even_mono by fastforce

section \<open>Rounding to 53 bits\<close>

lemma ulp_pos [simp]: "ulp x > 0"
  by (simp add: ulp_def)

lemma ulp_minus [simp]: "ulp (- x) = ulp x"
  by (simp add: ulp_def)

lemma round53_0 [simp]: "round53 0 = 0"
  by (simp add: round53_def)

lemma round53_minus: "round53 (- x) = - round53 x"
  by (simp add: round53_def round_half_even_minus minus_divide_left [symmetric])

lemma powi_Ints:
  assumes "k \<ge> 0"
  shows "(2 :: rat) powi k = of_int (2 ^ nat k)"
  using assms by (simp add: power_int_def)

text \<open>A value of at most 53 significant bits above the subnormal limit is its own rounding.\<close>

definition representable :: "rat \<Rightarrow> bool" where
  "representable x \<longleftrightarrow> (\<exists>m k. x = of_int m * 2 powi k \<and> \<bar>m\<bar> \<le> 2 ^ 53 \<and> - 1074 \<le> k)"

lemma round53_representable:
  assumes "representable x"
  shows "round53 x = x"
proof (cases "x = 0")
  case False
  obtain m k where x: "x = of_int m * 2 powi k" and m: "\<bar>m\<bar> \<le> 2 ^ 53" and k: "- 1074 \<le> k"
    using assms by (auto simp: representable_def)
  define e where "e = ilog2 \<bar>x\<bar>"
  define u where "u = max (e - 52) (- 1074)"
  have ax: "\<bar>x\<bar> = of_int \<bar>m\<bar> * 2 powi k" by (simp add: x abs_mult)
  have eb: "2 powi e \<le> \<bar>x\<bar>" using ilog2_bounds(1) [of "\<bar>x\<bar>"] False by (simp add: e_def)
  have "\<exists>n. x / 2 powi u = of_int n"
  proof (cases "u \<le> k")
    case True
    then have "x / 2 powi u = of_int m * 2 powi (k - u)"
      by (simp add: x power_int_diff)
    also have "\<dots> = of_int (m * 2 ^ nat (k - u))"
      using True by (simp add: powi_Ints)
    finally show ?thesis by blast
  next
    case False
    with k have u: "u = e - 52" "k < e - 52" by (auto simp: u_def)
    have "(2 :: rat) powi (e - k) \<le> of_int \<bar>m\<bar>"
      using eb by (simp add: ax power_int_diff divide_simps)
    also have "\<dots> \<le> of_int (2 ^ 53)" using m by (simp only: of_int_le_iff)
    finally have le: "(2 :: rat) powi (e - k) \<le> 2 powi 53" by simp
    then have "e - k \<le> 53" by (rule power_int_le_imp_le_exp [rotated]) simp_all
    with u have ek: "e = k + 53" by simp
    with \<open>2 powi (e - k) \<le> of_int \<bar>m\<bar>\<close> have "(of_int (2 ^ 53) :: rat) \<le> of_int \<bar>m\<bar>" by simp
    then have "2 ^ 53 \<le> \<bar>m\<bar>" by (simp only: of_int_le_iff)
    with m have "m = 2 ^ 53 \<or> m = - (2 ^ 53)" by linarith
    moreover have "2 powi u = 2 * (2 powi k :: rat)"
      using power_int_add [of "2 :: rat" 1 k] by (simp add: u ek add.commute)
    ultimately have "x / 2 powi u = of_int (2 ^ 52) \<or> x / 2 powi u = of_int (- (2 ^ 52))"
      by (auto simp: x)
    then show ?thesis by blast
  qed
  then obtain n where "x / ulp x = of_int n" by (auto simp: ulp_def u_def e_def)
  then have "of_int n * ulp x = x"
    by (metis ulp_pos less_irrefl nonzero_divide_eq_eq)
  with \<open>x / ulp x = of_int n\<close> False show ?thesis by (simp add: round53_def)
qed simp

lemma ilog2_mono:
  assumes "0 < x" and "x \<le> y"
  shows "ilog2 x \<le> ilog2 y"
proof (rule ccontr)
  assume "\<not> ilog2 x \<le> ilog2 y"
  then have "(2 :: rat) powi (ilog2 y + 1) \<le> 2 powi ilog2 x"
    by (intro power_int_increasing) simp_all
  with ilog2_bounds(1) [OF assms(1)] ilog2_bounds(2) [of y] assms show False by simp
qed

lemma round53_nonneg: "0 \<le> x \<Longrightarrow> 0 \<le> round53 x"
  using round_half_even_ge [of 0 "x / ulp x"] less_imp_le [OF ulp_pos [of x]]
  by (auto simp: round53_def intro!: mult_nonneg_nonneg)

text \<open>Across binades the power of two between them separates the two roundings.\<close>

lemma round53_mono_pos:
  assumes "0 < x" and "x \<le> y"
  shows "round53 x \<le> round53 y"
proof -
  have pos: "x > 0" "y > 0" using assms by simp_all
  define ux where "ux = max (ilog2 x - 52) (- 1074)"
  define uy where "uy = max (ilog2 y - 52) (- 1074)"
  have r: "round53 x = of_int (round_half_even (x / 2 powi ux)) * 2 powi ux"
    "round53 y = of_int (round_half_even (y / 2 powi uy)) * 2 powi uy"
    using pos by (simp_all add: round53_def ulp_def ux_def uy_def)
  have e: "ilog2 x \<le> ilog2 y" using assms by (rule ilog2_mono)
  show ?thesis
  proof (cases "ux = uy")
    case True
    have "round_half_even (x / 2 powi uy) \<le> round_half_even (y / 2 powi uy)"
      using assms(2) by (intro round_half_even_mono divide_right_mono) simp_all
    then show ?thesis unfolding r True by (intro mult_right_mono) simp_all
  next
    case False
    with e have uy: "uy = ilog2 y - 52" and lt: "ux < uy" "ilog2 x < ilog2 y"
      by (auto simp: ux_def uy_def max_def split: if_splits)
    define b where "b = (2 :: rat) powi ilog2 y"
    have q: "b / 2 powi k = of_int (2 ^ nat (ilog2 y - k))" if "k \<le> ilog2 y" for k
      using that by (simp add: b_def powi_Ints flip: power_int_diff)
    have qx: "b / 2 powi ux = of_int (2 ^ nat (ilog2 y - ux))" and
      qy: "b / 2 powi uy = of_int (2 ^ nat (ilog2 y - uy))"
      using lt uy by (simp_all add: q)
    have "x < 2 powi (ilog2 x + 1)" using ilog2_bounds(2) pos by blast
    also have "\<dots> \<le> b" using lt(2) by (auto simp: b_def intro: power_int_increasing)
    finally have "x / 2 powi ux \<le> b / 2 powi ux" by (intro divide_right_mono) simp_all
    then have "round_half_even (x / 2 powi ux) \<le> 2 ^ nat (ilog2 y - ux)"
      unfolding qx by (rule round_half_even_le)
    then have "of_int (round_half_even (x / 2 powi ux)) \<le> b / 2 powi ux"
      unfolding qx of_int_le_iff .
    then have 1: "round53 x \<le> b" unfolding r by (simp add: pos_le_divide_eq)
    have "b / 2 powi uy \<le> y / 2 powi uy"
      using ilog2_bounds(1) pos by (auto simp: b_def intro: divide_right_mono)
    then have "2 ^ nat (ilog2 y - uy) \<le> round_half_even (y / 2 powi uy)"
      unfolding qy by (rule round_half_even_ge)
    then have "b / 2 powi uy \<le> of_int (round_half_even (y / 2 powi uy))"
      unfolding qy of_int_le_iff .
    then have 2: "b \<le> round53 y" unfolding r by (simp add: pos_divide_le_eq)
    from 1 2 show ?thesis by simp
  qed
qed

lemma round53_mono: "x \<le> y \<Longrightarrow> round53 x \<le> round53 y"
proof -
  assume le: "x \<le> y"
  consider "0 < x" | "x \<le> 0" "0 \<le> y" | "y < 0" by linarith
  then show ?thesis
  proof cases
    case 1
    from this le show ?thesis by (rule round53_mono_pos)
  next
    case 2
    have "round53 x \<le> 0" using round53_nonneg [of "- x"] 2 by (simp add: round53_minus)
    with round53_nonneg [OF 2(2)] show ?thesis by simp
  next
    case 3
    with le round53_mono_pos [of "- y" "- x"] show ?thesis by (simp add: round53_minus)
  qed
qed

section \<open>Consequences for the operations\<close>

lemma representable_of_int: "\<bar>i\<bar> \<le> 2 ^ 53 \<Longrightarrow> representable (of_int i)"
  unfolding representable_def by (rule exI [of _ i], rule exI [of _ 0]) simp

lemma representable_half: "\<bar>i\<bar> \<le> 2 ^ 53 \<Longrightarrow> representable (of_int i / 2)"
  unfolding representable_def by (rule exI [of _ i], rule exI [of _ "-1"]) (simp add: power_int_minus)

lemma rnd_exact: "representable x \<Longrightarrow> \<bar>x\<bar> < f64_limit \<Longrightarrow> rnd x = Fin x"
  by (auto simp: rnd_def round53_representable abs_less_iff)

lemma f64_limit_big: "2 ^ 100 < f64_limit"
  unfolding f64_limit_def by (rule power_strict_increasing) simp_all

lemma rnd_Fin_between:
  assumes "representable lo" and "representable hi" and "\<bar>lo\<bar> < f64_limit" and "\<bar>hi\<bar> < f64_limit"
    and "lo \<le> x" and "x \<le> hi"
  shows "\<exists>r. rnd x = Fin r \<and> lo \<le> r \<and> r \<le> hi"
proof -
  have "lo \<le> round53 x" "round53 x \<le> hi"
    using round53_mono [OF assms(5)] round53_mono [OF assms(6)] assms(1,2)
    by (simp_all add: round53_representable)
  with assms(3,4) show ?thesis by (auto simp: rnd_def Let_def)
qed

lemma round_half_away_mono: "x \<le> y \<Longrightarrow> round_half_away x \<le> round_half_away y"
proof (cases "0 \<le> x \<or> y < 0")
  case True
  assume "x \<le> y"
  with True show ?thesis by (auto simp: round_half_away_def intro: floor_mono)
next
  case False
  then have "\<lfloor>1 / 2 - x\<rfloor> \<ge> 0" "\<lfloor>y + 1 / 2\<rfloor> \<ge> 0" by simp_all
  then have "- \<lfloor>1 / 2 - x\<rfloor> \<le> \<lfloor>y + 1 / 2\<rfloor>" by linarith
  then show ?thesis using False by (simp add: round_half_away_def)
qed

lemma round_half_away_of_int [simp]: "round_half_away (of_int n) = n"
proof -
  have "\<lfloor>of_int m + 1 / 2 :: rat\<rfloor> = m" for m by linarith
  from this [of n] this [of "- n"] show ?thesis by (simp add: round_half_away_def)
qed

lemma trunc_rat_of_int [simp]: "trunc_rat (of_int n) = n"
  by (simp add: trunc_rat_def flip: of_int_minus)

lemma trunc_rat_numeral [simp]: "trunc_rat (numeral k) = numeral k"
  using trunc_rat_of_int [of "numeral k"] by simp

text \<open>In the normal range the relative error is at most \<open>2 powi - 53\<close>.\<close>

lemma round53_relative_error:
  assumes "2 powi (- 1000) \<le> x"
  shows "\<bar>round53 x - x\<bar> \<le> x / 2 ^ 53"
proof -
  have pos: "0 < x" by (rule less_le_trans [OF _ assms]) simp
  have "(2 :: rat) powi (- 1000) < 2 powi (ilog2 x + 1)"
    using assms ilog2_bounds(2) [OF pos] by (rule le_less_trans)
  then have "- 1000 < ilog2 x + 1"
    using power_int_increasing [of "ilog2 x + 1" "- 1000" "2 :: rat"] by (meson not_le one_le_numeral)
  then have u: "ulp x = 2 powi (ilog2 x - 52)" using pos by (simp add: ulp_def)
  have "\<bar>of_int (round_half_even (x / ulp x)) - x / ulp x\<bar> * ulp x \<le> 1 / 2 * ulp x"
    by (intro mult_right_mono round_half_even_near) (simp add: less_imp_le)
  moreover have "\<bar>of_int (round_half_even (x / ulp x)) - x / ulp x\<bar> * ulp x = \<bar>round53 x - x\<bar>"
  proof -
    have up: "0 < ulp x" by simp
    then have "\<bar>a - x / ulp x\<bar> * ulp x = \<bar>a * ulp x - x\<bar>" for a
      by (metis abs_mult abs_of_pos left_diff_distrib less_irrefl nonzero_eq_divide_eq)
    then show ?thesis using pos by (simp add: round53_def)
  qed
  ultimately have "\<bar>round53 x - x\<bar> \<le> ulp x / 2" by simp
  also have "\<dots> = 2 powi ilog2 x / 2 ^ 53" by (simp add: u power_int_diff)
  also have "\<dots> \<le> x / 2 ^ 53" using ilog2_bounds(1) [OF pos] by (simp add: divide_right_mono)
  finally show ?thesis .
qed

lemma rnd_relative:
  assumes "1 \<le> x" and "x \<le> 2 ^ 63"
  obtains r where "rnd x = Fin r" and "\<bar>r - x\<bar> \<le> x / 2 ^ 53"
proof -
  have "(2 :: rat) powi (- 1000) \<le> 1" by (simp add: power_int_minus field_simps)
  with assms(1) have e: "\<bar>round53 x - x\<bar> \<le> x / 2 ^ 53" by (intro round53_relative_error) simp
  have "round53 x \<le> round53 (of_int (2 ^ 53) * 2 powi 10)"
    using assms(2) by (intro round53_mono) simp
  also have "\<dots> = of_int (2 ^ 53) * 2 powi 10"
    by (rule round53_representable, unfold representable_def, rule exI [of _ "2 ^ 53"],
        rule exI [of _ 10]) simp
  finally have "round53 x \<le> 2 ^ 63" by simp
  moreover have "0 \<le> round53 x" using assms(1) by (intro round53_nonneg) simp
  moreover have "(2 :: rat) ^ 63 < f64_limit" using f64_limit_big by simp
  ultimately have "rnd x = Fin (round53 x)" by (simp add: rnd_def Let_def)
  with e that show thesis by blast
qed

lemma round_half_away_near:
  assumes "\<bar>x - of_int n\<bar> < 1 / 2" and "0 \<le> x"
  shows "round_half_away x = n"
proof -
  have "of_int n \<le> x + 1 / 2" "x + 1 / 2 < of_int n + 1" using assms(1) by linarith+
  then have "\<lfloor>x + 1 / 2\<rfloor> = n" by (rule floor_unique)
  with assms(2) show ?thesis by (simp add: round_half_away_def)
qed

lemma f64_of_int_exact: "\<bar>i\<bar> \<le> 2 ^ 53 \<Longrightarrow> f64_of_int i = Fin (of_int i)"
proof -
  assume i: "\<bar>i\<bar> \<le> 2 ^ 53"
  then have "\<bar>of_int i :: rat\<bar> \<le> of_int (2 ^ 53)" by (simp only: of_int_abs [symmetric] of_int_le_iff)
  also have "\<dots> < f64_limit" using f64_limit_big by simp
  finally show ?thesis using i by (simp add: f64_of_int_def rnd_exact representable_of_int)
qed

end
