(* ===== verification/Codec.thy ===== *)
theory Codec
  imports Prelude
begin

text \<open>
  The codec core of \<^verbatim>\<open>crates/tactus-wire/src/codec.rs\<close>: the error type, the bounds-checked
  \<open>Reader\<close>, the append-only \<open>Writer\<close> and the key/size/value payload container with its entry
  iterator. A reader is a function from the unread bytes to an error or a value and the bytes left;
  a writer operation maps the bytes written so far to the new buffer. The locales at the end state
  what a wire type's pair of functions promises, and prove the container lemmas once for all types.
\<close>

section \<open>Errors\<close>

datatype error = Truncated | BadMagic | UnknownMessageType u8 | Malformed string

text \<open>\<open>fourcc\<close>: the big-endian \<open>u32\<close> of four ASCII bytes.\<close>

definition ascii :: "string \<Rightarrow> bytes" where
  "ascii s = map (\<lambda>c. word_of_nat (of_char c)) s"

definition fourcc :: "bytes \<Rightarrow> u32" where
  "fourcc s = from_be s"

section \<open>Reader\<close>

type_synonym 'a reader = "bytes \<Rightarrow> error + 'a \<times> bytes"

definition r_ok :: "'a \<Rightarrow> 'a reader" where
  "r_ok x = (\<lambda>buf. Inr (x, buf))"

definition r_bind :: "'a reader \<Rightarrow> ('a \<Rightarrow> 'b reader) \<Rightarrow> 'b reader" where
  "r_bind p f = (\<lambda>buf. bind_res (p buf) (\<lambda>(x, rest). f x rest))"

definition r_take :: "nat \<Rightarrow> bytes reader" where
  "r_take n = (\<lambda>buf. if n > length buf then Inl Truncated else Inr (take n buf, drop n buf))"

definition r_u8 :: "u8 reader" where
  "r_u8 = r_bind (r_take 1) (\<lambda>b. r_ok (b ! 0))"

definition r_u16 :: "u16 reader" where
  "r_u16 = r_bind (r_take 2) (\<lambda>b. r_ok (from_be b))"

definition r_u32 :: "u32 reader" where
  "r_u32 = r_bind (r_take 4) (\<lambda>b. r_ok (from_be b))"

definition r_u64 :: "u64 reader" where
  "r_u64 = r_bind (r_take 8) (\<lambda>b. r_ok (from_be b))"

definition r_i16 :: "i16 reader" where
  "r_i16 = r_u16"

definition r_i32 :: "i32 reader" where
  "r_i32 = r_u32"

definition r_i64 :: "i64 reader" where
  "r_i64 = r_u64"

text \<open>Any nonzero byte decodes as true.\<close>

definition r_bool :: "bool reader" where
  "r_bool = r_bind r_u8 (\<lambda>b. r_ok (b \<noteq> 0))"

definition r_string :: "bytes reader" where
  "r_string = r_bind r_u32 (\<lambda>n. r_take (unat n))"

lemmas reader_defs = r_u8_def r_u16_def r_u32_def r_u64_def r_i16_def r_i32_def r_i64_def r_bool_def
  r_string_def

lemma r_ok_apply [wire_simps]: "r_ok x buf = Inr (x, buf)"
  by (simp add: r_ok_def)

lemma r_bind_apply [wire_simps]: "r_bind p f buf = bind_res (p buf) (\<lambda>(x, rest). f x rest)"
  by (simp add: r_bind_def)

lemma r_take_append [wire_simps]: "n = length xs \<Longrightarrow> r_take n (xs @ rest) = Inr (xs, rest)"
  by (simp add: r_take_def)

lemma r_take_Inr: "r_take n buf = Inr (x, rest) \<longleftrightarrow> length x = n \<and> buf = x @ rest"
  by (auto simp: r_take_def)

section \<open>Writer\<close>

type_synonym writer = "bytes \<Rightarrow> bytes"

definition w_bytes :: "bytes \<Rightarrow> writer" where
  "w_bytes b = (\<lambda>buf. buf @ b)"

definition w_u8 :: "u8 \<Rightarrow> writer" where
  "w_u8 v = (\<lambda>buf. buf @ [v])"

definition w_u16 :: "u16 \<Rightarrow> writer" where
  "w_u16 v = w_bytes (to_be 2 v)"

definition w_u32 :: "u32 \<Rightarrow> writer" where
  "w_u32 v = w_bytes (to_be 4 v)"

definition w_u64 :: "u64 \<Rightarrow> writer" where
  "w_u64 v = w_bytes (to_be 8 v)"

definition w_i16 :: "i16 \<Rightarrow> writer" where
  "w_i16 v = w_u16 v"

definition w_i32 :: "i32 \<Rightarrow> writer" where
  "w_i32 v = w_u32 v"

definition w_i64 :: "i64 \<Rightarrow> writer" where
  "w_i64 v = w_u64 v"

definition w_bool :: "bool \<Rightarrow> writer" where
  "w_bool v = w_u8 (if v then 1 else 0)"

text \<open>The length is cast to \<open>u32\<close>, so a string of \<open>2 ^ 32\<close> bytes or more is written with a
  length that wraps.\<close>

definition w_string :: "bytes \<Rightarrow> writer" where
  "w_string s = (\<lambda>buf. w_bytes s (w_u32 (word_of_nat (length s)) buf))"

text \<open>\<open>Writer::entry\<close> writes the key and a zero size, runs the body, and then patches the size
  in place.\<close>

definition w_entry :: "u32 \<Rightarrow> writer \<Rightarrow> writer" where
  "w_entry key f = (\<lambda>buf0.
     let buf1 = w_u32 key buf0;
         size_at = length buf1;
         buf2 = f (w_u32 0 buf1);
         size = (word_of_nat (length buf2 - size_at - 4) :: u32)
     in take size_at buf2 @ to_be 4 size @ drop (size_at + 4) buf2)"

lemmas writer_defs = w_bytes_def w_u8_def w_u16_def w_u32_def w_u64_def w_i16_def w_i32_def w_i64_def
  w_bool_def w_string_def

subsection \<open>Writers that only append\<close>

definition appends :: "writer \<Rightarrow> bytes \<Rightarrow> bool" where
  "appends w v \<longleftrightarrow> (\<forall>buf. w buf = buf @ v)"

lemma appendsD: "appends w v \<Longrightarrow> w buf = buf @ v"
  by (simp add: appends_def)

lemma appends_w_bytes: "appends (w_bytes v) v"
  by (simp add: appends_def w_bytes_def)

lemma appends_comp: "appends w v \<Longrightarrow> appends w' v' \<Longrightarrow> appends (\<lambda>buf. w' (w buf)) (v @ v')"
  by (simp add: appends_def)

text \<open>The bytes of one container entry: key, size of the value, value.\<close>

record entry =
  e_key :: u32
  e_value :: bytes

definition entry_bytes :: "entry \<Rightarrow> bytes" where
  "entry_bytes e = to_be 4 (e_key e) @ to_be 4 (word_of_nat (length (e_value e)) :: u32) @ e_value e"

lemma w_entry_patches:
  assumes "appends f v"
  shows "w_entry key f buf = buf @ entry_bytes \<lparr>e_key = key, e_value = v\<rparr>"
  by (simp add: w_entry_def Let_def appendsD [OF assms] w_u32_def w_bytes_def entry_bytes_def)

lemma appends_w_entry:
  "appends f v \<Longrightarrow> appends (w_entry key f) (entry_bytes \<lparr>e_key = key, e_value = v\<rparr>)"
  by (simp add: appends_def [of "w_entry key f"] w_entry_patches)

lemma length_entry_bytes [simp]: "length (entry_bytes e) = 8 + length (e_value e)"
  by (simp add: entry_bytes_def)

lemma entry_bytes_not_Nil [simp]: "entry_bytes e \<noteq> []"
  by (metis length_entry_bytes add_is_0 list.size(3) zero_neq_numeral)

section \<open>The payload container\<close>

text \<open>\<open>Entry::decode\<close>: the value must be consumed exactly.\<close>

definition entry_decode :: "entry \<Rightarrow> 'a reader \<Rightarrow> error + 'a" where
  "entry_decode e f = bind_res (f (e_value e)) (\<lambda>(v, rest).
     if rest \<noteq> [] then Inl (Malformed ''entry value not exactly consumed'') else Inr v)"

text \<open>\<open>Entries::next\<close>: nothing when no bytes are left, else the next entry or the error of a
  truncated one. The bytes left are those after the entry.\<close>

definition next_entry :: "bytes \<Rightarrow> (error + entry \<times> bytes) option" where
  "next_entry buf = (if buf = [] then None else Some (
     r_bind r_u32 (\<lambda>key.
     r_bind r_u32 (\<lambda>size.
     r_bind (r_take (unat size)) (\<lambda>value.
     r_ok \<lparr>e_key = key, e_value = value\<rparr>))) buf))"

lemma next_entry_shorter:
  assumes "next_entry buf = Some (Inr (e, rest))"
  shows "length rest < length buf"
  using assms
  by (auto simp: next_entry_def r_u32_def r_bind_def r_ok_def bind_res_Inr r_take_Inr
      split: if_splits prod.splits)

text \<open>\<open>for entry in Entries::new(payload) { let entry = entry?; ... }\<close>: the loops of the decoders,
  with the accumulated state \<open>s\<close> and the loop body \<open>f\<close>. Every entry takes at least eight
  bytes, so the loop ends.\<close>

function for_entries :: "('s \<Rightarrow> entry \<Rightarrow> error + 's) \<Rightarrow> 's \<Rightarrow> bytes \<Rightarrow> error + 's" where
  "for_entries f s buf = (case next_entry buf of
     None \<Rightarrow> Inr s
   | Some (Inl err) \<Rightarrow> Inl err
   | Some (Inr (e, rest)) \<Rightarrow> (case f s e of Inl err \<Rightarrow> Inl err | Inr s' \<Rightarrow> for_entries f s' rest))"
  by pat_completeness auto
termination
  by (relation "measure (\<lambda>(f, s, buf). length buf)") (auto dest: next_entry_shorter)

declare for_entries.simps [simp del]

subsection \<open>Entries written are the entries read\<close>

definition entry_fits :: "entry \<Rightarrow> bool" where
  "entry_fits e \<longleftrightarrow> length (e_value e) < 2 ^ 32"

lemma unat_word_of_nat_u32: "n < 2 ^ 32 \<Longrightarrow> unat (word_of_nat n :: u32) = n"
  by (simp add: unat_of_nat take_bit_nat_eq_self)

lemma r_u32_to_be [wire_simps]: "r_u32 (to_be 4 v @ rest) = Inr (v, rest)"
  by (simp add: r_u32_def wire_simps from_be_to_be)

lemma next_entry_Nil [wire_simps]: "next_entry [] = None"
  by (simp add: next_entry_def)

lemma next_entry_bytes [wire_simps]:
  assumes "entry_fits e"
  shows "next_entry (entry_bytes e @ rest) = Some (Inr (e, rest))"
proof -
  have "unat (word_of_nat (length (e_value e)) :: u32) = length (e_value e)"
    using assms by (simp add: entry_fits_def unat_word_of_nat_u32)
  then have "r_bind r_u32 (\<lambda>key. r_bind r_u32 (\<lambda>size. r_bind (r_take (unat size)) (\<lambda>value.
      r_ok \<lparr>e_key = key, e_value = value\<rparr>))) (entry_bytes e @ rest) = Inr (e, rest)"
    by (simp add: entry_bytes_def wire_simps)
  then show ?thesis by (simp add: next_entry_def)
qed

lemma for_entries_Nil [wire_simps]: "for_entries f s [] = Inr s"
  by (simp add: for_entries.simps [of f s "[]"] wire_simps)

lemma for_entries_step [wire_simps]:
  assumes "entry_fits e"
  shows "for_entries f s (entry_bytes e @ rest) = bind_res (f s e) (\<lambda>s'. for_entries f s' rest)"
  by (simp add: for_entries.simps [of f s "entry_bytes e @ rest"] wire_simps assms bind_res_def)

lemma for_entries_append:
  assumes "\<And>e. e \<in> set es \<Longrightarrow> entry_fits e"
  shows "for_entries f s (concat (map entry_bytes es) @ rest)
    = bind_res (fold_res f s es) (\<lambda>s'. for_entries f s' rest)"
  using assms
proof (induction es arbitrary: s)
  case Nil
  then show ?case by simp
next
  case (Cons e es)
  then show ?case
    by (cases "f s e") (simp_all add: for_entries_step)
qed

lemma for_entries_concat:
  assumes "\<And>e. e \<in> set es \<Longrightarrow> entry_fits e"
  shows "for_entries f s (concat (map entry_bytes es)) = fold_res f s es"
  using for_entries_append [OF assms, of es f s "[]"]
  by (simp add: wire_simps) (simp add: bind_res_def split: sum.splits)

text \<open>A payload that ends inside an entry is an error for the whole payload, whatever the loop
  body does with the entries before it.\<close>

lemma next_entry_truncated:
  assumes "entry_fits e" and "0 < n" and "n < length (entry_bytes e)"
  shows "next_entry (take n (entry_bytes e)) = Some (Inl Truncated)"
proof -
  let ?len = "word_of_nat (length (e_value e)) :: u32"
  have size: "unat ?len = length (e_value e)"
    using assms(1) by (simp add: entry_fits_def unat_word_of_nat_u32)
  have ne: "take n (entry_bytes e) \<noteq> []"
    using assms(2,3) by auto
  consider "n < 4" | "4 \<le> n" "n < 8" | "8 \<le> n" by linarith
  then show ?thesis
  proof cases
    case 1
    then have "take n (entry_bytes e) = take n (to_be 4 (e_key e))"
      by (simp add: entry_bytes_def)
    with 1 ne show ?thesis
      by (simp add: next_entry_def wire_simps r_u32_def r_take_def)
  next
    case 2
    then have "take n (entry_bytes e) = to_be 4 (e_key e) @ take (n - 4) (to_be 4 ?len)"
      by (simp add: entry_bytes_def)
    moreover have "r_u32 (take (n - 4) (to_be 4 ?len)) = Inl Truncated"
      using 2 by (simp add: r_u32_def r_take_def wire_simps)
    ultimately show ?thesis
      using ne by (simp add: next_entry_def wire_simps)
  next
    case 3
    then have "take n (entry_bytes e)
        = to_be 4 (e_key e) @ to_be 4 ?len @ take (n - 8) (e_value e)"
      by (simp add: entry_bytes_def)
    moreover have "r_take (unat ?len) (take (n - 8) (e_value e)) = Inl Truncated"
      using 3 assms(3) by (simp add: r_take_def size)
    ultimately show ?thesis
      using ne by (simp add: next_entry_def wire_simps)
  qed
qed

section \<open>Vectors\<close>

text \<open>A counted vector written element by element, and the two ways the code reads one: the
  control messages stop at the count or when the bytes run out, whichever comes first; the audio
  buffer reads exactly the counted number.\<close>

definition w_all :: "('a \<Rightarrow> writer) \<Rightarrow> 'a list \<Rightarrow> writer" where
  "w_all wr xs = fold wr xs"

primrec r_upto :: "'a reader \<Rightarrow> nat \<Rightarrow> 'a list reader" where
  "r_upto p 0 = r_ok []"
| "r_upto p (Suc n) = (\<lambda>buf. if buf = [] then Inr ([], buf) else
     r_bind p (\<lambda>x. r_bind (r_upto p n) (\<lambda>xs. r_ok (x # xs))) buf)"

primrec r_exactly :: "'a reader \<Rightarrow> nat \<Rightarrow> 'a list reader" where
  "r_exactly p 0 = r_ok []"
| "r_exactly p (Suc n) = r_bind p (\<lambda>x. r_bind (r_exactly p n) (\<lambda>xs. r_ok (x # xs)))"

text \<open>A vector as the value of an entry: the element count, then the elements.\<close>

definition w_counted :: "('a \<Rightarrow> writer) \<Rightarrow> 'a list \<Rightarrow> writer" where
  "w_counted wr xs = (\<lambda>w. w_all wr xs (w_u32 (word_of_nat (length xs)) w))"

definition r_counted :: "'a reader \<Rightarrow> 'a list reader" where
  "r_counted p = r_bind r_u32 (\<lambda>count. r_upto p (unat count))"

section \<open>What a wire type promises\<close>

text \<open>A type of the protocol comes with a writer and a reader. The writer only appends, and the
  reader recovers a valid value from its bytes, whatever follows them.\<close>

locale wire_type =
  fixes wr :: "'a \<Rightarrow> writer" and rd :: "'a reader" and valid :: "'a \<Rightarrow> bool"
  assumes write_appends: "wr x buf = buf @ wr x []"
    and write_nonempty: "wr x [] \<noteq> []"
    and read_write: "valid x \<Longrightarrow> rd (wr x [] @ rest) = Inr (x, rest)"
begin

lemma appends_write: "appends (wr x) (wr x [])"
  unfolding appends_def using write_appends by blast

lemma read_written: "valid x \<Longrightarrow> rd (wr x []) = Inr (x, [])"
  using read_write [of x "[]"] by simp

lemma entry_written: "w_entry k (wr x) buf = buf @ entry_bytes \<lparr>e_key = k, e_value = wr x []\<rparr>"
  by (rule w_entry_patches) (rule appends_write)

lemma decode_written: "valid x \<Longrightarrow> entry_decode \<lparr>e_key = k, e_value = wr x []\<rparr> rd = Inr x"
  by (simp add: entry_decode_def read_written)

lemma write_inject: "valid x \<Longrightarrow> valid y \<Longrightarrow> wr x [] = wr y [] \<Longrightarrow> x = y"
  using read_written by (metis prod.inject sum.inject(2))

lemma w_all_append: "w_all wr xs buf = buf @ w_all wr xs []"
proof (induction xs arbitrary: buf)
  case Nil
  then show ?case by (simp add: w_all_def)
next
  case (Cons x xs)
  have "w_all wr (x # xs) buf = w_all wr xs (wr x buf)" for buf
    by (simp add: w_all_def)
  then show ?case
    using Cons.IH [of "wr x buf"] Cons.IH [of "wr x []"] write_appends [of x buf] by simp
qed

lemma w_all_Cons: "w_all wr (x # xs) [] = wr x [] @ w_all wr xs []"
  using w_all_append [of xs "wr x []"] by (simp add: w_all_def)

lemma r_upto_written:
  "\<forall>x\<in>set xs. valid x \<Longrightarrow> r_upto rd (length xs) (w_all wr xs [] @ rest) = Inr (xs, rest)"
proof (induction xs)
  case Nil
  then show ?case by (simp add: w_all_def wire_simps)
next
  case (Cons x xs)
  then show ?case
    by (simp add: w_all_Cons write_nonempty read_write wire_simps)
qed

lemma counted_append: "w_counted wr xs buf = buf @ w_counted wr xs []"
  using w_all_append [of xs "w_u32 (word_of_nat (length xs)) buf"]
    w_all_append [of xs "w_u32 (word_of_nat (length xs)) []"]
  by (simp add: w_counted_def w_u32_def w_bytes_def)

lemma counted_bytes: "w_counted wr xs [] = to_be 4 (word_of_nat (length xs) :: u32) @ w_all wr xs []"
  using w_all_append [of xs "w_u32 (word_of_nat (length xs)) []"]
  by (simp add: w_counted_def w_u32_def w_bytes_def)

lemma appends_counted: "appends (w_counted wr xs) (w_counted wr xs [])"
  unfolding appends_def using counted_append by blast

lemma decode_counted:
  assumes "\<forall>x\<in>set xs. valid x" and "length xs < 2 ^ 32"
  shows "entry_decode \<lparr>e_key = k, e_value = w_counted wr xs []\<rparr> (r_counted rd) = Inr xs"
  using r_upto_written [OF assms(1), of "[]"] assms(2)
  by (simp add: entry_decode_def r_counted_def counted_bytes wire_simps unat_word_of_nat_u32)

lemma r_exactly_written:
  "\<forall>x\<in>set xs. valid x \<Longrightarrow> r_exactly rd (length xs) (w_all wr xs [] @ rest) = Inr (xs, rest)"
  by (induction xs) (simp_all add: w_all_Cons read_write wire_simps, simp add: w_all_def)

end

text \<open>Most types have one encoding only: what the reader accepts is what the writer writes.\<close>

locale strict_wire_type = wire_type +
  assumes read_sound: "rd buf = Inr (x, rest) \<Longrightarrow> valid x \<and> buf = wr x [] @ rest"
begin

lemma decode_sound:
  "entry_decode e rd = Inr x \<Longrightarrow> valid x \<and> e_value e = wr x []"
  by (auto simp: entry_decode_def bind_res_Inr dest: read_sound split: if_splits)

lemma r_exactly_sound:
  "r_exactly rd n buf = Inr (xs, rest) \<Longrightarrow>
    length xs = n \<and> (\<forall>x\<in>set xs. valid x) \<and> buf = w_all wr xs [] @ rest"
proof (induction n arbitrary: buf xs)
  case 0
  then show ?case by (simp add: wire_simps w_all_def)
next
  case (Suc n)
  then obtain x buf1 ys where "rd buf = Inr (x, buf1)" "r_exactly rd n buf1 = Inr (ys, rest)"
    "xs = x # ys"
    by (auto simp: wire_simps bind_res_Inr)
  with Suc.IH show ?case by (fastforce simp: w_all_Cons dest: read_sound)
qed

end

section \<open>The primitive types\<close>

lemma writer_Nil [wire_simps]:
  "w_u8 b [] = [b]" "w_u16 v [] = to_be 2 v" "w_u32 w [] = to_be 4 w" "w_u64 x [] = to_be 8 x"
  by (simp_all add: writer_defs)

lemma r_u8_Cons [wire_simps]: "r_u8 (b # rest) = Inr (b, rest)"
  by (simp add: r_u8_def r_take_def wire_simps)

interpretation u8: strict_wire_type w_u8 r_u8 "\<lambda>_. True"
  by unfold_locales
    (auto simp: writer_defs wire_simps r_u8_def bind_res_Inr r_take_Inr nth_Cons'
      length_Suc_conv)

lemma unsigned_wire_type:
  assumes "8 * n = LENGTH('a::len)"
  shows "strict_wire_type (\<lambda>v. w_bytes (to_be n v)) (r_bind (r_take n) (\<lambda>b. r_ok (from_be b :: 'a word)))
    (\<lambda>_. True)"
proof -
  have "n > 0"
    using assms len_gt_0 [where 'a = 'a] by (cases n) auto
  with assms show ?thesis
    by unfold_locales
      (auto simp: w_bytes_def wire_simps bind_res_Inr r_take_Inr from_be_to_be
        to_be_from_be_length simp flip: length_greater_0_conv)
qed

interpretation u16: strict_wire_type w_u16 r_u16 "\<lambda>_. True"
  unfolding w_u16_def r_u16_def by (rule unsigned_wire_type) simp

interpretation u32: strict_wire_type w_u32 r_u32 "\<lambda>_. True"
  unfolding w_u32_def r_u32_def by (rule unsigned_wire_type) simp

interpretation u64: strict_wire_type w_u64 r_u64 "\<lambda>_. True"
  unfolding w_u64_def r_u64_def by (rule unsigned_wire_type) simp

interpretation i16: strict_wire_type w_i16 r_i16 "\<lambda>_. True"
  unfolding w_i16_def r_i16_def by (rule u16.strict_wire_type_axioms)

interpretation i32: strict_wire_type w_i32 r_i32 "\<lambda>_. True"
  unfolding w_i32_def r_i32_def by (rule u32.strict_wire_type_axioms)

interpretation i64: strict_wire_type w_i64 r_i64 "\<lambda>_. True"
  unfolding w_i64_def r_i64_def by (rule u64.strict_wire_type_axioms)

interpretation bool: wire_type w_bool r_bool "\<lambda>_. True"
  by unfold_locales (auto simp: w_bool_def w_u8_def r_bool_def wire_simps)

interpretation string: strict_wire_type w_string r_string "\<lambda>s. length s < 2 ^ 32"
proof
  fix buf s rest
  assume "r_string buf = Inr (s, rest)"
  then obtain n buf1 where n: "r_u32 buf = Inr (n, buf1)" "length s = unat n" "buf1 = s @ rest"
    by (auto simp: r_string_def wire_simps bind_res_Inr r_take_Inr)
  then show "length s < 2 ^ 32 \<and> buf = w_string s [] @ rest"
    using u32.read_sound [OF n(1)] unsigned_less [of n, where ?'a = nat]
    by (simp add: writer_defs)
qed (auto simp: writer_defs r_string_def wire_simps unat_word_of_nat_u32
    simp flip: length_greater_0_conv)

lemma length_w_simps [simp]:
  "length (w_u8 b buf) = length buf + 1" "length (w_u16 v buf) = length buf + 2"
  "length (w_u32 w buf) = length buf + 4" "length (w_u64 x buf) = length buf + 8"
  "length (w_i64 x buf) = length buf + 8" "length (w_bool c buf) = length buf + 1"
  "length (w_string s buf) = length buf + 4 + length s"
  by (simp_all add: writer_defs)

lemma next_entry_sound:
  assumes "next_entry buf = Some (Inr (e, rest))"
  shows "entry_fits e \<and> buf = entry_bytes e @ rest"
proof -
  obtain k b1 n b2 v where *: "r_u32 buf = Inr (k, b1)" "r_u32 b1 = Inr (n, b2)"
    "length v = unat n" "b2 = v @ rest" "e = \<lparr>e_key = k, e_value = v\<rparr>"
    using assms by (auto simp: next_entry_def wire_simps bind_res_Inr r_take_Inr split: if_splits)
  then show ?thesis
    using u32.read_sound [OF *(1)] u32.read_sound [OF *(2)] unsigned_less [of n, where ?'a = nat]
    by (simp add: entry_fits_def entry_bytes_def writer_defs)
qed

end
