(* ===== verification/Wire_Types.thy ===== *)
theory Wire_Types
  imports Codec "HOL-Library.List_Lexorder"
begin

text \<open>
  The shared protocol values of \<^verbatim>\<open>crates/tactus-wire/src/types.rs\<close>: identifiers, the session
  timeline, the transport state and socket endpoints, each with its reader and writer, and an
  interpretation of the wire-type interface for each.
\<close>

section \<open>Identifiers\<close>

text \<open>An \<open>Id\<close> is eight bytes, kept here as the big-endian number they form. Rust's derived order
  on the byte array is lexicographic; on the number it is the unsigned order (\<open>id_less_bytes\<close>).\<close>

datatype id = Id (id_bits: u64)

type_synonym node_id = id
type_synonym session_id = id
type_synonym channel_id = id

definition id_bytes :: "id \<Rightarrow> bytes" where
  "id_bytes i = to_be 8 (id_bits i)"

definition r_id :: "id reader" where
  "r_id = r_bind (r_take 8) (\<lambda>b. r_ok (Id (from_be b)))"

definition w_id :: "id \<Rightarrow> writer" where
  "w_id i = w_bytes (id_bytes i)"

instantiation id :: linorder
begin

definition less_eq_id :: "id \<Rightarrow> id \<Rightarrow> bool" where
  "less_eq_id a b \<longleftrightarrow> id_bits a \<le> id_bits b"

definition less_id :: "id \<Rightarrow> id \<Rightarrow> bool" where
  "less_id a b \<longleftrightarrow> id_bits a < id_bits b"

instance
  by standard (auto simp: less_eq_id_def less_id_def id.expand)

end

lemma snoc_less:
  fixes x y :: "'a::linorder"
  assumes "length xs = length ys"
  shows "xs @ [x] < ys @ [y] \<longleftrightarrow> xs < ys \<or> (xs = ys \<and> x < y)"
  using assms by (induction xs ys rule: list_induct2) auto

lemma digits_less:
  fixes a b c d :: nat
  assumes "b < 256" and "d < 256"
  shows "a * 256 + b < c * 256 + d \<longleftrightarrow> a < c \<or> (a = c \<and> b < d)"
  using assms by (cases a c rule: linorder_cases) linarith+

lemma to_be_less:
  fixes v w :: "'a::len word"
  shows "to_be n v < to_be n w \<longleftrightarrow> take_bit (8 * n) v < take_bit (8 * n) w"
proof (induction n arbitrary: v w)
  case 0
  then show ?case by simp
next
  case (Suc n)
  have split: "unat (take_bit (8 * Suc n) u)
      = unat (take_bit (8 * n) (drop_bit 8 u)) * 256 + unat (ucast u :: byte)" for u :: "'a word"
  proof -
    have "take_bit (8 + 8 * n) (unat u) = push_bit 8 (take_bit (8 * n) (drop_bit 8 (unat u)))
        + take_bit 8 (unat u)"
      by (simp add: take_bit_eq_mod drop_bit_eq_div push_bit_eq_mult power_add mod_mult2_eq)
    moreover have "take_bit LENGTH('a) (unat u) = unat u"
      by (simp add: take_bit_nat_eq_self)
    ultimately show ?thesis
      by (simp add: unsigned_take_bit_eq unsigned_drop_bit_eq unsigned_ucast_eq push_bit_eq_mult)
  qed
  have inj: "to_be n (drop_bit 8 v) = to_be n (drop_bit 8 w) \<longleftrightarrow>
      take_bit (8 * n) (drop_bit 8 v) = take_bit (8 * n) (drop_bit 8 w)"
    (is "?l = ?r")
  proof
    assume ?l
    then show ?r by (metis from_be_to_be_take)
  next
    assume ?r
    then show ?l using Suc.IH [of "drop_bit 8 v" "drop_bit 8 w"]
        Suc.IH [of "drop_bit 8 w" "drop_bit 8 v"] by auto
  qed
  have byte: "unat (b :: byte) < 256" for b
    using unsigned_less [of b, where ?'a = nat] by simp
  have "take_bit (8 * Suc n) v < take_bit (8 * Suc n) w \<longleftrightarrow>
      take_bit (8 * n) (drop_bit 8 v) < take_bit (8 * n) (drop_bit 8 w)
      \<or> (take_bit (8 * n) (drop_bit 8 v) = take_bit (8 * n) (drop_bit 8 w)
          \<and> (ucast v :: byte) < ucast w)"
    unfolding word_less_nat_alt split word_unat_eq_iff
    by (rule digits_less) (rule byte)+
  moreover have "to_be (Suc n) v < to_be (Suc n) w \<longleftrightarrow>
      to_be n (drop_bit 8 v) < to_be n (drop_bit 8 w)
      \<or> (to_be n (drop_bit 8 v) = to_be n (drop_bit 8 w) \<and> (ucast v :: byte) < ucast w)"
    unfolding to_be.simps by (rule snoc_less) simp
  ultimately show ?case
    unfolding Suc.IH inj by blast
qed

lemma id_less_bytes: "a < b \<longleftrightarrow> id_bytes a < id_bytes b"
  by (simp add: less_id_def id_bytes_def to_be_less take_bit_word_eq_self)

interpretation id: strict_wire_type w_id r_id "\<lambda>_. True"
  by unfold_locales
    (auto simp: w_id_def id_bytes_def w_bytes_def r_id_def wire_simps bind_res_Inr r_take_Inr
      from_be_to_be to_be_from_be_length simp flip: length_greater_0_conv)

lemma length_id_bytes [simp]: "length (id_bytes i) = 8"
  by (simp add: id_bytes_def)

lemma length_w_id [simp]: "length (w_id i buf) = length buf + 8"
  by (simp add: w_id_def w_bytes_def)

lemma r_id_bytes [wire_simps]: "r_id (id_bytes i @ rest) = Inr (i, rest)"
  using id.read_write [of i rest] by (simp add: w_id_def w_bytes_def)

text \<open>Container entries that hold one identifier or one integer.\<close>

definition i64_entry :: "u32 \<Rightarrow> i64 \<Rightarrow> entry" where
  "i64_entry k v = \<lparr>e_key = k, e_value = w_i64 v []\<rparr>"

definition id_entry :: "u32 \<Rightarrow> id \<Rightarrow> entry" where
  "id_entry k v = \<lparr>e_key = k, e_value = w_id v []\<rparr>"

lemma small_entries [simp]:
  "entry_fits (i64_entry k v)" "entry_fits (id_entry k i)"
  "e_key (i64_entry k v) = k" "e_key (id_entry k i) = k"
  "length (e_value (i64_entry k v)) = 8" "length (e_value (id_entry k i)) = 8"
  "entry_decode (i64_entry k v) r_i64 = Inr v" "entry_decode (id_entry k i) r_id = Inr i"
  using i64.decode_written id.decode_written
  by (simp_all add: entry_fits_def i64_entry_def id_entry_def)

lemma small_entries_sound:
  "entry_decode e r_i64 = Inr v \<Longrightarrow> e = i64_entry (e_key e) v"
  "entry_decode e r_id = Inr i \<Longrightarrow> e = id_entry (e_key e) i"
  by (auto dest!: i64.decode_sound id.decode_sound simp: i64_entry_def id_entry_def)

section \<open>Timeline\<close>

text \<open>\<open>tempo\<close> is a period in microseconds per beat, \<open>beat_origin\<close> in micro-beats, \<open>time_origin\<close>
  in ghost-time microseconds.\<close>

record timeline =
  tempo :: i64
  beat_origin :: i64
  time_origin :: i64

definition r_timeline :: "timeline reader" where
  "r_timeline = r_bind r_i64 (\<lambda>t. r_bind r_i64 (\<lambda>b. r_bind r_i64 (\<lambda>o'.
     r_ok \<lparr>tempo = t, beat_origin = b, time_origin = o'\<rparr>)))"

definition w_timeline :: "timeline \<Rightarrow> writer" where
  "w_timeline tml = (\<lambda>buf. w_i64 (time_origin tml) (w_i64 (beat_origin tml) (w_i64 (tempo tml) buf)))"

lemma r_i64_to_be [wire_simps]: "r_i64 (to_be 8 v @ rest) = Inr (v, rest)"
  using i64.read_write [of v rest] by (simp add: writer_defs)

lemma w_i64_app [wire_simps]: "w_i64 v buf = buf @ to_be 8 v"
  by (simp add: writer_defs)

lemma r_i64_Inr: "r_i64 buf = Inr (v, rest) \<longleftrightarrow> buf = to_be 8 v @ rest"
  using i64.read_sound [of buf v rest] by (auto simp: wire_simps)

interpretation timeline: strict_wire_type w_timeline r_timeline "\<lambda>_. True"
  by unfold_locales
    (auto simp: w_timeline_def r_timeline_def wire_simps bind_res_Inr r_i64_Inr
      simp flip: length_greater_0_conv)

lemma length_w_timeline [simp]: "length (w_timeline tml buf) = length buf + 24"
  by (simp add: w_timeline_def)

section \<open>Transport state\<close>

record start_stop_state =
  is_playing :: bool
  ss_beats :: i64
  timestamp :: i64

definition default_start_stop :: start_stop_state where
  "default_start_stop = \<lparr>is_playing = False, ss_beats = 0, timestamp = 0\<rparr>"

definition r_start_stop :: "start_stop_state reader" where
  "r_start_stop = r_bind r_bool (\<lambda>p. r_bind r_i64 (\<lambda>b. r_bind r_i64 (\<lambda>t.
     r_ok \<lparr>is_playing = p, ss_beats = b, timestamp = t\<rparr>)))"

definition w_start_stop :: "start_stop_state \<Rightarrow> writer" where
  "w_start_stop s = (\<lambda>buf. w_i64 (timestamp s) (w_i64 (ss_beats s) (w_bool (is_playing s) buf)))"

lemma r_bool_Cons [wire_simps]: "r_bool (b # rest) = Inr (b \<noteq> 0, rest)"
  by (simp add: r_bool_def wire_simps)

lemma w_bool_app [wire_simps]: "w_bool v buf = buf @ [if v then 1 else 0]"
  by (simp add: writer_defs)

interpretation start_stop: wire_type w_start_stop r_start_stop "\<lambda>_. True"
  by unfold_locales (auto simp: w_start_stop_def r_start_stop_def wire_simps)

lemma length_w_start_stop [simp]: "length (w_start_stop s buf) = length buf + 17"
  by (simp add: w_start_stop_def)

section \<open>Endpoints\<close>

text \<open>\<open>SocketAddr\<close>: an IPv4 address and port, or an IPv6 address, port, flow info and scope.\<close>

datatype socket_addr = V4 u32 u16 | V6 u128 u16 u32 u32

definition r_endpoint_v4 :: "socket_addr reader" where
  "r_endpoint_v4 = r_bind r_u32 (\<lambda>addr. r_bind r_u16 (\<lambda>port. r_ok (V4 addr port)))"

definition r_endpoint_v6 :: "socket_addr reader" where
  "r_endpoint_v6 = r_bind (r_take 16) (\<lambda>addr. r_bind r_u16 (\<lambda>port.
     r_ok (V6 (from_be addr) port 0 0)))"

fun w_endpoint :: "socket_addr \<Rightarrow> writer" where
  "w_endpoint (V4 addr port) = (\<lambda>buf. w_u16 port (w_u32 addr buf))"
| "w_endpoint (V6 addr port flow scope) = (\<lambda>buf. w_u16 port (w_bytes (to_be 16 addr) buf))"

definition w_endpoint_entry :: "u32 \<Rightarrow> u32 \<Rightarrow> socket_addr option \<Rightarrow> writer" where
  "w_endpoint_entry key_v4 key_v6 ep = (case ep of
     None \<Rightarrow> (\<lambda>buf. buf)
   | Some ep \<Rightarrow>
       let key = (case ep of V4 _ _ \<Rightarrow> key_v4 | V6 _ _ _ _ \<Rightarrow> key_v6)
       in w_entry key (w_endpoint ep))"

definition decode_endpoint_value :: "bytes \<Rightarrow> error + socket_addr" where
  "decode_endpoint_value value =
     (if length value = 6 then bind_res (r_endpoint_v4 value) (\<lambda>(ep, _). Inr ep)
      else if length value = 18 then bind_res (r_endpoint_v6 value) (\<lambda>(ep, _). Inr ep)
      else Inl (Malformed ''endpoint value size''))"

text \<open>Flow info and scope are not transmitted: an endpoint survives the wire when they are zero.\<close>

fun wire_endpoint :: "socket_addr \<Rightarrow> bool" where
  "wire_endpoint (V4 _ _) \<longleftrightarrow> True"
| "wire_endpoint (V6 _ _ flow scope) \<longleftrightarrow> flow = 0 \<and> scope = 0"

fun endpoint_size :: "socket_addr \<Rightarrow> nat" where
  "endpoint_size (V4 _ _) = 6"
| "endpoint_size (V6 _ _ _ _) = 18"

lemma w_endpoint_append: "w_endpoint ep buf = buf @ w_endpoint ep []"
  by (cases ep) (simp_all add: writer_defs)

lemma appends_w_endpoint: "appends (w_endpoint ep) (w_endpoint ep [])"
  unfolding appends_def using w_endpoint_append by blast

lemma length_w_endpoint [simp]: "length (w_endpoint ep buf) = length buf + endpoint_size ep"
  by (cases ep) (simp_all add: writer_defs)

lemma r_u16_to_be [wire_simps]: "r_u16 (to_be 2 v @ rest) = Inr (v, rest)"
  using u16.read_write [of v rest] by (simp add: writer_defs)

lemma r_u16_to_be_all [wire_simps]: "r_u16 (to_be 2 v) = Inr (v, [])"
  using r_u16_to_be [of v "[]"] by simp

lemma decode_endpoint_written:
  "wire_endpoint ep \<Longrightarrow> decode_endpoint_value (w_endpoint ep []) = Inr ep"
  by (cases ep) (simp_all add: decode_endpoint_value_def r_endpoint_v4_def r_endpoint_v6_def
      writer_defs wire_simps from_be_to_be)

lemma decode_endpoint_sound:
  assumes "decode_endpoint_value v = Inr ep"
  shows "wire_endpoint ep \<and> v = w_endpoint ep []"
proof (cases "length v = 6")
  case True
  with assms obtain r where "r_endpoint_v4 v = Inr (ep, r)"
    by (auto simp: decode_endpoint_value_def bind_res_Inr)
  then obtain a p b where "r_u32 v = Inr (a, b)" "r_u16 b = Inr (p, r)" "ep = V4 a p"
    by (auto simp: r_endpoint_v4_def wire_simps bind_res_Inr)
  with True show ?thesis
    using u32.read_sound [of v a b] u16.read_sound [of b p r] by (simp add: writer_defs)
next
  case False
  with assms have l: "length v = 18" by (simp add: decode_endpoint_value_def split: if_splits)
  with assms obtain r where "r_endpoint_v6 v = Inr (ep, r)"
    by (auto simp: decode_endpoint_value_def bind_res_Inr)
  then obtain a p b where "length a = 16" "v = a @ b" "r_u16 b = Inr (p, r)"
    "ep = V6 (from_be a) p 0 0"
    by (auto simp: r_endpoint_v6_def wire_simps bind_res_Inr r_take_Inr)
  with l show ?thesis
    using u16.read_sound [of b p r] by (simp add: writer_defs to_be_from_be_length)
qed

end
