(* ===== verification/Beat_Math.thy ===== *)
theory Beat_Math
  imports Float64 Wire_Types
begin

text \<open>
  The timeline and beat-grid arithmetic of \<^verbatim>\<open>crates/tactus/src/math.rs\<close>. Beats are micro-beats,
  times microseconds, both \<open>i64\<close>; the \<open>i128\<close> intermediate products are mathematical integers
  (\<open>i128_products_fit\<close> shows that they never leave the type). A division by zero is \<open>None\<close>, the
  panic of the code. Sums and differences of \<open>i64\<close> wrap around, so the lemmas about them name the
  range in which they are exact.
\<close>

section \<open>Definitions\<close>

definition TEMPO_MIN_MICROS_PER_BEAT :: i64 where
  "TEMPO_MIN_MICROS_PER_BEAT = 60060"

definition TEMPO_MAX_MICROS_PER_BEAT :: i64 where
  "TEMPO_MAX_MICROS_PER_BEAT = 3000000"

text \<open>The quotient before the cast to \<open>i64\<close>; Rust's \<open>/\<close> truncates.\<close>

definition nearest_quotient :: "int \<Rightarrow> int \<Rightarrow> int" where
  "nearest_quotient num den =
     (if num \<ge> 0 then (num + den sdiv 2) sdiv den else (num - den sdiv 2) sdiv den)"

definition round_div :: "int \<Rightarrow> int \<Rightarrow> i64 option" where
  "round_div num den = (if den = 0 then None else Some (word_of_int (nearest_quotient num den)))"

definition i64_div :: "i64 \<Rightarrow> i64 \<Rightarrow> i64" where
  "i64_div a b = word_of_int (sint a sdiv sint b)"

definition i64_rem_euclid :: "i64 \<Rightarrow> i64 \<Rightarrow> i64" where
  "i64_rem_euclid a b = word_of_int (sint a mod \<bar>sint b\<bar>)"

definition phase :: "i64 \<Rightarrow> i64 \<Rightarrow> i64" where
  "phase b q = (if q \<le>s 0 then 0 else i64_rem_euclid b q)"

definition align_up :: "i64 \<Rightarrow> i64 \<Rightarrow> i64 \<Rightarrow> i64" where
  "align_up x t q = (if q \<le>s 0 then x else x + i64_rem_euclid (phase t q - phase x q) q)"

definition align_near :: "i64 \<Rightarrow> i64 \<Rightarrow> i64 \<Rightarrow> i64" where
  "align_near x t q = (if q \<le>s 0 then x else align_up (x - i64_div q 2) t q)"

definition clamp_tempo :: "i64 \<Rightarrow> i64" where
  "clamp_tempo t = (if t <s TEMPO_MIN_MICROS_PER_BEAT then TEMPO_MIN_MICROS_PER_BEAT
     else if TEMPO_MAX_MICROS_PER_BEAT <s t then TEMPO_MAX_MICROS_PER_BEAT else t)"

definition bpm_to_tempo :: "f64 \<Rightarrow> i64" where
  "bpm_to_tempo bpm = clamp_tempo (f64_to_i64 (f64_round
     (f64_div (Fin 60000000) (f64_clamp (Fin 20) (Fin 999) bpm))))"

definition tempo_to_bpm :: "i64 \<Rightarrow> f64" where
  "tempo_to_bpm t = f64_div (Fin 60000000) (f64_of_int (sint t))"

definition beats_at_ghost :: "timeline \<Rightarrow> i64 \<Rightarrow> i64 option" where
  "beats_at_ghost l ghost = map_option (\<lambda>d. beat_origin l + d)
     (round_div (sint (ghost - time_origin l) * 1000000) (sint (tempo l)))"

definition ghost_at_beats :: "timeline \<Rightarrow> i64 \<Rightarrow> i64" where
  "ghost_at_beats l beats = time_origin l +
     word_of_int (nearest_quotient (sint (beats - beat_origin l) * sint (tempo l)) 1000000)"

definition app_beat_at_ghost :: "timeline \<Rightarrow> i64 \<Rightarrow> i64 \<Rightarrow> i64 option" where
  "app_beat_at_ghost l ghost q =
     map_option (\<lambda>b. align_near b (b - beat_origin l) q) (beats_at_ghost l ghost)"

definition ghost_at_app_beat :: "timeline \<Rightarrow> i64 \<Rightarrow> i64 \<Rightarrow> i64" where
  "ghost_at_app_beat l b q = (if q \<le>s 0 then ghost_at_beats l b else
     let r = b - beat_origin l;
         cycle = r - phase r q;
         delta = align_near (q - phase r q) (q - phase b q) q
     in ghost_at_beats l (beat_origin l + cycle + q - delta))"

definition session_offset :: "timeline \<Rightarrow> i64 \<Rightarrow> i64 option" where
  "session_offset l q = map_option (\<lambda>b0. align_near b0 (b0 - beat_origin l) q)
     (beats_at_ghost l (time_origin l))"

section \<open>Rounding division\<close>

lemma sdiv_pos: "0 < d \<Longrightarrow> n sdiv d = (if 0 \<le> n then n div d else - (- n div d))" for n d :: int
  by (auto simp: signed_divide_int_def sgn_if)

lemma nearest_quotient_nonneg:
  "0 < den \<Longrightarrow> 0 \<le> num \<Longrightarrow> nearest_quotient num den = (num + den div 2) div den"
  by (simp add: nearest_quotient_def sdiv_pos)

lemma nearest_quotient_minus:
  "0 < den \<Longrightarrow> nearest_quotient (- num) den = - nearest_quotient num den"
proof -
  assume den: "0 < den"
  then have k: "0 \<le> den div 2" by simp
  show ?thesis
  proof (cases "num = 0")
    case True
    with den show ?thesis by (simp add: nearest_quotient_def sdiv_pos)
  next
    case False
    then consider "0 < num" | "num < 0" by linarith
    then show ?thesis
    proof cases
      case 1
      with den k show ?thesis by (simp add: nearest_quotient_def sdiv_pos add.commute)
    next
      case 2
      with den k show ?thesis by (simp add: nearest_quotient_def sdiv_pos add.commute)
    qed
  qed
qed

lemma nearest_quotient_bounds:
  assumes "0 < den" and "0 \<le> num"
  shows "2 * (nearest_quotient num den * den - num) \<le> den"
    and "2 * (num - nearest_quotient num den * den) < den"
    and "0 \<le> nearest_quotient num den"
proof -
  define k where "k = den div 2"
  define p where "p = ((num + k) div den) * den"
  have k: "2 * k \<le> den" "den \<le> 2 * k + 1" unfolding k_def by presburger+
  have "p + (num + k) mod den = num + k" unfolding p_def by simp
  moreover have "0 \<le> (num + k) mod den" "(num + k) mod den < den" using assms by simp_all
  ultimately have p: "p \<le> num + k" "num + k < p + den" by linarith+
  from p k have "2 * (p - num) \<le> den" "2 * (num - p) < den" by presburger+
  moreover have "0 \<le> (num + k) div den"
    using assms by (simp add: k_def pos_imp_zdiv_nonneg_iff)
  ultimately show "2 * (nearest_quotient num den * den - num) \<le> den"
    "2 * (num - nearest_quotient num den * den) < den" "0 \<le> nearest_quotient num den"
    using assms by (simp_all add: nearest_quotient_nonneg p_def k_def)
qed

text \<open>The two facts that make it a rounding to nearest, ties away from zero, stated on the
  product \<open>p\<close> of the quotient and the divisor.\<close>

lemma nearest_quotient_cases:
  assumes "0 < den"
  obtains p where "nearest_quotient num den * den = p" and "2 * \<bar>p - num\<bar> \<le> den"
    and "2 * \<bar>p - num\<bar> = den \<Longrightarrow> \<bar>num\<bar> < \<bar>p\<bar>"
proof (cases "0 \<le> num")
  case True
  define p where "p = nearest_quotient num den * den"
  have "2 * (p - num) \<le> den" "2 * (num - p) < den"
    using nearest_quotient_bounds [OF assms True] by (simp_all add: p_def)
  then have "2 * \<bar>p - num\<bar> \<le> den" "2 * \<bar>p - num\<bar> = den \<Longrightarrow> \<bar>num\<bar> < \<bar>p\<bar>"
    using True assms by arith+
  then show ?thesis using that p_def by blast
next
  case False
  then have n: "0 \<le> - num" by simp
  define p where "p = nearest_quotient num den * den"
  have "2 * (- p - (- num)) \<le> den" "2 * ((- num) - (- p)) < den"
    using nearest_quotient_bounds [OF assms n] by (simp_all add: p_def nearest_quotient_minus [OF assms])
  then have "2 * \<bar>p - num\<bar> \<le> den" "2 * \<bar>p - num\<bar> = den \<Longrightarrow> \<bar>num\<bar> < \<bar>p\<bar>"
    using n assms by arith+
  then show ?thesis using that p_def by blast
qed

lemma nearest_quotient_near: "0 < den \<Longrightarrow> 2 * \<bar>nearest_quotient num den * den - num\<bar> \<le> den"
  by (metis nearest_quotient_cases)

lemma nearest_quotient_tie:
  "0 < den \<Longrightarrow> 2 * \<bar>nearest_quotient num den * den - num\<bar> = den \<Longrightarrow>
    \<bar>num\<bar> < \<bar>nearest_quotient num den * den\<bar>"
  by (metis nearest_quotient_cases)

lemma nearest_quotient_abs_le:
  assumes "0 < den" and "\<bar>num\<bar> \<le> b * den"
  shows "\<bar>nearest_quotient num den\<bar> \<le> b"
proof (rule ccontr)
  let ?r = "nearest_quotient num den"
  obtain p where p: "?r * den = p" "2 * \<bar>p - num\<bar> \<le> den" by (metis nearest_quotient_cases assms(1))
  assume "\<not> \<bar>?r\<bar> \<le> b"
  then have "(b + 1) * den \<le> \<bar>?r\<bar> * den" using assms(1) by (intro mult_right_mono) simp_all
  also have "\<dots> = \<bar>p\<bar>" using assms(1) by (simp add: abs_mult flip: p(1))
  finally have "b * den + den \<le> \<bar>p\<bar>" by (simp add: algebra_simps)
  with assms(2) have "den \<le> \<bar>p\<bar> - \<bar>num\<bar>" by simp
  also have "\<dots> \<le> \<bar>p - num\<bar>" by (rule abs_triangle_ineq2)
  finally show False using p(2) assms(1) by simp
qed

lemma nearest_quotient_mono:
  assumes "0 < den" and "x \<le> y"
  shows "nearest_quotient x den \<le> nearest_quotient y den"
proof -
  consider "0 \<le> x" | "x < 0" "0 \<le> y" | "y < 0" by linarith
  then show ?thesis
  proof cases
    case 1
    with assms show ?thesis by (simp add: nearest_quotient_nonneg zdiv_mono1)
  next
    case 2
    have "nearest_quotient x den = - nearest_quotient (- x) den"
      using nearest_quotient_minus [OF assms(1), of "- x"] by simp
    with 2 nearest_quotient_bounds(3) [OF assms(1), of "- x"] nearest_quotient_bounds(3) [OF assms(1), of y]
    show ?thesis by linarith
  next
    case 3
    have "nearest_quotient (- y) den \<le> nearest_quotient (- x) den"
      using 3 assms by (simp add: nearest_quotient_nonneg zdiv_mono1)
    then show ?thesis by (simp add: nearest_quotient_minus [OF assms(1)])
  qed
qed

lemma nearest_quotient_mult [simp]: "0 < den \<Longrightarrow> nearest_quotient (a * den) den = a"
proof -
  assume den: "0 < den"
  from nearest_quotient_near [OF den, of "a * den"]
  have *: "2 * \<bar>(nearest_quotient (a * den) den - a) * den\<bar> \<le> den"
    by (simp add: algebra_simps)
  show ?thesis
  proof (rule ccontr)
    assume "nearest_quotient (a * den) den \<noteq> a"
    then have "1 \<le> \<bar>nearest_quotient (a * den) den - a\<bar>" by simp
    then have "1 * den \<le> \<bar>nearest_quotient (a * den) den - a\<bar> * den"
      using den by (intro mult_right_mono) simp_all
    with * den show False by (simp add: abs_mult)
  qed
qed

lemma nearest_quotient_0 [simp]: "0 < den \<Longrightarrow> nearest_quotient 0 den = 0"
  using nearest_quotient_mult [of den 0] by simp

lemma round_div_pos: "0 < den \<Longrightarrow> round_div num den = Some (word_of_int (nearest_quotient num den))"
  by (simp add: round_div_def)

text \<open>The \<open>i128\<close> arithmetic never leaves \<open>i128\<close>: the products of two \<open>i64\<close> values, and of an \<open>i64\<close>
  with a frame duration, with half a divisor on top.\<close>

lemma abs_sint_i64: "\<bar>sint (x :: i64)\<bar> \<le> 2 ^ 63"
  using i64_range [of x] by arith

lemma i128_products_fit:
  fixes a b c :: i64
  shows "\<bar>sint a * sint b\<bar> + \<bar>sint c\<bar> < 2 ^ 127"
    and "\<bar>sint a * 1000000000000\<bar> + uint (r :: u32) * \<bar>sint b\<bar> < 2 ^ 127"
proof -
  have "\<bar>sint a\<bar> * \<bar>sint b\<bar> \<le> 2 ^ 63 * 2 ^ 63"
    by (intro mult_mono abs_sint_i64) simp_all
  then show "\<bar>sint a * sint b\<bar> + \<bar>sint c\<bar> < 2 ^ 127"
    using abs_sint_i64 [of c] by (simp add: abs_mult)
  have "uint r < 2 ^ 32" using uint_lt2p [of r] by simp
  then have "uint r * \<bar>sint b\<bar> \<le> 2 ^ 32 * 2 ^ 63"
    by (intro mult_mono abs_sint_i64) simp_all
  then show "\<bar>sint a * 1000000000000\<bar> + uint (r :: u32) * \<bar>sint b\<bar> < 2 ^ 127"
    using abs_sint_i64 [of a] by (simp add: abs_mult)
qed

lemma i64_eqI: "sint a = sint b \<Longrightarrow> a = b" for a b :: i64
  by (rule signed_word_eqI) simp

section \<open>Phases\<close>

lemma sint_i64_rem_euclid:
  assumes "0 < sint b"
  shows "sint (i64_rem_euclid a b) = sint a mod sint b"
proof -
  have "0 \<le> sint a mod sint b" "sint a mod sint b < sint b" using assms by simp_all
  with i64_range(2) [of b] have "sint (word_of_int (sint a mod sint b) :: i64) = sint a mod sint b"
    by (intro sint_of_int_i64) linarith+
  then show ?thesis using assms by (simp add: i64_rem_euclid_def)
qed

lemma sint_phase: "sint (phase b q) = (if sint q \<le> 0 then 0 else sint b mod sint q)"
  by (simp add: phase_def word_sle_eq sint_i64_rem_euclid)

lemma sint_phase_pos: "0 < sint q \<Longrightarrow> sint (phase b q) = sint b mod sint q"
  by (simp add: sint_phase)

lemma sint_half: "0 < sint q \<Longrightarrow> sint (i64_div q 2) = sint q div 2"
  using i64_range(2) [of q] by (simp add: i64_div_def sdiv_pos sint_of_int_i64)

text \<open>Within these ranges no sum of the alignment wraps around.\<close>

lemma sint_align_up:
  assumes "0 < sint q" and "sint x + sint q \<le> 2 ^ 63"
  shows "sint (align_up x t q) = sint x + (sint t - sint x) mod sint q"
proof -
  let ?q = "sint q"
  have q: "\<not> q \<le>s 0" using assms(1) by (simp add: word_sle_eq)
  have m: "0 \<le> sint t mod ?q" "sint t mod ?q < ?q" "0 \<le> sint x mod ?q" "sint x mod ?q < ?q"
    "0 \<le> (sint t - sint x) mod ?q" "(sint t - sint x) mod ?q < ?q"
    using assms(1) by simp_all
  have "sint (phase t q - phase x q) = sint t mod ?q - sint x mod ?q"
    using m i64_range(2) [of q] assms(1) sint_sub_i64 [of "phase t q" "phase x q"]
    unfolding sint_phase_pos [OF assms(1)] by linarith
  then have r: "sint (i64_rem_euclid (phase t q - phase x q) q) = (sint t - sint x) mod ?q"
    using assms(1) by (simp add: sint_i64_rem_euclid mod_diff_eq)
  have "sint (x + i64_rem_euclid (phase t q - phase x q) q) = sint x + (sint t - sint x) mod ?q"
    using m assms(2) i64_range(1) [of x]
      sint_add_i64 [of x "i64_rem_euclid (phase t q - phase x q) q"]
    unfolding r by linarith
  then show ?thesis by (simp add: align_up_def q)
qed

lemma sint_align_near:
  assumes "0 < sint q" and "- (2 ^ 63) \<le> sint x - sint q div 2" and "sint x + sint q \<le> 2 ^ 63"
  shows "sint (align_near x t q) =
    sint x - sint q div 2 + (sint t - sint x + sint q div 2) mod sint q"
proof -
  have q: "\<not> q \<le>s 0" using assms(1) by (simp add: word_sle_eq)
  have h: "0 \<le> sint q div 2" using assms(1) by (simp add: pos_imp_zdiv_nonneg_iff)
  then have d: "sint (x - i64_div q 2) = sint x - sint q div 2"
    using assms i64_range(2) [of x] by (subst sint_sub_i64) (simp_all add: sint_half)
  show ?thesis
    using assms h by (simp add: align_near_def q d sint_align_up algebra_simps)
qed

section \<open>Conversions\<close>

lemma sint_clamp_tempo:
  "sint (clamp_tempo t) = max 60060 (min 3000000 (sint t))"
  by (auto simp: clamp_tempo_def word_sless_alt TEMPO_MIN_MICROS_PER_BEAT_def
      TEMPO_MAX_MICROS_PER_BEAT_def)

text \<open>Tempos that the code lets into a timeline.\<close>

definition legal_tempo :: "i64 \<Rightarrow> bool" where
  "legal_tempo t \<longleftrightarrow> 60060 \<le> sint t \<and> sint t \<le> 3000000"

lemma legal_clamp_tempo [simp]: "legal_tempo (clamp_tempo t)"
  by (simp add: legal_tempo_def sint_clamp_tempo)

lemma legal_bpm_to_tempo [simp]: "legal_tempo (bpm_to_tempo bpm)"
  by (simp add: bpm_to_tempo_def)

lemma legal_tempo_pos: "legal_tempo t \<Longrightarrow> 0 < sint t"
  by (simp add: legal_tempo_def)

text \<open>A value whose magnitude leaves room for the sums and conversions: less than \<open>2 ^ 54\<close>, some
  570 years of microseconds or \<open>18 * 10 ^ 9\<close> beats.\<close>

definition room :: "i64 \<Rightarrow> bool" where
  "room x \<longleftrightarrow> \<bar>sint x\<bar> < 2 ^ 54"

definition roomy_timeline :: "timeline \<Rightarrow> bool" where
  "roomy_timeline l \<longleftrightarrow> legal_tempo (tempo l) \<and> room (beat_origin l) \<and> room (time_origin l)"

text \<open>The beat count at a ghost time and back, as integers.\<close>

definition beats_real :: "timeline \<Rightarrow> int \<Rightarrow> int" where
  "beats_real l g = sint (beat_origin l) +
     nearest_quotient ((g - sint (time_origin l)) * 1000000) (sint (tempo l))"

definition ghost_real :: "timeline \<Rightarrow> int \<Rightarrow> int" where
  "ghost_real l b = sint (time_origin l) +
     nearest_quotient ((b - sint (beat_origin l)) * sint (tempo l)) 1000000"

lemma beats_quotient_bound:
  assumes "legal_tempo t"
  shows "\<bar>nearest_quotient (d * 1000000) (sint t)\<bar> \<le> 17 * \<bar>d\<bar>"
proof (rule nearest_quotient_abs_le)
  show "0 < sint t" using assms by (rule legal_tempo_pos)
  have "\<bar>d\<bar> * 1000000 \<le> \<bar>d\<bar> * (17 * sint t)"
    using assms by (intro mult_left_mono) (simp_all add: legal_tempo_def)
  then show "\<bar>d * 1000000\<bar> \<le> 17 * \<bar>d\<bar> * sint t"
    by (simp add: abs_mult algebra_simps)
qed

lemma ghost_quotient_bound:
  assumes "legal_tempo t"
  shows "\<bar>nearest_quotient (d * sint t) 1000000\<bar> \<le> 3 * \<bar>d\<bar>"
proof (rule nearest_quotient_abs_le)
  have "\<bar>d\<bar> * sint t \<le> \<bar>d\<bar> * 3000000"
    using assms by (intro mult_left_mono) (simp_all add: legal_tempo_def)
  then show "\<bar>d * sint t\<bar> \<le> 3 * \<bar>d\<bar> * 1000000"
    using legal_tempo_pos [OF assms] by (simp add: abs_mult)
qed simp

lemma sint_word_of_int_add:
  fixes a :: i64
  assumes "- (2 ^ 63) \<le> sint a + i" and "sint a + i < 2 ^ 63"
  shows "sint (a + word_of_int i) = sint a + i"
  using assms sint_of_int_i64 [of "sint a + i"] by simp

lemma sint_beats_at_ghost:
  assumes "legal_tempo (tempo l)" and "\<bar>sint g - sint (time_origin l)\<bar> < 2 ^ 58"
    and "\<bar>sint (beat_origin l)\<bar> < 2 ^ 61"
  obtains b where "beats_at_ghost l g = Some b" and "sint b = beats_real l (sint g)"
proof -
  let ?n = "nearest_quotient ((sint g - sint (time_origin l)) * 1000000) (sint (tempo l))"
  have d: "sint (g - time_origin l) = sint g - sint (time_origin l)"
    using assms(2) by (intro sint_sub_i64) simp_all
  have "\<bar>?n\<bar> < 2 ^ 62 + 2 ^ 61"
    by (rule le_less_trans [OF beats_quotient_bound [OF assms(1)]]) (use assms(2) in simp)
  then have "sint (beat_origin l + word_of_int ?n) = beats_real l (sint g)"
    using assms(3) unfolding beats_real_def by (intro sint_word_of_int_add) (simp_all add: abs_less_iff)
  moreover have "beats_at_ghost l g = Some (beat_origin l + word_of_int ?n)"
    using legal_tempo_pos [OF assms(1)] by (simp add: beats_at_ghost_def round_div_pos d)
  ultimately show thesis using that by blast
qed

lemma sint_ghost_at_beats:
  assumes "legal_tempo (tempo l)" and "\<bar>sint b - sint (beat_origin l)\<bar> < 2 ^ 61"
    and "\<bar>sint (time_origin l)\<bar> < 2 ^ 61"
  shows "sint (ghost_at_beats l b) = ghost_real l (sint b)"
proof -
  let ?n = "nearest_quotient ((sint b - sint (beat_origin l)) * sint (tempo l)) 1000000"
  have d: "sint (b - beat_origin l) = sint b - sint (beat_origin l)"
    using assms(2) by (intro sint_sub_i64) simp_all
  have "\<bar>?n\<bar> < 2 ^ 62 + 2 ^ 61"
    by (rule le_less_trans [OF ghost_quotient_bound [OF assms(1)]]) (use assms(2) in simp)
  then have "sint (time_origin l + word_of_int ?n) = ghost_real l (sint b)"
    using assms(3) unfolding ghost_real_def by (intro sint_word_of_int_add) (simp_all add: abs_less_iff)
  then show ?thesis by (simp add: ghost_at_beats_def d)
qed

lemma beats_real_mono: "legal_tempo (tempo l) \<Longrightarrow> g \<le> h \<Longrightarrow> beats_real l g \<le> beats_real l h"
  unfolding beats_real_def
  by (intro add_left_mono nearest_quotient_mono) (simp_all add: legal_tempo_pos)

lemma beats_real_origin [simp]:
  "legal_tempo (tempo l) \<Longrightarrow> beats_real l (sint (time_origin l)) = sint (beat_origin l)"
  by (simp add: beats_real_def legal_tempo_pos)

lemma twice_abs_triangle: "2 * \<bar>a - b\<bar> \<le> x \<Longrightarrow> 2 * \<bar>b - c\<bar> \<le> y \<Longrightarrow> 2 * \<bar>a - c\<bar> \<le> x + y"
  for a b c :: int
  by arith

text \<open>The two conversions invert each other up to their roundings: half a microsecond of ghost
  time, and half a micro-beat.\<close>

lemma beats_ghost_real_error:
  assumes "legal_tempo (tempo l)"
  shows "2 * sint (tempo l) * \<bar>beats_real l (ghost_real l b) - b\<bar> \<le> 1000000 + sint (tempo l)"
proof -
  define t where "t = sint (tempo l)"
  define d where "d = b - sint (beat_origin l)"
  define g where "g = nearest_quotient (d * t) 1000000"
  define e where "e = nearest_quotient (g * 1000000) t"
  have t: "0 < t" using legal_tempo_pos [OF assms] by (simp add: t_def)
  have 1: "2 * \<bar>g * 1000000 - d * t\<bar> \<le> 1000000" unfolding g_def by (rule nearest_quotient_near) simp
  have 2: "2 * \<bar>e * t - g * 1000000\<bar> \<le> t" unfolding e_def by (rule nearest_quotient_near [OF t])
  from 2 1 have "2 * \<bar>e * t - d * t\<bar> \<le> t + 1000000" by (rule twice_abs_triangle)
  moreover have "\<bar>e * t - d * t\<bar> = t * \<bar>e - d\<bar>"
    using t by (simp add: abs_mult flip: left_diff_distrib)
  ultimately have "2 * t * \<bar>e - d\<bar> \<le> 1000000 + t" by (simp add: mult.assoc add.commute)
  moreover have "beats_real l (ghost_real l b) - b = e - d"
    by (simp add: beats_real_def ghost_real_def e_def g_def d_def t_def)
  ultimately show ?thesis by (simp add: t_def)
qed

section \<open>The beat grid of an application\<close>

text \<open>Encoding a beat against the quantum moves it by a constant of the timeline and the quantum: the
  distance from the origin's phase to a multiple of the quantum.\<close>

definition grid_shift :: "int \<Rightarrow> int \<Rightarrow> int" where
  "grid_shift origin q = (if q \<le> 0 then 0 else (q div 2 - origin) mod q - q div 2)"

lemma grid_shift_bounds:
  assumes "0 < q"
  shows "\<bar>grid_shift origin q\<bar> \<le> q"
proof -
  define m where "m = (q div 2 - origin) mod q"
  have m: "0 \<le> m" "m < q" using assms by (simp_all add: m_def)
  have "0 \<le> q div 2" "q div 2 \<le> q" using assms by presburger+
  with m have "\<bar>m - q div 2\<bar> \<le> q" by linarith
  then show ?thesis using assms by (simp add: grid_shift_def m_def)
qed

lemma align_near_no_quantum: "sint q \<le> 0 \<Longrightarrow> align_near x t q = x"
  by (simp add: align_near_def word_sle_eq)

lemma sint_encode_beat:
  assumes "\<bar>sint b\<bar> < 2 ^ 62" and "room org" and "sint q < 2 ^ 54"
  shows "sint (align_near b (b - org) q) = sint b + grid_shift (sint org) (sint q)"
proof (cases "0 < sint q")
  case True
  have h: "0 \<le> sint q div 2" "sint q div 2 \<le> sint q" using True by presburger+
  have d: "sint (b - org) = sint b - sint org"
    using assms by (intro sint_sub_i64) (simp_all add: room_def abs_less_iff)
  have "sint (align_near b (b - org) q) =
      sint b - sint q div 2 + (sint (b - org) - sint b + sint q div 2) mod sint q"
    using True assms h by (intro sint_align_near) (simp_all add: abs_less_iff)
  then show ?thesis using True by (simp add: d grid_shift_def)
qed (simp add: align_near_no_quantum grid_shift_def)

lemma roomy_beats_at_ghost:
  assumes "roomy_timeline l" and "\<bar>sint g\<bar> < 2 ^ 57 + 2 ^ 56"
  obtains b where "beats_at_ghost l g = Some b" and "sint b = beats_real l (sint g)"
    and "\<bar>sint b\<bar> < 2 ^ 62"
proof -
  have l: "legal_tempo (tempo l)" "\<bar>sint (beat_origin l)\<bar> < 2 ^ 54" "\<bar>sint (time_origin l)\<bar> < 2 ^ 54"
    using assms(1) by (simp_all add: roomy_timeline_def room_def)
  then have d: "\<bar>sint g - sint (time_origin l)\<bar> < 2 ^ 57 + 2 ^ 56 + 2 ^ 54"
    using assms(2) by (simp add: abs_less_iff)
  with l obtain b where b: "beats_at_ghost l g = Some b" "sint b = beats_real l (sint g)"
    by (auto intro: sint_beats_at_ghost [of l g])
  have "\<bar>beats_real l (sint g)\<bar> \<le> \<bar>sint (beat_origin l)\<bar> + 17 * \<bar>sint g - sint (time_origin l)\<bar>"
    unfolding beats_real_def
    by (rule order_trans [OF abs_triangle_ineq add_left_mono [OF beats_quotient_bound [OF l(1)]]])
  also have "\<dots> < 2 ^ 62" using l(2) d by simp
  finally show thesis using that b by simp
qed

lemma roomy_app_beat:
  assumes "roomy_timeline l" and "\<bar>sint g\<bar> < 2 ^ 57 + 2 ^ 56" and "sint q < 2 ^ 54"
  obtains a where "app_beat_at_ghost l g q = Some a"
    and "sint a = beats_real l (sint g) + grid_shift (sint (beat_origin l)) (sint q)"
proof -
  obtain b where b: "beats_at_ghost l g = Some b" "sint b = beats_real l (sint g)" "\<bar>sint b\<bar> < 2 ^ 62"
    using roomy_beats_at_ghost [OF assms(1,2)] .
  have "room (beat_origin l)" using assms(1) by (simp add: roomy_timeline_def)
  from sint_encode_beat [OF b(3) this assms(3)] b that show thesis
    by (simp add: app_beat_at_ghost_def)
qed

lemma roomy_session_offset:
  assumes "roomy_timeline l" and "sint q < 2 ^ 54"
  obtains d where "session_offset l q = Some d"
    and "sint d = sint (beat_origin l) + grid_shift (sint (beat_origin l)) (sint q)"
proof -
  have l: "legal_tempo (tempo l)" "\<bar>sint (time_origin l)\<bar> < 2 ^ 54"
    using assms(1) by (simp_all add: roomy_timeline_def room_def)
  then have "\<bar>sint (time_origin l)\<bar> < 2 ^ 57 + 2 ^ 56" by simp
  from roomy_app_beat [OF assms(1) this assms(2)] that l(1) show thesis
    by (metis session_offset_def app_beat_at_ghost_def beats_real_origin)
qed

text \<open>The inverse direction removes the same shift.\<close>

lemma ghost_at_app_beat_shift:
  assumes "roomy_timeline l" and "room b" and "sint q < 2 ^ 54"
  shows "\<exists>x. ghost_at_app_beat l b q = ghost_at_beats l x \<and>
    sint x = sint b - grid_shift (sint (beat_origin l)) (sint q)"
proof (cases "0 < sint q")
  case True
  define Q where "Q = sint q"
  define B where "B = sint b"
  define org where "org = sint (beat_origin l)"
  have org: "\<bar>org\<bar> < 2 ^ 54" using assms(1) by (simp add: roomy_timeline_def room_def org_def)
  have B: "\<bar>B\<bar> < 2 ^ 54" using assms(2) by (simp add: room_def B_def)
  have Q: "0 < Q" "Q < 2 ^ 54" using True assms(3) by (simp_all add: Q_def)
  define r where "r = b - beat_origin l"
  define rho where "rho = (B - org) mod Q"
  have rho: "0 \<le> rho" "rho < Q" using Q(1) by (simp_all add: rho_def)
  define bm where "bm = B mod Q"
  have bm: "0 \<le> bm" "bm < Q" using Q(1) by (simp_all add: bm_def)
  have r: "sint r = B - org"
    unfolding r_def using B org by (subst sint_sub_i64) (simp_all add: B_def org_def abs_less_iff)
  have pr: "sint (phase r q) = rho" and pb: "sint (phase b q) = bm"
    using True by (simp_all add: sint_phase_pos r rho_def bm_def Q_def B_def)
  have cycle: "sint (r - phase r q) = B - org - rho"
    using B org rho Q by (subst sint_sub_i64) (simp_all add: r pr abs_less_iff)
  have x1: "sint (q - phase r q) = Q - rho" and x2: "sint (q - phase b q) = Q - bm"
    using rho bm Q by (subst sint_sub_i64, simp_all add: pr pb Q_def [symmetric])+
  define delta where "delta = align_near (q - phase r q) (q - phase b q) q"
  have h: "0 \<le> Q div 2" "Q div 2 \<le> Q" using Q by presburger+
  have "sint delta = Q - rho - Q div 2 + (Q - bm - (Q - rho) + Q div 2) mod Q"
    unfolding delta_def using rho h Q
    by (subst sint_align_near) (simp_all add: x1 x2 Q_def [symmetric])
  also have "(Q - bm - (Q - rho) + Q div 2) mod Q = (Q div 2 - org) mod Q"
  proof -
    have "Q dvd (rho - (B - org)) + (B - bm)"
      unfolding rho_def bm_def by (intro dvd_add) (simp_all add: mod_eq_dvd_iff [symmetric])
    then show ?thesis by (simp add: mod_eq_dvd_iff algebra_simps)
  qed
  finally have delta: "sint delta = Q - rho + grid_shift org Q"
    using Q(1) by (simp add: grid_shift_def)
  have gs: "\<bar>grid_shift org Q\<bar> \<le> Q" by (rule grid_shift_bounds [OF Q(1)])
  have s1: "sint (beat_origin l + (r - phase r q)) = B - rho"
    using B org rho Q by (subst sint_add_i64) (simp_all add: cycle org_def abs_less_iff)
  have s2: "sint (beat_origin l + (r - phase r q) + q) = B - rho + Q"
    using B rho Q by (subst sint_add_i64) (simp_all only: s1 Q_def [symmetric], simp_all add: abs_less_iff)
  have "sint (beat_origin l + (r - phase r q) + q - delta) = B - grid_shift org Q"
    using B rho Q gs
    by (subst sint_sub_i64) (simp_all only: s2 delta, simp_all add: abs_less_iff abs_le_iff)
  moreover have "ghost_at_app_beat l b q =
      ghost_at_beats l (beat_origin l + (r - phase r q) + q - delta)"
    using True by (simp add: ghost_at_app_beat_def word_sle_eq Let_def r_def delta_def)
  ultimately show ?thesis by (auto simp: B_def org_def Q_def)
qed (auto simp: ghost_at_app_beat_def word_sle_eq grid_shift_def)

section \<open>Tempo and bpm\<close>

text \<open>Dividing a positive constant twice, each time with a rounding of relative error \<open>e\<close>, comes
  back to the divisor within \<open>4 * e\<close>.\<close>

lemma double_division_error:
  fixes t c r v e :: rat
  assumes "0 < t" and "0 < c" and "0 < e" and "e \<le> 1 / 4"
    and r: "\<bar>r - c / t\<bar> \<le> c / t * e" and v: "\<bar>v - c / r\<bar> \<le> c / r * e"
  shows "\<bar>v - t\<bar> \<le> 4 * t * e"
proof -
  define x where "x = c / t"
  have x: "0 < x" "c = x * t" using assms(1,2) by (simp_all add: x_def)
  have xe: "x * e \<le> x * (1 / 4)" using assms(4) x(1) by (intro mult_left_mono) simp_all
  have r1: "3 / 4 * x \<le> r" using r xe by (simp add: x_def abs_le_iff)
  then have r0: "0 < r" using x(1) by simp
  define y where "y = c / r"
  have y0: "0 < y" using r0 assms(2) by (simp add: y_def)
  have "y - t = t * (x - r) / r" using r0 x by (simp add: y_def field_simps)
  then have "\<bar>y - t\<bar> = t * \<bar>x - r\<bar> / r" using r0 assms(1) by (simp add: abs_mult)
  also have "\<dots> \<le> t * (x * e) / (3 / 4 * x)"
    using r r0 r1 x(1) assms(1,3)
    by (intro frac_le mult_left_mono mult_nonneg_nonneg) (simp_all add: x_def abs_minus_commute)
  also have "\<dots> = 4 / 3 * t * e" using x(1) by simp
  finally have 1: "\<bar>y - t\<bar> \<le> 4 / 3 * t * e" .
  have te: "t * e \<le> t / 4" using assms(1,4) mult_left_mono [of e "1 / 4" t] by simp
  with 1 have "y \<le> 4 / 3 * t" unfolding mult.assoc by linarith
  then have "y * e \<le> 4 / 3 * t * e" using assms(3) by (intro mult_right_mono) simp_all
  with v have 2: "\<bar>v - y\<bar> \<le> 4 / 3 * t * e" unfolding y_def by (rule order_trans)
  have "\<bar>v - t\<bar> \<le> \<bar>v - y\<bar> + \<bar>y - t\<bar>" by linarith
  also have "\<dots> \<le> 8 / 3 * t * e" using 1 2 by linarith
  also have "\<dots> \<le> 4 * t * e" using assms(1,3) by (intro mult_right_mono) simp_all
  finally show ?thesis .
qed

lemma bpm_to_tempo_near:
  assumes t: "legal_tempo t" "sint t = n" and r: "20 \<le> r" "r \<le> 999"
    and v: "rnd (60000000 / r) = Fin v" "\<bar>v - of_int n\<bar> < 1 / 2"
  shows "bpm_to_tempo (Fin r) = t"
proof -
  have n: "60060 \<le> n" "n \<le> 3000000" using t by (simp_all add: legal_tempo_def)
  then have "(60060 :: rat) \<le> of_int n" by linarith
  with v(2) have "0 \<le> v" by linarith
  with v(2) have "round_half_away v = n" by (rule round_half_away_near)
  moreover have "word_of_int n = t" using n t(2) by (intro i64_eqI) (simp add: sint_of_int_i64)
  moreover have "clamp_tempo t = t" using n by (intro i64_eqI) (simp add: sint_clamp_tempo t(2))
  ultimately show ?thesis using r v(1) n by (simp add: bpm_to_tempo_def f64_clamp_def)
qed

lemma bpm_to_tempo_fast: "999 < r \<Longrightarrow> bpm_to_tempo (Fin r) = 60060"
proof -
  assume r: "999 < r"
  obtain v where v: "rnd (60000000 / 999) = Fin v" "\<bar>v - 60000000 / 999\<bar> \<le> 60000000 / 999 / 2 ^ 53"
    by (rule rnd_relative [of "60000000 / 999"]) auto
  have "(60000000 / 999 / 2 ^ 53 :: rat) \<le> 1 / 1000" by simp
  with v(2) have "\<bar>v - 60000000 / 999\<bar> \<le> 1 / 1000" by (rule order_trans)
  then have "v - 60000000 / 999 \<le> 1 / 1000" "- (1 / 1000) \<le> v - 60000000 / 999"
    unfolding abs_le_iff by linarith+
  then have "\<bar>v - of_int 60060\<bar> < 1 / 2" "0 \<le> v" by (simp_all add: abs_less_iff)
  then have "round_half_away v = 60060" by (rule round_half_away_near)
  then show ?thesis
    using r v(1)
    by (simp add: bpm_to_tempo_def f64_clamp_def clamp_tempo_def word_sless_alt
        TEMPO_MIN_MICROS_PER_BEAT_def TEMPO_MAX_MICROS_PER_BEAT_def)
qed

section \<open>Properties\<close>

text \<open>\<open>round_div\<close> rounds to the nearest integer and resolves ties away from zero.\<close>

theorem round_div_nearest:
  assumes "0 < den" and "\<bar>num\<bar> \<le> 2 ^ 62 * den"
  shows "\<exists>r. round_div num den = Some r \<and> 2 * \<bar>sint r * den - num\<bar> \<le> den \<and>
    (2 * \<bar>sint r * den - num\<bar> = den \<longrightarrow> \<bar>num\<bar> < \<bar>sint r * den\<bar>)"
proof -
  have "\<bar>nearest_quotient num den\<bar> \<le> 2 ^ 62" by (rule nearest_quotient_abs_le [OF assms])
  then have "sint (word_of_int (nearest_quotient num den) :: i64) = nearest_quotient num den"
    by (intro sint_of_int_i64) (simp_all add: abs_le_iff)
  then show ?thesis
    using nearest_quotient_near [OF assms(1)] nearest_quotient_tie [OF assms(1)]
    by (simp add: round_div_pos [OF assms(1)])
qed

lemma round_div_nearest_witness:
  "\<exists>r. round_div (- 7) 2 = Some r \<and> 2 * \<bar>sint r * 2 - (- 7)\<bar> \<le> 2 \<and> \<bar>- 7\<bar> < \<bar>sint r * 2\<bar>"
proof -
  obtain r where r: "round_div (- 7) 2 = Some r" "2 * \<bar>sint r * 2 - (- 7)\<bar> \<le> 2"
    "2 * \<bar>sint r * 2 - (- 7)\<bar> = 2 \<longrightarrow> \<bar>- 7\<bar> < \<bar>sint r * 2\<bar>"
    using round_div_nearest [of 2 "- 7"] by auto
  from r(2) have "sint r = - 4 \<or> sint r = - 3" by presburger
  with r(3) have "\<bar>- 7\<bar> < \<bar>sint r * 2\<bar>" by presburger
  with r(1,2) show ?thesis by blast
qed

text \<open>\<open>align_up\<close> yields the least value that is at least \<open>x\<close> and has the phase of \<open>t\<close>.\<close>

theorem align_up_least:
  assumes "0 < sint q" and "sint x + sint q \<le> 2 ^ 63"
  shows "x \<le>s align_up x t q \<and> phase (align_up x t q) q = phase t q \<and>
    (\<forall>y. x \<le>s y \<and> phase y q = phase t q \<longrightarrow> align_up x t q \<le>s y)"
proof (intro conjI allI impI)
  note a = sint_align_up [OF assms, of t]
  have m: "0 \<le> (sint t - sint x) mod sint q" using assms(1) by simp
  then show "x \<le>s align_up x t q" unfolding word_sle_eq a by linarith
  show "phase (align_up x t q) q = phase t q"
    by (rule i64_eqI) (simp add: sint_phase_pos [OF assms(1)] a mod_simps)
  fix y
  assume y: "x \<le>s y \<and> phase y q = phase t q"
  then have "sint y mod sint q = sint t mod sint q" by (metis sint_phase_pos [OF assms(1)])
  then have "(sint t - sint x) mod sint q = (sint y - sint x) mod sint q"
    by (metis mod_diff_left_eq)
  also have "\<dots> \<le> sint y - sint x"
    using y assms(1) by (intro zmod_le_nonneg_dividend) (simp add: word_sle_eq)
  finally show "align_up x t q \<le>s y" unfolding word_sle_eq a by linarith
qed

lemma align_up_least_witness:
  "5 \<le>s align_up 5 (-2) (4 :: i64) \<and> phase (align_up 5 (-2) 4) 4 = phase (-2) 4 \<and>
    align_up 5 (-2) 4 \<le>s 6"
proof -
  have "5 \<le>s (6 :: i64) \<and> phase 6 4 = phase (-2) 4" by (simp add: phase_def i64_rem_euclid_def)
  then show ?thesis using align_up_least [of 4 5 "-2"] by simp
qed

text \<open>\<open>align_near\<close> yields a value with the phase of \<open>t\<close> that deviates from \<open>x\<close> by at most half
  a quantum; a tie at exactly half a quantum resolves downward.\<close>

theorem align_near_nearest:
  assumes "0 < sint q" and "- (2 ^ 63) + sint q \<le> sint x" and "sint x + sint q \<le> 2 ^ 63"
  shows "phase (align_near x t q) q = phase t q \<and>
    2 * \<bar>sint (align_near x t q) - sint x\<bar> \<le> sint q \<and>
    (2 * \<bar>sint (align_near x t q) - sint x\<bar> = sint q \<longrightarrow> align_near x t q <s x)"
proof -
  define h where "h = sint q div 2"
  have h: "0 \<le> h" "2 * h \<le> sint q" "sint q \<le> 2 * h + 1" using assms(1) by (simp_all add: h_def)
  define m where "m = (sint t - sint x + h) mod sint q"
  have m: "0 \<le> m" "m < sint q" using assms(1) by (simp_all add: m_def)
  have a: "sint (align_near x t q) = sint x - h + m"
    unfolding m_def h_def using assms h by (intro sint_align_near) (simp_all add: h_def)
  have "phase (align_near x t q) q = phase t q"
    by (rule i64_eqI) (simp add: sint_phase_pos [OF assms(1)] a m_def mod_simps)
  moreover have "2 * \<bar>m - h\<bar> \<le> sint q" using h m by arith
  moreover have "m < h" if "2 * \<bar>m - h\<bar> = sint q" using h m that by arith
  ultimately show ?thesis by (simp add: a word_sless_alt)
qed

lemma align_near_nearest_witness:
  "phase (align_near 5 (-1) (4 :: i64)) 4 = phase (-1) 4 \<and>
    2 * \<bar>sint (align_near 5 (-1) (4 :: i64)) - sint (5 :: i64)\<bar> \<le> sint (4 :: i64)"
  using align_near_nearest [of 4 5 "-1"] by simp

text \<open>The timeline is a bijection up to rounding: a beat converted to ghost time and back moves by
  at most half a micro-beat plus what half a microsecond is worth at this tempo, and the beat count
  never decreases with time.\<close>

theorem timeline_bijection:
  assumes "roomy_timeline l" and "room b" and "room g" and "room h" and "g \<le>s h"
  shows "(\<exists>b'. beats_at_ghost l (ghost_at_beats l b) = Some b' \<and>
      2 * sint (tempo l) * \<bar>sint b' - sint b\<bar> \<le> 1000000 + sint (tempo l)) \<and>
    (\<exists>x y. beats_at_ghost l g = Some x \<and> beats_at_ghost l h = Some y \<and> x \<le>s y)"
proof -
  have l: "legal_tempo (tempo l)" "\<bar>sint (beat_origin l)\<bar> < 2 ^ 54" "\<bar>sint (time_origin l)\<bar> < 2 ^ 54"
    using assms(1) by (simp_all add: roomy_timeline_def room_def)
  have bound: "\<bar>sint b\<bar> < 2 ^ 54" "\<bar>sint g\<bar> < 2 ^ 54" "\<bar>sint h\<bar> < 2 ^ 54"
    using assms(2-4) by (simp_all add: room_def)
  have d: "\<bar>sint b - sint (beat_origin l)\<bar> < 2 ^ 55" using bound l by (simp add: abs_less_iff)
  have gb: "sint (ghost_at_beats l b) = ghost_real l (sint b)"
    using l d by (intro sint_ghost_at_beats) simp_all
  have "\<bar>ghost_real l (sint b)\<bar> \<le> \<bar>sint (time_origin l)\<bar> + 3 * \<bar>sint b - sint (beat_origin l)\<bar>"
    unfolding ghost_real_def
    by (rule order_trans [OF abs_triangle_ineq add_left_mono [OF ghost_quotient_bound [OF l(1)]]])
  also have "\<dots> < 2 ^ 57 + 2 ^ 56" using l(3) d by simp
  finally have "\<bar>sint (ghost_at_beats l b)\<bar> < 2 ^ 57 + 2 ^ 56" by (simp add: gb)
  then obtain b' where "beats_at_ghost l (ghost_at_beats l b) = Some b'"
    "sint b' = beats_real l (ghost_real l (sint b))"
    using roomy_beats_at_ghost [OF assms(1)] gb by metis
  moreover obtain x where "beats_at_ghost l g = Some x" "sint x = beats_real l (sint g)"
    using roomy_beats_at_ghost [OF assms(1), of g] bound(2) by auto
  moreover obtain y where "beats_at_ghost l h = Some y" "sint y = beats_real l (sint h)"
    using roomy_beats_at_ghost [OF assms(1), of h] bound(3) by auto
  ultimately show ?thesis
    using beats_ghost_real_error [OF l(1)] beats_real_mono [OF l(1)] assms(5)
    by (simp add: word_sle_eq)
qed

text \<open>The timeline of 120 bpm that starts at beat 3 and ten seconds of ghost time.\<close>

definition example_timeline :: timeline where
  "example_timeline = \<lparr>tempo = 500000, beat_origin = 3000000, time_origin = 10000000\<rparr>"

lemma roomy_example_timeline: "roomy_timeline example_timeline"
  by (simp add: roomy_timeline_def example_timeline_def legal_tempo_def room_def)

lemma timeline_bijection_witness:
  "(\<exists>b'. beats_at_ghost example_timeline (ghost_at_beats example_timeline 4000001) = Some b' \<and>
      2 * sint (tempo example_timeline) * \<bar>sint b' - sint (4000001 :: i64)\<bar>
        \<le> 1000000 + sint (tempo example_timeline)) \<and>
    (\<exists>x y. beats_at_ghost example_timeline 10500000 = Some x \<and>
      beats_at_ghost example_timeline 10500001 = Some y \<and> x \<le>s y)"
  by (rule timeline_bijection [OF roomy_example_timeline]) (simp_all add: room_def word_sle_eq)

text \<open>The application beat minus the session offset is the number of beats since the origin, at
  every quantum: the session beat time that audio peers exchange does not depend on the quantum.\<close>

theorem session_beat_quantum_independent:
  assumes "roomy_timeline l" and "room g" and "sint q < 2 ^ 54"
  shows "\<exists>a d b. app_beat_at_ghost l g q = Some a \<and> session_offset l q = Some d \<and>
    beats_at_ghost l g = Some b \<and> sint a - sint d = sint b - sint (beat_origin l)"
proof -
  have g: "\<bar>sint g\<bar> < 2 ^ 57 + 2 ^ 56" using assms(2) by (simp add: room_def)
  obtain b where "beats_at_ghost l g = Some b" "sint b = beats_real l (sint g)"
    using roomy_beats_at_ghost [OF assms(1) g] .
  moreover obtain a where "app_beat_at_ghost l g q = Some a"
    "sint a = beats_real l (sint g) + grid_shift (sint (beat_origin l)) (sint q)"
    using roomy_app_beat [OF assms(1) g assms(3)] .
  moreover obtain d where "session_offset l q = Some d"
    "sint d = sint (beat_origin l) + grid_shift (sint (beat_origin l)) (sint q)"
    using roomy_session_offset [OF assms(1,3)] .
  ultimately show ?thesis by simp
qed

lemma session_beat_quantum_independent_witness:
  "\<exists>a d b. app_beat_at_ghost example_timeline 12345678 4000000 = Some a \<and>
    session_offset example_timeline 4000000 = Some d \<and>
    beats_at_ghost example_timeline 12345678 = Some b \<and>
    sint a - sint d = sint b - sint (beat_origin example_timeline)"
  by (rule session_beat_quantum_independent [OF roomy_example_timeline]) (simp_all add: room_def)

text \<open>C31: \<open>ghost_at_app_beat\<close> inverts \<open>app_beat_at_ghost\<close> at every quantum: the tie-breaks of the
  two directions cancel, and only the rounding of the two conversions remains.\<close>

theorem app_beat_roundtrip:
  assumes "roomy_timeline l" and "room b" and "sint q < 2 ^ 54"
  shows "\<exists>b'. app_beat_at_ghost l (ghost_at_app_beat l b q) q = Some b' \<and>
    2 * sint (tempo l) * \<bar>sint b' - sint b\<bar> \<le> 1000000 + sint (tempo l)"
proof -
  have l: "legal_tempo (tempo l)" "\<bar>sint (beat_origin l)\<bar> < 2 ^ 54" "\<bar>sint (time_origin l)\<bar> < 2 ^ 54"
    using assms(1) by (simp_all add: roomy_timeline_def room_def)
  let ?s = "grid_shift (sint (beat_origin l)) (sint q)"
  obtain x where x: "ghost_at_app_beat l b q = ghost_at_beats l x" "sint x = sint b - ?s"
    using ghost_at_app_beat_shift [OF assms] by blast
  have s: "\<bar>?s\<bar> < 2 ^ 54"
    using grid_shift_bounds [of "sint q" "sint (beat_origin l)"] assms(3)
    by (cases "0 < sint q") (simp_all add: grid_shift_def)
  have xb: "\<bar>sint x\<bar> < 2 ^ 55" using s assms(2) by (simp add: x(2) room_def abs_less_iff)
  have d: "\<bar>sint x - sint (beat_origin l)\<bar> < 2 ^ 55 + 2 ^ 54"
    using l xb by (simp add: abs_less_iff)
  have gb: "sint (ghost_at_beats l x) = ghost_real l (sint x)"
    using l d by (intro sint_ghost_at_beats) simp_all
  have "\<bar>ghost_real l (sint x)\<bar> \<le> \<bar>sint (time_origin l)\<bar> + 3 * \<bar>sint x - sint (beat_origin l)\<bar>"
    unfolding ghost_real_def
    by (rule order_trans [OF abs_triangle_ineq add_left_mono [OF ghost_quotient_bound [OF l(1)]]])
  also have "\<dots> < 2 ^ 57 + 2 ^ 56" using l(3) d by simp
  finally have "\<bar>sint (ghost_at_beats l x)\<bar> < 2 ^ 57 + 2 ^ 56" by (simp add: gb)
  then obtain a where "app_beat_at_ghost l (ghost_at_beats l x) q = Some a"
    "sint a = beats_real l (ghost_real l (sint x)) + ?s"
    using roomy_app_beat [OF assms(1) _ assms(3)] gb by metis
  then show ?thesis
    using beats_ghost_real_error [OF l(1), of "sint x"] by (simp add: x algebra_simps)
qed

lemma app_beat_roundtrip_witness:
  "\<exists>b'. app_beat_at_ghost example_timeline (ghost_at_app_beat example_timeline 7891011 4000000) 4000000
      = Some b' \<and>
    2 * sint (tempo example_timeline) * \<bar>sint b' - sint (7891011 :: i64)\<bar>
      \<le> 1000000 + sint (tempo example_timeline)"
  by (rule app_beat_roundtrip [OF roomy_example_timeline]) (simp_all add: room_def)

text \<open>Every legal wire tempo survives the conversion to bpm and back through the two rounded
  \<open>f64\<close> divisions: an application that sets the tempo it reads does not change it.\<close>

theorem tempo_bpm_roundtrip:
  assumes "legal_tempo t"
  shows "bpm_to_tempo (tempo_to_bpm t) = t"
proof -
  define n where "n = sint t"
  let ?t = "of_int n :: rat"
  have n: "60060 \<le> n" "n \<le> 3000000" using assms by (simp_all add: legal_tempo_def n_def)
  then have t: "60060 \<le> ?t" "?t \<le> 3000000" by linarith+
  have x: "1 \<le> 60000000 / ?t" "60000000 / ?t \<le> 2 ^ 63" using t by (simp_all add: field_simps)
  obtain r where r: "rnd (60000000 / ?t) = Fin r" "\<bar>r - 60000000 / ?t\<bar> \<le> 60000000 / ?t / 2 ^ 53"
    using rnd_relative [OF x] .
  have bpm: "tempo_to_bpm t = Fin r"
    using t r(1) n f64_of_int_exact [of n] by (simp add: tempo_to_bpm_def flip: n_def)
  have "\<exists>r'. rnd (60000000 / ?t) = Fin r' \<and> of_int 20 \<le> r' \<and> r' \<le> of_int 1000"
    using t f64_limit_big by (intro rnd_Fin_between representable_of_int) (simp_all add: field_simps)
  then have r20: "20 \<le> r" "r \<le> 1000" using r(1) by auto
  show ?thesis
  proof (cases "r \<le> 999")
    case True
    have y: "1 \<le> 60000000 / r" "60000000 / r \<le> 2 ^ 63" using r20 by (simp_all add: field_simps)
    obtain v where v: "rnd (60000000 / r) = Fin v" "\<bar>v - 60000000 / r\<bar> \<le> 60000000 / r / 2 ^ 53"
      using rnd_relative [OF y] .
    have "\<bar>v - ?t\<bar> \<le> 4 * ?t * (1 / 2 ^ 53)"
      using t r(2) v(2) by (intro double_division_error [of ?t 60000000 _ r]) simp_all
    also have "\<dots> < 1 / 2" using t(2) by simp
    finally show ?thesis unfolding bpm using bpm_to_tempo_near [OF assms n_def [symmetric] r20(1) True v(1)] by blast
  next
    case False
    have "60000000 / ?t * (1 / 2 ^ 53) \<le> 1000 * (1 / 2 ^ 53)"
      using t by (intro mult_right_mono) (simp_all add: field_simps)
    then have "999 - 1 / 10000 < 60000000 / ?t" using False r(2) by (simp add: abs_le_iff)
    then have "?t < 60061" using t by (simp add: field_simps)
    then have "n = 60060" using n by linarith
    then have "t = 60060" by (intro i64_eqI) (simp add: n_def)
    with False bpm bpm_to_tempo_fast [of r] show ?thesis by simp
  qed
qed

lemma tempo_bpm_roundtrip_witness: "bpm_to_tempo (tempo_to_bpm 500000) = 500000"
  by (rule tempo_bpm_roundtrip) (simp add: legal_tempo_def)

end
