(* ===== verification/Hash_Map.thy ===== *)
theory Hash_Map
  imports Prelude
begin

text \<open>
  The interface of the maps the runtime keeps (\<open>HashMap\<close> and \<open>BTreeMap\<close> of the standard library):
  get, insert, remove and retain, with the laws the engine relies on, the facts that follow from the
  laws alone, and the interpretation on association lists, which is what the model stores. The order
  of an association list is one iteration order of the map; an operation whose effect depends on the
  order takes it through a parameter of the environment.
\<close>

section \<open>The interface\<close>

locale hash_map =
  fixes empty :: 'm
    and lookup :: "'m \<Rightarrow> 'k \<Rightarrow> 'v option"
    and insert :: "'k \<Rightarrow> 'v \<Rightarrow> 'm \<Rightarrow> 'm"
    and remove :: "'k \<Rightarrow> 'm \<Rightarrow> 'm"
    and retain :: "('k \<Rightarrow> 'v \<Rightarrow> bool) \<Rightarrow> 'm \<Rightarrow> 'm"
    and inv :: "'m \<Rightarrow> bool"
  assumes inv_empty: "inv empty"
    and lookup_empty: "lookup empty k = None"
    and inv_insert: "inv m \<Longrightarrow> inv (insert k v m)"
    and lookup_insert: "inv m \<Longrightarrow> lookup (insert k v m) k' = (if k' = k then Some v else lookup m k')"
    and inv_remove: "inv m \<Longrightarrow> inv (remove k m)"
    and lookup_remove: "inv m \<Longrightarrow> lookup (remove k m) k' = (if k' = k then None else lookup m k')"
    and inv_retain: "inv m \<Longrightarrow> inv (retain P m)"
    and lookup_retain: "inv m \<Longrightarrow> lookup (retain P m) k =
      (case lookup m k of None \<Rightarrow> None | Some v \<Rightarrow> if P k v then Some v else None)"
begin

lemma lookup_retain_Some:
  "inv m \<Longrightarrow> lookup (retain P m) k = Some v \<longleftrightarrow> lookup m k = Some v \<and> P k v"
  by (auto simp: lookup_retain split: option.splits)

lemma lookup_retain_None:
  "inv m \<Longrightarrow> lookup (retain P m) k = None \<longleftrightarrow> (\<forall>v. lookup m k = Some v \<longrightarrow> \<not> P k v)"
  by (auto simp: lookup_retain split: option.splits)

lemma retain_insert_kept:
  "inv m \<Longrightarrow> P k v \<Longrightarrow> lookup (retain P (insert k v m)) k = Some v"
  by (simp add: lookup_retain lookup_insert inv_insert)

lemma retain_retain:
  "inv m \<Longrightarrow> lookup (retain P (retain Q m)) k = lookup (retain (\<lambda>k v. P k v \<and> Q k v) m) k"
  by (simp add: lookup_retain inv_retain split: option.splits)

lemma remove_retain:
  "inv m \<Longrightarrow> lookup (remove k m) k' = lookup (retain (\<lambda>j _. j \<noteq> k) m) k'"
  by (simp add: lookup_remove lookup_retain split: option.splits)

text \<open>Nothing that is retained by an operation was not there before.\<close>

lemma retain_submap: "inv m \<Longrightarrow> lookup (retain P m) k = Some v \<Longrightarrow> lookup m k = Some v"
  by (simp add: lookup_retain_Some)

lemma insert_invariant:
  assumes "inv m" and "\<And>j w. lookup m j = Some w \<Longrightarrow> Q j w" and "Q k v"
    and "lookup (insert k v m) j = Some w"
  shows "Q j w"
  using assms by (auto simp: lookup_insert split: if_splits)

end

section \<open>Association lists\<close>

definition retain :: "('k \<Rightarrow> 'v \<Rightarrow> bool) \<Rightarrow> ('k \<times> 'v) list \<Rightarrow> ('k \<times> 'v) list" where
  "retain P = filter (\<lambda>(k, v). P k v)"

abbreviation keys_of :: "('k \<times> 'v) list \<Rightarrow> 'k list" where
  "keys_of m \<equiv> map fst m"

abbreviation well_keyed :: "('k \<times> 'v) list \<Rightarrow> bool" where
  "well_keyed m \<equiv> distinct (keys_of m)"

lemma well_keyed_retain [simp]: "well_keyed m \<Longrightarrow> well_keyed (retain P m)"
  by (simp add: retain_def distinct_map_filter)

lemma retain_simps [simp]:
  "retain P [] = []"
  "retain P ((k, v) # m) = (if P k v then (k, v) # retain P m else retain P m)"
  by (simp_all add: retain_def)

lemma set_retain [simp]: "set (retain P m) = {(k, v) \<in> set m. P k v}"
  by (auto simp: retain_def)

lemma map_of_retain:
  "well_keyed m \<Longrightarrow> map_of (retain P m) k =
    (case map_of m k of None \<Rightarrow> None | Some v \<Rightarrow> if P k v then Some v else None)"
proof (induction m)
  case Nil
  then show ?case by simp
next
  case (Cons kv m)
  obtain j w where [simp]: "kv = (j, w)" by (cases kv)
  show ?case
  proof (cases "k = j")
    case True
    with Cons.prems have "map_of m k = None" by (simp add: map_of_eq_None_iff)
    with True Cons show ?thesis by auto
  qed (use Cons in auto)
qed

interpretation hm: hash_map "[]" map_of AList.update AList.delete retain well_keyed
  by unfold_locales
    (simp_all add: AList.update_conv' AList.delete_conv' distinct_update distinct_delete map_of_retain
      del: fun_upd_apply, simp_all add: fun_upd_apply)

lemma retain_True [simp]: "(\<And>k v. (k, v) \<in> set m \<Longrightarrow> P k v) \<Longrightarrow> retain P m = m"
  by (induction m) auto

lemma retain_twice: "retain P (retain Q m) = retain (\<lambda>k v. P k v \<and> Q k v) m"
  by (induction m) auto

lemma mem_retain: "(k, v) \<in> set (retain P m) \<Longrightarrow> (k, v) \<in> set m \<and> P k v"
  by simp

lemma mem_update: "x \<in> set (AList.update k v m) \<Longrightarrow> x = (k, v) \<or> x \<in> set m"
  by (induction m) (auto split: if_splits)

lemma ball_update: "\<forall>x \<in> set m. Q x \<Longrightarrow> Q (k, v) \<Longrightarrow> \<forall>x \<in> set (AList.update k v m). Q x"
  using mem_update by fastforce

lemma ball_retain: "\<forall>x \<in> set m. Q x \<Longrightarrow> \<forall>x \<in> set (retain P m). Q x"
  by auto

lemma ball_delete: "\<forall>x \<in> set m. Q x \<Longrightarrow> \<forall>x \<in> set (AList.delete k m). Q x"
  by (auto simp: AList.delete_eq)

lemma mem_delete: "x \<in> set (AList.delete k m) \<Longrightarrow> x \<in> set m \<and> fst x \<noteq> k"
  by (auto simp: AList.delete_eq)

lemma in_update: "(k, v) \<in> set (AList.update k v m)"
  by (induction m) auto

lemma update_keeps: "(j, w) \<in> set m \<Longrightarrow> j \<noteq> k \<Longrightarrow> (j, w) \<in> set (AList.update k v m)"
  by (induction m) auto

lemma map_of_mem: "well_keyed m \<Longrightarrow> map_of m k = Some v \<longleftrightarrow> (k, v) \<in> set m"
  by (rule map_of_eq_Some_iff)

text \<open>A key that is not there yet is appended: the entries of an ordered map whose new keys are the
  greatest stay in order.\<close>

lemma update_fresh: "k \<notin> set (keys_of m) \<Longrightarrow> AList.update k v m = m @ [(k, v)]"
  by (induction m) auto

section \<open>Least values\<close>

text \<open>\<open>values().min()\<close> on signed deadlines.\<close>

definition min_signed :: "i64 list \<Rightarrow> i64 option" where
  "min_signed xs = (case xs of [] \<Rightarrow> None | x # ys \<Rightarrow> Some (foldl smin x ys))"

lemma sint_foldl_smin: "sint (foldl smin x ys) = foldl min (sint x) (map sint ys)"
  by (induction ys arbitrary: x) simp_all

lemma foldl_min_le: "foldl min (a :: int) ys \<le> a \<and> (\<forall>y \<in> set ys. foldl min a ys \<le> y) \<and>
    (foldl min a ys = a \<or> foldl min a ys \<in> set ys)"
proof (induction ys arbitrary: a)
  case (Cons y ys)
  from Cons.IH [of "min a y"] show ?case by (auto simp: min_def split: if_splits)
qed simp

lemma min_signed_None [simp]: "min_signed xs = None \<longleftrightarrow> xs = []"
  by (simp add: min_signed_def split: list.splits)

lemma min_signed_le: "min_signed xs = Some m \<Longrightarrow> x \<in> set xs \<Longrightarrow> sint m \<le> sint x"
  using foldl_min_le [of "sint (hd xs)" "map sint (tl xs)"]
  by (cases xs) (auto simp: min_signed_def sint_foldl_smin)

end
