(* ===== verification/Discovery.thy ===== *)
theory Discovery
  imports Wire_Types
begin

text \<open>
  The peer discovery messages of \<^verbatim>\<open>crates/tactus-wire/src/discovery.rs\<close>: the peer-state payload,
  the 20-byte frame prefix, encoding and decoding of Alive, Response and ByeBye. The lemmas show
  the round trip, the size bound, that decoding reads what the header decoder reads, and that a
  payload may hold its entries in any order, repeated, between unknown ones.
\<close>

section \<open>Constants\<close>

definition DISC_MAGIC :: bytes where
  "DISC_MAGIC = ascii ''_asdp_v'' @ [1]"

definition DISC_MAX_MESSAGE_SIZE :: nat where
  "DISC_MAX_MESSAGE_SIZE = 512"

definition DISC_TTL_SECONDS :: u8 where
  "DISC_TTL_SECONDS = 5"

definition TYPE_ALIVE :: u8 where "TYPE_ALIVE = 1"
definition TYPE_RESPONSE :: u8 where "TYPE_RESPONSE = 2"
definition TYPE_BYEBYE :: u8 where "TYPE_BYEBYE = 3"

definition DK_TMLN :: u32 where "DK_TMLN = fourcc (ascii ''tmln'')"
definition DK_SESS :: u32 where "DK_SESS = fourcc (ascii ''sess'')"
definition DK_STST :: u32 where "DK_STST = fourcc (ascii ''stst'')"
definition DK_MEP4 :: u32 where "DK_MEP4 = fourcc (ascii ''mep4'')"
definition DK_MEP6 :: u32 where "DK_MEP6 = fourcc (ascii ''mep6'')"
definition DK_AEP4 :: u32 where "DK_AEP4 = fourcc (ascii ''aep4'')"
definition DK_AEP6 :: u32 where "DK_AEP6 = fourcc (ascii ''aep6'')"

lemmas disc_types = TYPE_ALIVE_def TYPE_RESPONSE_def TYPE_BYEBYE_def

lemma disc_keys:
  "DK_TMLN = 0x746D6C6E" "DK_SESS = 0x73657373" "DK_STST = 0x73747374" "DK_MEP4 = 0x6D657034"
  "DK_MEP6 = 0x6D657036" "DK_AEP4 = 0x61657034" "DK_AEP6 = 0x61657036"
  by code_simp+

lemma length_DISC_MAGIC [simp]: "length DISC_MAGIC = 8"
  by (simp add: DISC_MAGIC_def ascii_def)

section \<open>Peer state\<close>

record peer_state =
  ps_timeline :: "timeline option"
  ps_session :: "session_id option"
  ps_start_stop :: "start_stop_state option"
  ps_measurement_endpoint :: "socket_addr option"
  ps_audio_endpoint :: "socket_addr option"

definition default_peer_state :: peer_state where
  "default_peer_state = \<lparr>ps_timeline = None, ps_session = None, ps_start_stop = None,
     ps_measurement_endpoint = None, ps_audio_endpoint = None\<rparr>"

definition w_if_some :: "'a option \<Rightarrow> ('a \<Rightarrow> writer) \<Rightarrow> writer" where
  "w_if_some x f = (case x of None \<Rightarrow> (\<lambda>buf. buf) | Some y \<Rightarrow> f y)"

definition w_peer_state :: "peer_state \<Rightarrow> writer" where
  "w_peer_state s = (\<lambda>buf0.
     let buf1 = w_if_some (ps_timeline s) (\<lambda>t. w_entry DK_TMLN (w_timeline t)) buf0;
         buf2 = w_if_some (ps_session s) (\<lambda>i. w_entry DK_SESS (w_id i)) buf1;
         buf3 = w_if_some (ps_start_stop s) (\<lambda>x. w_entry DK_STST (w_start_stop x)) buf2;
         buf4 = w_endpoint_entry DK_MEP4 DK_MEP6 (ps_measurement_endpoint s) buf3
     in w_endpoint_entry DK_AEP4 DK_AEP6 (ps_audio_endpoint s) buf4)"

text \<open>The body of the decoding loop: one entry updates one field, an unknown key none.\<close>

definition peer_state_entry :: "peer_state \<Rightarrow> entry \<Rightarrow> error + peer_state" where
  "peer_state_entry s e = (let key = e_key e in
     if key = DK_TMLN then
       bind_res (entry_decode e r_timeline) (\<lambda>t. Inr (s\<lparr>ps_timeline := Some t\<rparr>))
     else if key = DK_SESS then
       bind_res (entry_decode e r_id) (\<lambda>i. Inr (s\<lparr>ps_session := Some i\<rparr>))
     else if key = DK_STST then
       bind_res (entry_decode e r_start_stop) (\<lambda>x. Inr (s\<lparr>ps_start_stop := Some x\<rparr>))
     else if key = DK_MEP4 \<or> key = DK_MEP6 then
       bind_res (decode_endpoint_value (e_value e)) (\<lambda>p. Inr (s\<lparr>ps_measurement_endpoint := Some p\<rparr>))
     else if key = DK_AEP4 \<or> key = DK_AEP6 then
       bind_res (decode_endpoint_value (e_value e)) (\<lambda>p. Inr (s\<lparr>ps_audio_endpoint := Some p\<rparr>))
     else Inr s)"

definition r_peer_state :: "bytes \<Rightarrow> error + peer_state" where
  "r_peer_state payload = for_entries peer_state_entry default_peer_state payload"

section \<open>Frames\<close>

datatype disc_message = Alive peer_state | Response peer_state | ByeBye

record disc_frame =
  df_ttl :: u8
  df_group_id :: u16
  df_node :: node_id
  df_message :: disc_message

definition disc_alive :: "node_id \<Rightarrow> peer_state \<Rightarrow> disc_frame" where
  "disc_alive node state = \<lparr>df_ttl = DISC_TTL_SECONDS, df_group_id = 0, df_node = node,
     df_message = Alive state\<rparr>"

definition disc_response :: "node_id \<Rightarrow> peer_state \<Rightarrow> disc_frame" where
  "disc_response node state = \<lparr>df_ttl = DISC_TTL_SECONDS, df_group_id = 0, df_node = node,
     df_message = Response state\<rparr>"

definition disc_bye_bye :: "node_id \<Rightarrow> disc_frame" where
  "disc_bye_bye node = \<lparr>df_ttl = 0, df_group_id = 0, df_node = node, df_message = ByeBye\<rparr>"

definition encode_disc :: "disc_frame \<Rightarrow> bytes" where
  "encode_disc frame =
     (let (msg_type, state) = (case df_message frame of
            Alive s \<Rightarrow> (TYPE_ALIVE, Some s)
          | Response s \<Rightarrow> (TYPE_RESPONSE, Some s)
          | ByeBye \<Rightarrow> (TYPE_BYEBYE, None));
          w = w_bytes DISC_MAGIC [];
          w = w_u8 msg_type w;
          w = w_u8 (df_ttl frame) w;
          w = w_u16 (df_group_id frame) w;
          w = w_id (df_node frame) w
      in w_if_some state w_peer_state w)"

record disc_header =
  h_msg_type :: u8
  h_ttl :: u8
  h_group_id :: u16
  h_node :: node_id

definition is_alive :: "disc_header \<Rightarrow> bool" where
  "is_alive h \<longleftrightarrow> h_msg_type h = TYPE_ALIVE"

definition decode_header :: "bytes \<Rightarrow> error + disc_header" where
  "decode_header datagram =
     (if length datagram < 20 then Inl Truncated else
      bind_res (r_take 8 datagram) (\<lambda>(magic, r).
      if magic \<noteq> DISC_MAGIC then Inl BadMagic else
      bind_res (r_u8 r) (\<lambda>(msg_type, r).
      bind_res (r_u8 r) (\<lambda>(ttl, r).
      bind_res (r_u16 r) (\<lambda>(group_id, r).
      bind_res (r_id r) (\<lambda>(node, r).
      Inr \<lparr>h_msg_type = msg_type, h_ttl = ttl, h_group_id = group_id, h_node = node\<rparr>))))))"

definition decode_disc :: "bytes \<Rightarrow> error + disc_frame" where
  "decode_disc datagram =
     (if length datagram < 20 then Inl Truncated else
      bind_res (r_take 8 datagram) (\<lambda>(magic, r).
      if magic \<noteq> DISC_MAGIC then Inl BadMagic else
      bind_res (r_u8 r) (\<lambda>(msg_type, r).
      bind_res (r_u8 r) (\<lambda>(ttl, r).
      bind_res (r_u16 r) (\<lambda>(group_id, r).
      bind_res (r_id r) (\<lambda>(node, r).
      bind_res
        (if msg_type = TYPE_ALIVE then bind_res (r_peer_state r) (\<lambda>s. Inr (Alive s))
         else if msg_type = TYPE_RESPONSE then bind_res (r_peer_state r) (\<lambda>s. Inr (Response s))
         else if msg_type = TYPE_BYEBYE then Inr ByeBye
         else Inl (UnknownMessageType msg_type))
        (\<lambda>message. Inr \<lparr>df_ttl = ttl, df_group_id = group_id, df_node = node,
           df_message = message\<rparr>)))))))"

section \<open>The payload as a list of entries\<close>

definition endpoint_key :: "u32 \<Rightarrow> u32 \<Rightarrow> socket_addr \<Rightarrow> u32" where
  "endpoint_key key_v4 key_v6 ep = (case ep of V4 _ _ \<Rightarrow> key_v4 | V6 _ _ _ _ \<Rightarrow> key_v6)"

definition opt_entry :: "'a option \<Rightarrow> ('a \<Rightarrow> u32) \<Rightarrow> ('a \<Rightarrow> writer) \<Rightarrow> entry list" where
  "opt_entry x k f = (case x of None \<Rightarrow> [] | Some y \<Rightarrow> [\<lparr>e_key = k y, e_value = f y []\<rparr>])"

definition peer_state_entries :: "peer_state \<Rightarrow> entry list" where
  "peer_state_entries s =
     opt_entry (ps_timeline s) (\<lambda>_. DK_TMLN) w_timeline @
     opt_entry (ps_session s) (\<lambda>_. DK_SESS) w_id @
     opt_entry (ps_start_stop s) (\<lambda>_. DK_STST) w_start_stop @
     opt_entry (ps_measurement_endpoint s) (endpoint_key DK_MEP4 DK_MEP6) w_endpoint @
     opt_entry (ps_audio_endpoint s) (endpoint_key DK_AEP4 DK_AEP6) w_endpoint"

definition wire_peer_state :: "peer_state \<Rightarrow> bool" where
  "wire_peer_state s \<longleftrightarrow> pred_option wire_endpoint (ps_measurement_endpoint s)
     \<and> pred_option wire_endpoint (ps_audio_endpoint s)"

definition known_key :: "u32 \<Rightarrow> bool" where
  "known_key k \<longleftrightarrow> k \<in> {DK_TMLN, DK_SESS, DK_STST, DK_MEP4, DK_MEP6, DK_AEP4, DK_AEP6}"

lemma endpoint_entry_bytes:
  "w_endpoint_entry k4 k6 ep buf = buf @ concat (map entry_bytes (opt_entry ep (endpoint_key k4 k6) w_endpoint))"
  by (cases ep) (simp_all add: w_endpoint_entry_def opt_entry_def endpoint_key_def
      w_entry_patches [OF appends_w_endpoint])

lemma w_peer_state_bytes:
  "w_peer_state s buf = buf @ concat (map entry_bytes (peer_state_entries s))"
  by (simp add: w_peer_state_def peer_state_entries_def endpoint_entry_bytes)
    (simp add: w_if_some_def opt_entry_def timeline.entry_written id.entry_written
      start_stop.entry_written split: option.split)

lemma endpoint_size_le [simp]: "18 \<le> n \<Longrightarrow> endpoint_size ep \<le> n"
  by (cases ep) auto

lemma endpoint_key_cases: "endpoint_key k4 k6 ep = k4 \<or> endpoint_key k4 k6 ep = k6"
  by (cases ep) (simp_all add: endpoint_key_def)

lemma opt_entry_size:
  assumes "\<And>y. length (f y []) \<le> m"
  shows "length (concat (map entry_bytes (opt_entry x k f))) \<le> 8 + m"
  using assms by (simp add: opt_entry_def split: option.split)

lemma mem_opt_entry:
  "e \<in> set (opt_entry x k f) \<longleftrightarrow> (\<exists>y. x = Some y \<and> e = \<lparr>e_key = k y, e_value = f y []\<rparr>)"
  by (auto simp: opt_entry_def split: option.split)

lemma peer_state_entries_fit:
  assumes "e \<in> set (peer_state_entries s)"
  shows "entry_fits e"
proof -
  have "length (e_value e) \<le> 24"
    using assms
    by (auto simp: peer_state_entries_def mem_opt_entry)
  then show ?thesis by (simp add: entry_fits_def)
qed

text \<open>Each entry written for a state sets its field to the state's own value.\<close>

lemma peer_state_entry_written:
  assumes "wire_peer_state s" and "e \<in> set (peer_state_entries s)"
  shows "peer_state_entry t e = Inr \<lparr>
    ps_timeline = (if e_key e = DK_TMLN then ps_timeline s else ps_timeline t),
    ps_session = (if e_key e = DK_SESS then ps_session s else ps_session t),
    ps_start_stop = (if e_key e = DK_STST then ps_start_stop s else ps_start_stop t),
    ps_measurement_endpoint = (if e_key e \<in> {DK_MEP4, DK_MEP6} then ps_measurement_endpoint s
      else ps_measurement_endpoint t),
    ps_audio_endpoint = (if e_key e \<in> {DK_AEP4, DK_AEP6} then ps_audio_endpoint s
      else ps_audio_endpoint t)\<rparr>"
proof -
  note simps = peer_state_entry_def disc_keys wire_peer_state_def
  consider x where "ps_timeline s = Some x" "e = \<lparr>e_key = DK_TMLN, e_value = w_timeline x []\<rparr>"
    | x where "ps_session s = Some x" "e = \<lparr>e_key = DK_SESS, e_value = w_id x []\<rparr>"
    | x where "ps_start_stop s = Some x" "e = \<lparr>e_key = DK_STST, e_value = w_start_stop x []\<rparr>"
    | x where "ps_measurement_endpoint s = Some x"
        "e = \<lparr>e_key = endpoint_key DK_MEP4 DK_MEP6 x, e_value = w_endpoint x []\<rparr>"
    | x where "ps_audio_endpoint s = Some x"
        "e = \<lparr>e_key = endpoint_key DK_AEP4 DK_AEP6 x, e_value = w_endpoint x []\<rparr>"
    using assms(2) by (auto simp: peer_state_entries_def mem_opt_entry)
  then show ?thesis
  proof cases
    case 1
    then show ?thesis by (simp add: simps timeline.decode_written)
  next
    case 2
    then show ?thesis by (simp add: simps id.decode_written)
  next
    case 3
    then show ?thesis by (simp add: simps start_stop.decode_written)
  next
    case (4 x)
    then show ?thesis using assms(1) endpoint_key_cases [of DK_MEP4 DK_MEP6 x]
      by (auto simp: simps decode_endpoint_written)
  next
    case (5 x)
    then show ?thesis using assms(1) endpoint_key_cases [of DK_AEP4 DK_AEP6 x]
      by (auto simp: simps decode_endpoint_written)
  qed
qed

text \<open>A list of entries that holds some of a state's entries, and any unknown ones, sets exactly
  the fields whose entries it holds.\<close>

lemma peer_state_entry_unknown: "\<not> known_key (e_key e) \<Longrightarrow> peer_state_entry t e = Inr t"
  by (simp add: peer_state_entry_def known_key_def)

lemma fold_peer_state_entries:
  assumes "wire_peer_state s"
    and "\<forall>e\<in>set es. known_key (e_key e) \<longrightarrow> e \<in> set (peer_state_entries s)"
  shows "fold_res peer_state_entry t es = Inr \<lparr>
    ps_timeline = (if DK_TMLN \<in> e_key ` set es then ps_timeline s else ps_timeline t),
    ps_session = (if DK_SESS \<in> e_key ` set es then ps_session s else ps_session t),
    ps_start_stop = (if DK_STST \<in> e_key ` set es then ps_start_stop s else ps_start_stop t),
    ps_measurement_endpoint = (if {DK_MEP4, DK_MEP6} \<inter> e_key ` set es \<noteq> {}
      then ps_measurement_endpoint s else ps_measurement_endpoint t),
    ps_audio_endpoint = (if {DK_AEP4, DK_AEP6} \<inter> e_key ` set es \<noteq> {}
      then ps_audio_endpoint s else ps_audio_endpoint t)\<rparr>"
  using assms(2)
proof (induction es arbitrary: t)
  case Nil
  then show ?case by simp
next
  case (Cons e es)
  show ?case
  proof (cases "known_key (e_key e)")
    case True
    with Cons.prems have "e \<in> set (peer_state_entries s)" by simp
    from peer_state_entry_written [OF assms(1) this] Cons show ?thesis
      by (simp add: disc_keys)
  next
    case False
    then have "e_key e \<notin> {DK_TMLN, DK_SESS, DK_STST, DK_MEP4, DK_MEP6, DK_AEP4, DK_AEP6}"
      by (simp add: known_key_def)
    with False Cons show ?thesis by (auto simp: peer_state_entry_unknown)
  qed
qed

lemma opt_entry_keys: "e_key ` set (opt_entry x k f) = k ` set_option x"
  by (cases x) (simp_all add: opt_entry_def)

lemma keys_of_entries:
  "e_key ` set (peer_state_entries s) =
     (\<lambda>_. DK_TMLN) ` set_option (ps_timeline s) \<union> (\<lambda>_. DK_SESS) ` set_option (ps_session s)
     \<union> (\<lambda>_. DK_STST) ` set_option (ps_start_stop s)
     \<union> endpoint_key DK_MEP4 DK_MEP6 ` set_option (ps_measurement_endpoint s)
     \<union> endpoint_key DK_AEP4 DK_AEP6 ` set_option (ps_audio_endpoint s)"
  by (simp add: peer_state_entries_def image_Un opt_entry_keys Un_assoc)

lemma endpoint_keyD: "endpoint_key k4 k6 ep = k \<Longrightarrow> k = k4 \<or> k = k6"
  using endpoint_key_cases by metis

lemma endpoint_key_some: "{k4, k6} \<inter> endpoint_key k4 k6 ` A = {} \<longleftrightarrow> A = {}"
proof (cases "A = {}")
  case False
  then obtain ep where "ep \<in> A" by blast
  with endpoint_key_cases [of k4 k6 ep] have "{k4, k6} \<inter> endpoint_key k4 k6 ` A \<noteq> {}" by force
  with False show ?thesis by simp
qed simp

lemma key_present:
  "DK_TMLN \<in> e_key ` set (peer_state_entries s) \<longleftrightarrow> ps_timeline s \<noteq> None"
  "DK_SESS \<in> e_key ` set (peer_state_entries s) \<longleftrightarrow> ps_session s \<noteq> None"
  "DK_STST \<in> e_key ` set (peer_state_entries s) \<longleftrightarrow> ps_start_stop s \<noteq> None"
  "{DK_MEP4, DK_MEP6} \<inter> e_key ` set (peer_state_entries s) \<noteq> {} \<longleftrightarrow> ps_measurement_endpoint s \<noteq> None"
  "{DK_AEP4, DK_AEP6} \<inter> e_key ` set (peer_state_entries s) \<noteq> {} \<longleftrightarrow> ps_audio_endpoint s \<noteq> None"
  unfolding keys_of_entries Int_Un_distrib Un_empty endpoint_key_some
  by (auto simp: disc_keys image_iff dest!: endpoint_keyD [OF sym] endpoint_keyD)

lemma known_keys_of_entries: "e \<in> set (peer_state_entries s) \<Longrightarrow> known_key (e_key e)"
  by (auto simp: peer_state_entries_def mem_opt_entry known_key_def) (metis endpoint_key_cases)+

lemma fold_complete_entries:
  assumes "wire_peer_state s"
    and "set (filter (\<lambda>e. known_key (e_key e)) es) = set (peer_state_entries s)"
  shows "fold_res peer_state_entry default_peer_state es = Inr s"
proof -
  have iff: "k \<in> e_key ` set es \<longleftrightarrow> k \<in> e_key ` set (peer_state_entries s)" if "known_key k" for k
    using that by (auto simp flip: assms(2))
  have mem: "\<forall>e\<in>set es. known_key (e_key e) \<longrightarrow> e \<in> set (peer_state_entries s)"
    by (auto simp flip: assms(2))
  have pairs: "{a, b} \<inter> e_key ` set es \<noteq> {} \<longleftrightarrow> {a, b} \<inter> e_key ` set (peer_state_entries s) \<noteq> {}"
    if "known_key a" "known_key b" for a b
    using iff [OF that(1)] iff [OF that(2)] by blast
  have kn: "known_key DK_TMLN" "known_key DK_SESS" "known_key DK_STST" "known_key DK_MEP4"
    "known_key DK_MEP6" "known_key DK_AEP4" "known_key DK_AEP6"
    by (simp_all add: known_key_def)
  show ?thesis
    unfolding fold_peer_state_entries [OF assms(1) mem] iff [OF kn(1)] iff [OF kn(2)]
      iff [OF kn(3)] pairs [OF kn(4,5)] pairs [OF kn(6,7)] key_present
    by (auto simp: default_peer_state_def)
qed

lemma r_peer_state_written:
  "wire_peer_state s \<Longrightarrow> r_peer_state (concat (map entry_bytes (peer_state_entries s))) = Inr s"
  unfolding r_peer_state_def
  by (simp add: for_entries_concat peer_state_entries_fit fold_complete_entries
      known_keys_of_entries flip: filter_id_conv)

section \<open>Frames on the wire\<close>

fun message_type :: "disc_message \<Rightarrow> u8" where
  "message_type (Alive _) = TYPE_ALIVE"
| "message_type (Response _) = TYPE_RESPONSE"
| "message_type ByeBye = TYPE_BYEBYE"

fun message_entries :: "disc_message \<Rightarrow> entry list" where
  "message_entries (Alive s) = peer_state_entries s"
| "message_entries (Response s) = peer_state_entries s"
| "message_entries ByeBye = []"

fun wire_message :: "disc_message \<Rightarrow> bool" where
  "wire_message (Alive s) \<longleftrightarrow> wire_peer_state s"
| "wire_message (Response s) \<longleftrightarrow> wire_peer_state s"
| "wire_message ByeBye \<longleftrightarrow> True"

lemma encode_disc_bytes:
  "encode_disc f = DISC_MAGIC @ [message_type (df_message f), df_ttl f] @ to_be 2 (df_group_id f)
     @ id_bytes (df_node f) @ concat (map entry_bytes (message_entries (df_message f)))"
  by (cases "df_message f")
    (simp_all add: encode_disc_def Let_def w_if_some_def w_peer_state_bytes w_id_def w_bytes_def
      w_u8_def w_u16_def)

lemma decode_disc_prefix:
  "decode_disc (DISC_MAGIC @ [t, ttl] @ to_be 2 g @ id_bytes n @ payload) = bind_res
     (if t = TYPE_ALIVE then bind_res (r_peer_state payload) (\<lambda>s. Inr (Alive s))
      else if t = TYPE_RESPONSE then bind_res (r_peer_state payload) (\<lambda>s. Inr (Response s))
      else if t = TYPE_BYEBYE then Inr ByeBye
      else Inl (UnknownMessageType t))
     (\<lambda>m. Inr \<lparr>df_ttl = ttl, df_group_id = g, df_node = n, df_message = m\<rparr>)"
  by (simp add: decode_disc_def wire_simps)

lemma decode_header_prefix:
  "decode_header (DISC_MAGIC @ [t, ttl] @ to_be 2 g @ id_bytes n @ payload) =
     Inr \<lparr>h_msg_type = t, h_ttl = ttl, h_group_id = g, h_node = n\<rparr>"
  by (simp add: decode_header_def wire_simps)

text \<open>What the header decoder accepts is a datagram that starts with those 20 bytes.\<close>

lemma decode_header_sound:
  assumes "decode_header d = Inr h"
  shows "\<exists>payload. d = DISC_MAGIC @ [h_msg_type h, h_ttl h] @ to_be 2 (h_group_id h)
    @ id_bytes (h_node h) @ payload"
proof -
  obtain r1 t r2 ttl r3 g r4 n r5 where *: "d = DISC_MAGIC @ r1" "r_u8 r1 = Inr (t, r2)"
    "r_u8 r2 = Inr (ttl, r3)" "r_u16 r3 = Inr (g, r4)" "r_id r4 = Inr (n, r5)"
    "h = \<lparr>h_msg_type = t, h_ttl = ttl, h_group_id = g, h_node = n\<rparr>"
    using assms by (auto simp: decode_header_def bind_res_Inr r_take_Inr split: if_splits)
  then show ?thesis
    using u8.read_sound [OF *(2)] u8.read_sound [OF *(3)] u16.read_sound [OF *(4)]
      id.read_sound [OF *(5)]
    by (simp add: writer_defs w_id_def)
qed

lemma decode_disc_header:
  "decode_disc d = Inr f \<Longrightarrow> \<exists>h. decode_header d = Inr h"
  by (auto simp: decode_disc_def decode_header_def bind_res_Inr split: if_splits)

section \<open>Properties\<close>

fun header_of :: "disc_frame \<Rightarrow> disc_header" where
  "header_of f = \<lparr>h_msg_type = message_type (df_message f), h_ttl = df_ttl f,
     h_group_id = df_group_id f, h_node = df_node f\<rparr>"

lemma decode_encode_disc:
  assumes "wire_message (df_message f)"
  shows "decode_disc (encode_disc f) = Inr f"
  using assms
  by (cases "df_message f")
    (simp_all add: encode_disc_bytes decode_disc_prefix
      decode_disc_prefix [of _ _ _ _ "[]", unfolded append_Nil2] r_peer_state_written disc_types
      del: append.simps)

lemma decode_header_encode: "decode_header (encode_disc f) = Inr (header_of f)"
  by (simp add: encode_disc_bytes decode_header_prefix del: append.simps)

text \<open>C29: Every discovery frame whose IPv6 endpoints carry no flow info or scope (which the wire
  does not transmit) decodes from its encoding to itself.\<close>

theorem disc_roundtrip:
  assumes "wire_message (df_message f)"
  shows "decode_disc (encode_disc f) = Inr f"
  using assms by (rule decode_encode_disc)

definition example_state :: peer_state where
  "example_state = \<lparr>
     ps_timeline = Some \<lparr>tempo = 500000, beat_origin = 1000000, time_origin = 2500000\<rparr>,
     ps_session = Some (Id 0x53455353494F4E58),
     ps_start_stop = Some \<lparr>is_playing = True, ss_beats = 4000000, timestamp = 3000000\<rparr>,
     ps_measurement_endpoint = Some (V4 0x7F000001 42802),
     ps_audio_endpoint = Some (V6 0xFE80000000000000000000000001234 9000 0 0)\<rparr>"

theorem disc_roundtrip_witness:
  "decode_disc (encode_disc (disc_alive (Id 7) example_state)) = Inr (disc_alive (Id 7) example_state)"
  by (rule disc_roundtrip) (simp add: disc_alive_def example_state_def wire_peer_state_def)

text \<open>No frame encodes to more than 145 bytes, so the encoder's debug assertion (less than
  512) never fires.\<close>

theorem disc_size_bound:
  "length (encode_disc f) \<le> 145 \<and> length (encode_disc f) < DISC_MAX_MESSAGE_SIZE"
proof -
  have "length (concat (map entry_bytes (peer_state_entries s))) \<le> 125" for s
    using opt_entry_size [of w_timeline 24 "ps_timeline s" "\<lambda>_. DK_TMLN"]
      opt_entry_size [of w_id 8 "ps_session s" "\<lambda>_. DK_SESS"]
      opt_entry_size [of w_start_stop 17 "ps_start_stop s" "\<lambda>_. DK_STST"]
      opt_entry_size [of w_endpoint 18 "ps_measurement_endpoint s" "endpoint_key DK_MEP4 DK_MEP6"]
      opt_entry_size [of w_endpoint 18 "ps_audio_endpoint s" "endpoint_key DK_AEP4 DK_AEP6"]
    by (simp add: peer_state_entries_def)
  then have "length (encode_disc f) \<le> 145"
    by (cases "df_message f") (simp_all add: encode_disc_bytes)
  then show ?thesis by (simp add: DISC_MAX_MESSAGE_SIZE_def)
qed

text \<open>C30: A receiver does not rely on the entry order: a payload that holds the entries of a state in
  any order, any of them repeated, with any entries of unknown keys between them, decodes to that
  state.\<close>

theorem disc_payload_any_order:
  assumes "wire_peer_state s" and "\<forall>e\<in>set es. entry_fits e"
    and "set (filter (\<lambda>e. known_key (e_key e)) es) = set (peer_state_entries s)"
  shows "r_peer_state (concat (map entry_bytes es)) = Inr s"
  using assms by (simp add: r_peer_state_def for_entries_concat fold_complete_entries)

theorem disc_payload_any_order_witness:
  "r_peer_state (concat (map entry_bytes
     (\<lparr>e_key = 0x7A7A7A7A, e_value = [1, 2, 3]\<rparr> # rev (peer_state_entries example_state)))) = Inr example_state"
proof (rule disc_payload_any_order)
  show "set (filter (\<lambda>e. known_key (e_key e))
      (\<lparr>e_key = 0x7A7A7A7A, e_value = [1, 2, 3]\<rparr> # rev (peer_state_entries example_state)))
    = set (peer_state_entries example_state)"
    using known_keys_of_entries [of _ example_state] by (auto simp: known_key_def disc_keys)
qed (auto simp: example_state_def wire_peer_state_def entry_fits_def
    dest: peer_state_entries_fit [unfolded entry_fits_def])

text \<open>The frame decoder and the header decoder agree on every datagram: a header error is the
  frame's error, a decoded frame has that header, and a frame is rejected after its header only for
  an unknown message type or for the error of its payload.\<close>

theorem disc_header_agrees:
  "case decode_header d of
     Inl err \<Rightarrow> decode_disc d = Inl err
   | Inr h \<Rightarrow> (case decode_disc d of
       Inr f \<Rightarrow> header_of f = h
     | Inl err \<Rightarrow>
         if h_msg_type h \<in> {TYPE_ALIVE, TYPE_RESPONSE} then r_peer_state (drop 20 d) = Inl err
         else h_msg_type h \<noteq> TYPE_BYEBYE \<and> err = UnknownMessageType (h_msg_type h))"
proof (cases "decode_header d")
  case (Inl err)
  then show ?thesis
    by (auto simp: decode_header_def decode_disc_def bind_res_def split: if_splits sum.splits prod.splits)
next
  case (Inr h)
  then obtain payload where d: "d = DISC_MAGIC @ [h_msg_type h, h_ttl h] @ to_be 2 (h_group_id h)
      @ id_bytes (h_node h) @ payload"
    using decode_header_sound by blast
  have pay: "drop 20 d = payload" by (simp add: d)
  show ?thesis
    unfolding Inr sum.case pay unfolding d decode_disc_prefix
    by (cases "r_peer_state payload") (auto simp: disc_types)
qed

end
