(* ===== verification/Sync.thy ===== *)
theory Sync
  imports Wire_Types
begin

text \<open>
  The clock-measurement ping and pong of \<^verbatim>\<open>crates/tactus-wire/src/sync.rs\<close>. A pong is the
  responder's two entries followed by the ping's payload, byte for byte; the initiator parses that
  echo to recover what it sent. The lemmas show the round trips, what a decoded pong looks like on
  the wire, and one whole measurement exchange.
\<close>

section \<open>Constants\<close>

definition SYNC_MAGIC :: bytes where
  "SYNC_MAGIC = ascii ''_link_v'' @ [1]"

definition MAX_PING_PAYLOAD :: nat where "MAX_PING_PAYLOAD = 32"
definition SAMPLES_REQUIRED :: nat where "SAMPLES_REQUIRED = 100"
definition TYPE_PING :: u8 where "TYPE_PING = 1"
definition TYPE_PONG :: u8 where "TYPE_PONG = 2"

definition SK_HT :: u32 where "SK_HT = fourcc (ascii ''__ht'')"
definition SK_GT :: u32 where "SK_GT = fourcc (ascii ''__gt'')"
definition SK_PGT :: u32 where "SK_PGT = fourcc (ascii ''_pgt'')"
definition SK_SESS :: u32 where "SK_SESS = fourcc (ascii ''sess'')"

lemmas sync_types = TYPE_PING_def TYPE_PONG_def

lemma sync_keys:
  "SK_HT = 0x5F5F6874" "SK_GT = 0x5F5F6774" "SK_PGT = 0x5F706774" "SK_SESS = 0x73657373"
  by code_simp+

lemma length_SYNC_MAGIC [simp]: "length SYNC_MAGIC = 8"
  by (simp add: SYNC_MAGIC_def ascii_def)

section \<open>Messages\<close>

record ping =
  ping_host_time :: "i64 option"
  ping_prev_ghost_time :: "i64 option"
  ping_payload :: bytes

record pong =
  pong_session :: session_id
  pong_ghost_time :: i64
  pong_echo :: bytes

datatype sync_message = Ping ping | Pong pong

definition encode_ping :: "i64 \<Rightarrow> i64 option \<Rightarrow> bytes" where
  "encode_ping host_time prev_ghost_time =
     (let w = w_bytes SYNC_MAGIC [];
          w = w_u8 TYPE_PING w;
          w = w_entry SK_HT (w_i64 host_time) w
      in case prev_ghost_time of None \<Rightarrow> w | Some pgt \<Rightarrow> w_entry SK_PGT (w_i64 pgt) w)"

definition encode_pong :: "session_id \<Rightarrow> i64 \<Rightarrow> bytes \<Rightarrow> bytes" where
  "encode_pong session ghost_time echo =
     (let w = w_bytes SYNC_MAGIC [];
          w = w_u8 TYPE_PONG w;
          w = w_entry SK_SESS (w_id session) w;
          w = w_entry SK_GT (w_i64 ghost_time) w
      in w_bytes echo w)"

text \<open>The loop body shared by the ping decoder and by \<open>parse_echo\<close>.\<close>

definition ht_pgt_entry :: "i64 option \<times> i64 option \<Rightarrow> entry \<Rightarrow> error + i64 option \<times> i64 option" where
  "ht_pgt_entry s e =
     (if e_key e = SK_HT then bind_res (entry_decode e r_i64) (\<lambda>v. Inr (Some v, snd s))
      else if e_key e = SK_PGT then bind_res (entry_decode e r_i64) (\<lambda>v. Inr (fst s, Some v))
      else Inr s)"

definition parse_echo :: "bytes \<Rightarrow> error + i64 option \<times> i64 option" where
  "parse_echo echo = for_entries ht_pgt_entry (None, None) echo"

text \<open>The loop over the leading pair of a pong: \<open>n\<close> turns are left, \<open>echo\<close> is what the loop has
  kept as the rest. Running out of entries leaves the loop.\<close>

fun pong_head :: "nat \<Rightarrow> session_id option \<Rightarrow> i64 option \<Rightarrow> bytes \<Rightarrow> bytes
    \<Rightarrow> error + session_id option \<times> i64 option \<times> bytes" where
  "pong_head 0 session ghost_time echo entries = Inr (session, ghost_time, echo)"
| "pong_head (Suc n) session ghost_time echo entries = (case next_entry entries of
     None \<Rightarrow> Inr (session, ghost_time, entries)
   | Some (Inl err) \<Rightarrow> Inl err
   | Some (Inr (e, rest)) \<Rightarrow>
       if e_key e = SK_SESS then
         bind_res (entry_decode e r_id) (\<lambda>v. pong_head n (Some v) ghost_time rest rest)
       else if e_key e = SK_GT then
         bind_res (entry_decode e r_i64) (\<lambda>v. pong_head n session (Some v) rest rest)
       else Inl (Malformed ''unexpected leading pong entry''))"

definition decode_sync :: "bytes \<Rightarrow> error + sync_message" where
  "decode_sync datagram =
     (if length datagram < 9 then Inl Truncated else
      bind_res (r_take 8 datagram) (\<lambda>(magic, r).
      if magic \<noteq> SYNC_MAGIC then Inl BadMagic else
      bind_res (r_u8 r) (\<lambda>(msg_type, payload).
      if msg_type = TYPE_PING then
        bind_res (for_entries ht_pgt_entry (None, None) payload) (\<lambda>(host_time, prev_ghost_time).
        Inr (Ping \<lparr>ping_host_time = host_time, ping_prev_ghost_time = prev_ghost_time,
          ping_payload = payload\<rparr>))
      else if msg_type = TYPE_PONG then
        bind_res (pong_head 2 None None [] payload) (\<lambda>(session, ghost_time, echo).
        case (session, ghost_time) of
          (Some session, Some ghost_time) \<Rightarrow>
            Inr (Pong \<lparr>pong_session = session, pong_ghost_time = ghost_time, pong_echo = echo\<rparr>)
        | _ \<Rightarrow> Inl (Malformed ''pong missing sess/__gt''))
      else Inl (UnknownMessageType msg_type))))"

section \<open>Bytes of the messages\<close>

definition ping_entries :: "i64 \<Rightarrow> i64 option \<Rightarrow> entry list" where
  "ping_entries host_time prev_ghost_time = i64_entry SK_HT host_time #
     (case prev_ghost_time of None \<Rightarrow> [] | Some pgt \<Rightarrow> [i64_entry SK_PGT pgt])"

lemma encode_ping_bytes:
  "encode_ping h p = SYNC_MAGIC @ [TYPE_PING] @ concat (map entry_bytes (ping_entries h p))"
  by (simp add: encode_ping_def ping_entries_def i64.entry_written w_bytes_def w_u8_def i64_entry_def
      split: option.split)

lemma encode_pong_bytes:
  "encode_pong s g echo = SYNC_MAGIC @ [TYPE_PONG] @ entry_bytes (id_entry SK_SESS s)
     @ entry_bytes (i64_entry SK_GT g) @ echo"
  by (simp add: encode_pong_def i64.entry_written id.entry_written w_bytes_def w_u8_def
      i64_entry_def id_entry_def)

lemma fold_ping_entries:
  "for_entries ht_pgt_entry (None, None) (concat (map entry_bytes (ping_entries h p))) = Inr (Some h, p)"
  by (subst for_entries_concat)
    (auto simp: ping_entries_def ht_pgt_entry_def sync_keys split: option.splits)

lemma decode_sync_prefix:
  "decode_sync (SYNC_MAGIC @ [TYPE_PING] @ payload) =
     bind_res (for_entries ht_pgt_entry (None, None) payload) (\<lambda>(host_time, prev_ghost_time).
       Inr (Ping \<lparr>ping_host_time = host_time, ping_prev_ghost_time = prev_ghost_time,
         ping_payload = payload\<rparr>))"
  "decode_sync (SYNC_MAGIC @ [TYPE_PONG] @ payload) =
     bind_res (pong_head 2 None None [] payload) (\<lambda>(session, ghost_time, echo).
        case (session, ghost_time) of
          (Some session, Some ghost_time) \<Rightarrow>
            Inr (Pong \<lparr>pong_session = session, pong_ghost_time = ghost_time, pong_echo = echo\<rparr>)
        | _ \<Rightarrow> Inl (Malformed ''pong missing sess/__gt''))"
  by (simp_all add: decode_sync_def wire_simps sync_types)

lemma pong_head_2: "pong_head 2 = pong_head (Suc (Suc 0))"
  by (simp add: numeral_2_eq_2)

lemma both_some:
  "(case x of None \<Rightarrow> Inl e | Some a \<Rightarrow> (case y of None \<Rightarrow> Inl e | Some b \<Rightarrow> Inr (f a b))) = Inr z
     \<longleftrightarrow> (\<exists>a b. x = Some a \<and> y = Some b \<and> z = f a b)"
  by (auto split: option.splits)

lemma pong_head_pair:
  "pong_head 2 None None [] (entry_bytes (id_entry SK_SESS s) @ entry_bytes (i64_entry SK_GT g) @ echo)
     = Inr (Some s, Some g, echo)"
  "pong_head 2 None None [] (entry_bytes (i64_entry SK_GT g) @ entry_bytes (id_entry SK_SESS s) @ echo)
     = Inr (Some s, Some g, echo)"
  unfolding pong_head_2 by (simp_all add: wire_simps sync_keys)

lemma decode_pong_bytes:
  "decode_sync (encode_pong s g echo) =
     Inr (Pong \<lparr>pong_session = s, pong_ghost_time = g, pong_echo = echo\<rparr>)"
  unfolding encode_pong_bytes decode_sync_prefix by (simp add: pong_head_pair)

lemma decode_ping_bytes:
  "decode_sync (encode_ping h p) = Inr (Ping \<lparr>ping_host_time = Some h, ping_prev_ghost_time = p,
     ping_payload = concat (map entry_bytes (ping_entries h p))\<rparr>)"
  unfolding encode_ping_bytes decode_sync_prefix by (simp add: fold_ping_entries)

lemma pong_head_step:
  assumes "pong_head (Suc n) s g echo b = Inr r"
  shows "r = (s, g, b)
    \<or> (\<exists>v rest. b = entry_bytes (id_entry SK_SESS v) @ rest \<and> pong_head n (Some v) g rest rest = Inr r)
    \<or> (\<exists>v rest. b = entry_bytes (i64_entry SK_GT v) @ rest \<and> pong_head n s (Some v) rest rest = Inr r)"
proof (cases "next_entry b")
  case None
  with assms show ?thesis by simp
next
  case (Some x)
  with assms obtain e rest where x: "next_entry b = Some (Inr (e, rest))"
    by (cases x) auto
  have b: "b = entry_bytes e @ rest"
    using next_entry_sound [OF x] by simp
  consider v where "e_key e = SK_SESS" "entry_decode e r_id = Inr v"
      "pong_head n (Some v) g rest rest = Inr r"
    | v where "e_key e = SK_GT" "entry_decode e r_i64 = Inr v"
      "pong_head n s (Some v) rest rest = Inr r"
    using assms by (auto simp: x bind_res_Inr split: if_splits)
  then show ?thesis
  proof cases
    case 1
    then show ?thesis using small_entries_sound(2) [of e] b by metis
  next
    case 2
    then show ?thesis using small_entries_sound(1) [of e] b by metis
  qed
qed

section \<open>Properties\<close>

text \<open>One measurement exchange: the ping an initiator sends has a payload the responder accepts
  (at most 32 bytes), the pong that echoes it decodes to the responder's session and ghost time, and
  parsing the echo gives back the initiator's host time and previous ghost time.\<close>

theorem sync_exchange:
  "\<exists>payload.
     decode_sync (encode_ping h p) = Inr (Ping \<lparr>ping_host_time = Some h, ping_prev_ghost_time = p,
       ping_payload = payload\<rparr>)
     \<and> length payload \<le> MAX_PING_PAYLOAD
     \<and> decode_sync (encode_pong s g payload) =
         Inr (Pong \<lparr>pong_session = s, pong_ghost_time = g, pong_echo = payload\<rparr>)
     \<and> parse_echo payload = Inr (Some h, p)"
proof (intro exI conjI)
  show "length (concat (map entry_bytes (ping_entries h p))) \<le> MAX_PING_PAYLOAD"
    by (simp add: ping_entries_def MAX_PING_PAYLOAD_def split: option.split)
qed (simp_all add: decode_ping_bytes decode_pong_bytes parse_echo_def fold_ping_entries)

text \<open>A datagram that decodes to a pong is the frame prefix, the \<open>sess\<close> and \<open>__gt\<close> entries in one of
  the two orders, and the echo verbatim; and every such datagram decodes to that pong, whatever bytes
  the echo holds.\<close>

theorem sync_pong_shape:
  "decode_sync d = Inr (Pong p) \<longleftrightarrow>
     (let sess = entry_bytes (id_entry SK_SESS (pong_session p));
          gt = entry_bytes (i64_entry SK_GT (pong_ghost_time p))
      in d = SYNC_MAGIC @ [TYPE_PONG] @ sess @ gt @ pong_echo p
       \<or> d = SYNC_MAGIC @ [TYPE_PONG] @ gt @ sess @ pong_echo p)"
  (is "?lhs \<longleftrightarrow> ?rhs")
proof
  assume ?lhs
  then obtain payload where d: "d = SYNC_MAGIC @ [TYPE_PONG] @ payload"
    and head: "pong_head 2 None None [] payload
      = Inr (Some (pong_session p), Some (pong_ghost_time p), pong_echo p)"
    by (auto simp: decode_sync_def bind_res_Inr r_take_Inr both_some writer_defs
        dest!: u8.read_sound split: if_splits prod.splits)
  from head show ?rhs
    unfolding pong_head_2 d by (auto simp: Let_def simp del: pong_head.simps(2) dest!: pong_head_step)
next
  assume ?rhs
  then show ?lhs
    by (auto simp: Let_def decode_sync_prefix pong_head_pair simp del: append.simps)
qed

end
