(* ===== verification/Wire_Audio.thy ===== *)
theory Wire_Audio
  imports Wire_Types
begin

text \<open>
  The LinkAudio messages of \<^verbatim>\<open>crates/tactus-wire/src/audio.rs\<close>: announcements, byes, keepalive
  pongs, channel requests and the bare audio buffer. The lemmas show the round trip of every frame
  that fits a datagram, that an accepted audio buffer is internally consistent and has one encoding
  only, and that sample bytes and samples correspond.
\<close>

section \<open>Constants\<close>

definition AUDIO_MAGIC :: bytes where
  "AUDIO_MAGIC = ascii ''chnnlsv'' @ [1]"

definition AUDIO_MAX_MESSAGE_SIZE :: nat where "AUDIO_MAX_MESSAGE_SIZE = 1200"
definition MAX_PAYLOAD :: nat where "MAX_PAYLOAD = 1176"
definition SAMPLE_BYTE_CAP :: nat where "SAMPLE_BYTE_CAP = 502"
definition MAX_NAME :: nat where "MAX_NAME = 256"
definition AUDIO_TTL_SECONDS :: u8 where "AUDIO_TTL_SECONDS = 5"
definition CODEC_PCM_I16 :: u8 where "CODEC_PCM_I16 = 1"
definition CHUNK_RECORD_SIZE :: nat where "CHUNK_RECORD_SIZE = 26"
definition AUDIO_FIXED_OVERHEAD :: nat where "AUDIO_FIXED_OVERHEAD = 28"
definition V1_MAX_CHUNK_FRAMES :: nat where "V1_MAX_CHUNK_FRAMES = 512"

definition TYPE_PEER_ANNOUNCEMENT :: u8 where "TYPE_PEER_ANNOUNCEMENT = 1"
definition TYPE_CHANNEL_BYES :: u8 where "TYPE_CHANNEL_BYES = 2"
definition TYPE_AUDIO_PONG :: u8 where "TYPE_AUDIO_PONG = 3"
definition TYPE_CHANNEL_REQUEST :: u8 where "TYPE_CHANNEL_REQUEST = 4"
definition TYPE_STOP_CHANNEL_REQUEST :: u8 where "TYPE_STOP_CHANNEL_REQUEST = 5"
definition TYPE_AUDIO_BUFFER :: u8 where "TYPE_AUDIO_BUFFER = 6"

definition AK_SESS :: u32 where "AK_SESS = fourcc (ascii ''sess'')"
definition AK_PI :: u32 where "AK_PI = fourcc (ascii ''__pi'')"
definition AK_AUCA :: u32 where "AK_AUCA = fourcc (ascii ''auca'')"
definition AK_AUCB :: u32 where "AK_AUCB = fourcc (ascii ''aucb'')"
definition AK_CHID :: u32 where "AK_CHID = fourcc (ascii ''chid'')"
definition AK_HT :: u32 where "AK_HT = fourcc (ascii ''__ht'')"

lemmas audio_types = TYPE_PEER_ANNOUNCEMENT_def TYPE_CHANNEL_BYES_def TYPE_AUDIO_PONG_def
  TYPE_CHANNEL_REQUEST_def TYPE_STOP_CHANNEL_REQUEST_def TYPE_AUDIO_BUFFER_def

lemma audio_keys:
  "AK_SESS = 0x73657373" "AK_PI = 0x5F5F7069" "AK_AUCA = 0x61756361" "AK_AUCB = 0x61756362"
  "AK_CHID = 0x63686964" "AK_HT = 0x5F5F6874"
  by code_simp+

lemma length_AUDIO_MAGIC [simp]: "length AUDIO_MAGIC = 8"
  by (simp add: AUDIO_MAGIC_def ascii_def)

section \<open>Data\<close>

record channel_info =
  ci_name :: bytes
  ci_id :: channel_id

record chunk =
  c_seq :: u64
  c_num_frames :: u16
  c_begin_beats :: i64
  c_tempo :: i64

record audio_buffer =
  ab_channel :: channel_id
  ab_session :: session_id
  ab_chunks :: "chunk list"
  ab_codec :: u8
  ab_sample_rate :: u32
  ab_num_channels :: u8
  ab_sample_data :: bytes

text \<open>The sum is taken in \<open>u32\<close>.\<close>

definition total_frames :: "audio_buffer \<Rightarrow> u32" where
  "total_frames buf = sum_list (map (\<lambda>c. ucast (c_num_frames c)) (ab_chunks buf))"

text \<open>\<open>chunks_exact(2)\<close> drops a last single byte.\<close>

fun samples_of_bytes :: "bytes \<Rightarrow> i16 list" where
  "samples_of_bytes (a # b # rest) = from_be [a, b] # samples_of_bytes rest"
| "samples_of_bytes _ = []"

definition buffer_samples :: "audio_buffer \<Rightarrow> i16 list" where
  "buffer_samples buf = samples_of_bytes (ab_sample_data buf)"

definition encode_samples :: "i16 list \<Rightarrow> bytes" where
  "encode_samples samples = concat (map (to_be 2) samples)"

datatype audio_message =
    PeerAnnouncement (pa_session: session_id) (pa_peer_name: bytes) (pa_channels: "channel_info list")
      (pa_ping: "i64 option")
  | ChannelByes "channel_id list"
  | AudioPong i64
  | ChannelRequest channel_id
  | StopChannelRequest channel_id
  | AudioBuffer audio_buffer

record audio_frame =
  af_ttl :: u8
  af_group_id :: u16
  af_node :: node_id
  af_message :: audio_message

definition new_audio_frame :: "node_id \<Rightarrow> audio_message \<Rightarrow> audio_frame" where
  "new_audio_frame node message =
     (let ttl = (case message of
          PeerAnnouncement _ _ _ _ \<Rightarrow> AUDIO_TTL_SECONDS
        | ChannelByes _ \<Rightarrow> AUDIO_TTL_SECONDS
        | AudioPong _ \<Rightarrow> AUDIO_TTL_SECONDS
        | ChannelRequest _ \<Rightarrow> AUDIO_TTL_SECONDS
        | StopChannelRequest _ \<Rightarrow> 0
        | AudioBuffer _ \<Rightarrow> 0)
      in \<lparr>af_ttl = ttl, af_group_id = 0, af_node = node, af_message = message\<rparr>)"

section \<open>Encoding\<close>

definition w_channel_info :: "channel_info \<Rightarrow> writer" where
  "w_channel_info ch = (\<lambda>buf. w_id (ci_id ch) (w_string (ci_name ch) buf))"

definition w_chunk :: "chunk \<Rightarrow> writer" where
  "w_chunk c = (\<lambda>buf. w_i64 (c_tempo c) (w_i64 (c_begin_beats c) (w_u16 (c_num_frames c)
     (w_u64 (c_seq c) buf))))"

fun audio_message_type :: "audio_message \<Rightarrow> u8" where
  "audio_message_type (PeerAnnouncement _ _ _ _) = TYPE_PEER_ANNOUNCEMENT"
| "audio_message_type (ChannelByes _) = TYPE_CHANNEL_BYES"
| "audio_message_type (AudioPong _) = TYPE_AUDIO_PONG"
| "audio_message_type (ChannelRequest _) = TYPE_CHANNEL_REQUEST"
| "audio_message_type (StopChannelRequest _) = TYPE_STOP_CHANNEL_REQUEST"
| "audio_message_type (AudioBuffer _) = TYPE_AUDIO_BUFFER"

fun w_audio_message :: "audio_message \<Rightarrow> writer" where
  "w_audio_message (PeerAnnouncement session peer_name channels ping) = (\<lambda>w.
     let w = w_entry AK_SESS (w_id session) w;
         w = w_entry AK_PI (w_string peer_name) w;
         w = w_entry AK_AUCA (w_counted w_channel_info channels) w
     in case ping of None \<Rightarrow> w | Some ht \<Rightarrow> w_entry AK_HT (w_i64 ht) w)"
| "w_audio_message (ChannelByes channels) =
     w_entry AK_AUCB (w_counted w_id channels)"
| "w_audio_message (AudioPong host_time) = w_entry AK_HT (w_i64 host_time)"
| "w_audio_message (ChannelRequest channel) = w_entry AK_CHID (w_id channel)"
| "w_audio_message (StopChannelRequest channel) = w_entry AK_CHID (w_id channel)"
| "w_audio_message (AudioBuffer buf) = (\<lambda>w.
     let w = w_id (ab_channel buf) w;
         w = w_id (ab_session buf) w;
         w = w_u32 (word_of_nat (length (ab_chunks buf))) w;
         w = w_all w_chunk (ab_chunks buf) w;
         w = w_u8 (ab_codec buf) w;
         w = w_u32 (ab_sample_rate buf) w;
         w = w_u8 (ab_num_channels buf) w;
         w = w_u16 (word_of_nat (length (ab_sample_data buf))) w
     in w_bytes (ab_sample_data buf) w)"

text \<open>A release build: the debug assertion at its end, that the message has at most \<open>AUDIO_MAX_MESSAGE_SIZE\<close> bytes, is not
  there. Reference sizing can break it.\<close>

definition encode_audio :: "audio_frame \<Rightarrow> bytes" where
  "encode_audio frame =
     (let w = w_bytes AUDIO_MAGIC [];
          w = w_u8 (audio_message_type (af_message frame)) w;
          w = w_u8 (af_ttl frame) w;
          w = w_u16 (af_group_id frame) w;
          w = w_id (af_node frame) w
      in w_audio_message (af_message frame) w)"

section \<open>Decoding\<close>

definition r_channel_info :: "channel_info reader" where
  "r_channel_info = r_bind r_string (\<lambda>name. r_bind r_id (\<lambda>i. r_ok \<lparr>ci_name = name, ci_id = i\<rparr>))"

definition r_chunk :: "chunk reader" where
  "r_chunk = r_bind r_u64 (\<lambda>s. r_bind r_u16 (\<lambda>n. r_bind r_i64 (\<lambda>b. r_bind r_i64 (\<lambda>t.
     r_ok \<lparr>c_seq = s, c_num_frames = n, c_begin_beats = b, c_tempo = t\<rparr>))))"

record announcement =
  an_session :: "session_id option"
  an_peer_name :: bytes
  an_channels :: "channel_info list"
  an_ping :: "i64 option"

definition announcement_entry :: "announcement \<Rightarrow> entry \<Rightarrow> error + announcement" where
  "announcement_entry a e =
     (if e_key e = AK_SESS then
        bind_res (entry_decode e r_id) (\<lambda>v. Inr (a\<lparr>an_session := Some v\<rparr>))
      else if e_key e = AK_PI then
        bind_res (entry_decode e r_string) (\<lambda>v. Inr (a\<lparr>an_peer_name := v\<rparr>))
      else if e_key e = AK_AUCA then
        bind_res (entry_decode e (r_counted r_channel_info)) (\<lambda>v. Inr (a\<lparr>an_channels := v\<rparr>))
      else if e_key e = AK_HT then
        bind_res (entry_decode e r_i64) (\<lambda>v. Inr (a\<lparr>an_ping := Some v\<rparr>))
      else Inr a)"

definition decode_announcement :: "bytes \<Rightarrow> error + audio_message" where
  "decode_announcement payload =
     bind_res (for_entries announcement_entry
       \<lparr>an_session = None, an_peer_name = [], an_channels = [], an_ping = None\<rparr> payload) (\<lambda>a.
     bind_res (ok_or (an_session a) (Malformed ''announcement missing sess'')) (\<lambda>session.
     Inr (PeerAnnouncement session (an_peer_name a) (an_channels a) (an_ping a))))"

definition decode_byes :: "bytes \<Rightarrow> error + audio_message" where
  "decode_byes payload =
     bind_res (for_entries (\<lambda>channels e.
         if e_key e = AK_AUCB then entry_decode e (r_counted r_id) else Inr channels) [] payload)
       (\<lambda>channels. Inr (ChannelByes channels))"

definition decode_audio_pong :: "bytes \<Rightarrow> error + audio_message" where
  "decode_audio_pong payload =
     bind_res (for_entries (\<lambda>host_time e.
         if e_key e = AK_HT then bind_res (entry_decode e r_i64) (\<lambda>v. Inr (Some v))
         else Inr host_time) None payload) (\<lambda>host_time.
     bind_res (ok_or host_time (Malformed ''pong missing __ht'')) (\<lambda>ht. Inr (AudioPong ht)))"

definition decode_request :: "u8 \<Rightarrow> bytes \<Rightarrow> error + audio_message" where
  "decode_request msg_type payload =
     bind_res (for_entries (\<lambda>channel e.
         if e_key e = AK_CHID then bind_res (entry_decode e r_id) (\<lambda>v. Inr (Some v))
         else Inr channel) None payload) (\<lambda>channel.
     bind_res (ok_or channel (Malformed ''request missing chid'')) (\<lambda>channel.
     if msg_type = TYPE_CHANNEL_REQUEST then Inr (ChannelRequest channel)
     else Inr (StopChannelRequest channel)))"

definition decode_audio_buffer :: "bytes \<Rightarrow> error + audio_buffer" where
  "decode_audio_buffer payload =
     bind_res (r_id payload) (\<lambda>(channel, r).
     bind_res (r_id r) (\<lambda>(session, r).
     bind_res (r_u32 r) (\<lambda>(chunk_count, r).
     if chunk_count = 0 then Inl (Malformed ''audio buffer with zero chunks'') else
     bind_res (r_exactly r_chunk (unat chunk_count) r) (\<lambda>(chunks, r).
     bind_res (r_u8 r) (\<lambda>(codec, r).
     bind_res (r_u32 r) (\<lambda>(sample_rate, r).
     bind_res (r_u8 r) (\<lambda>(num_channels, r).
     bind_res (r_u16 r) (\<lambda>(num_bytes, r).
     if length r \<noteq> unat num_bytes then
       Inl (Malformed ''sample bytes do not fill the datagram'') else
     bind_res (r_take (unat num_bytes) r) (\<lambda>(sample_data, r).
     let buf = \<lparr>ab_channel = channel, ab_session = session, ab_chunks = chunks, ab_codec = codec,
           ab_sample_rate = sample_rate, ab_num_channels = num_channels,
           ab_sample_data = sample_data\<rparr>
     in if codec \<noteq> CODEC_PCM_I16 then Inl (Malformed ''unsupported codec'')
        else if unat (total_frames buf) * unat num_channels * 2 \<noteq> unat num_bytes then
          Inl (Malformed ''frame count and sample bytes disagree'')
        else Inr buf)))))))))"

definition decode_audio :: "bytes \<Rightarrow> error + audio_frame" where
  "decode_audio datagram =
     (if length datagram < 20 then Inl Truncated else
      bind_res (r_take 8 datagram) (\<lambda>(magic, r).
      if magic \<noteq> AUDIO_MAGIC then Inl BadMagic else
      bind_res (r_u8 r) (\<lambda>(msg_type, r).
      bind_res (r_u8 r) (\<lambda>(ttl, r).
      bind_res (r_u16 r) (\<lambda>(group_id, r).
      bind_res (r_id r) (\<lambda>(node, payload).
      bind_res
        (if msg_type = TYPE_PEER_ANNOUNCEMENT then decode_announcement payload
         else if msg_type = TYPE_CHANNEL_BYES then decode_byes payload
         else if msg_type = TYPE_AUDIO_PONG then decode_audio_pong payload
         else if msg_type = TYPE_CHANNEL_REQUEST \<or> msg_type = TYPE_STOP_CHANNEL_REQUEST then
           decode_request msg_type payload
         else if msg_type = TYPE_AUDIO_BUFFER then
           bind_res (decode_audio_buffer payload) (\<lambda>b. Inr (AudioBuffer b))
         else Inl (UnknownMessageType msg_type))
        (\<lambda>message. Inr \<lparr>af_ttl = ttl, af_group_id = group_id, af_node = node,
           af_message = message\<rparr>)))))))"

section \<open>Wire types\<close>

interpretation channel_info: strict_wire_type w_channel_info r_channel_info
  "\<lambda>c. length (ci_name c) < 2 ^ 32"
proof
  fix c :: channel_info and buf rest
  show "w_channel_info c buf = buf @ w_channel_info c []"
    using string.write_appends [of "ci_name c" buf] by (simp add: w_channel_info_def w_id_def w_bytes_def)
  show "w_channel_info c [] \<noteq> []"
    by (simp add: w_channel_info_def w_id_def w_bytes_def string.write_nonempty)
  show "r_channel_info (w_channel_info c [] @ rest) = Inr (c, rest)" if "length (ci_name c) < 2 ^ 32"
    using string.read_write [OF that, of "id_bytes (ci_id c) @ rest"]
    by (simp add: r_channel_info_def w_channel_info_def w_id_def w_bytes_def wire_simps)
  show "length (ci_name c) < 2 ^ 32 \<and> buf = w_channel_info c [] @ rest"
    if "r_channel_info buf = Inr (c, rest)"
  proof -
    from that obtain s b1 i where "r_string buf = Inr (s, b1)" "r_id b1 = Inr (i, rest)"
      "c = \<lparr>ci_name = s, ci_id = i\<rparr>"
      by (auto simp: r_channel_info_def wire_simps bind_res_Inr)
    then show ?thesis
      using string.read_sound [of buf s b1] id.read_sound [of b1 i rest]
      by (simp add: w_channel_info_def w_id_def w_bytes_def)
  qed
qed

lemma r_u64_to_be [wire_simps]: "r_u64 (to_be 8 v @ rest) = Inr (v, rest)"
  using u64.read_write [of v rest] by (simp add: writer_defs)

lemma w_chunk_bytes: "w_chunk c buf
    = buf @ to_be 8 (c_seq c) @ to_be 2 (c_num_frames c) @ to_be 8 (c_begin_beats c) @ to_be 8 (c_tempo c)"
  by (simp add: w_chunk_def writer_defs)

interpretation chunk: strict_wire_type w_chunk r_chunk "\<lambda>_. True"
proof
  fix c :: chunk and buf rest
  show "True \<and> buf = w_chunk c [] @ rest" if read: "r_chunk buf = Inr (c, rest)"
  proof -
    from read obtain s b1 n b2 b b3 t where "r_u64 buf = Inr (s, b1)" "r_u16 b1 = Inr (n, b2)"
      "r_i64 b2 = Inr (b, b3)" "r_i64 b3 = Inr (t, rest)"
      "c = \<lparr>c_seq = s, c_num_frames = n, c_begin_beats = b, c_tempo = t\<rparr>"
      by (auto simp: r_chunk_def wire_simps bind_res_Inr)
    then show ?thesis
      using u64.read_sound [of buf s b1] u16.read_sound [of b1 n b2]
      by (simp add: w_chunk_bytes r_i64_Inr writer_defs)
  qed
qed (simp_all add: w_chunk_bytes r_chunk_def wire_simps flip: length_greater_0_conv)

lemma length_w_chunk [simp]: "length (w_chunk c buf) = length buf + 26"
  by (simp add: w_chunk_bytes)

lemma length_chunks [simp]: "length (w_all w_chunk cs []) = 26 * length cs"
  by (induction cs) (simp_all add: chunk.w_all_Cons w_all_def [of _ "[]"])

lemma length_ids [simp]: "length (w_all w_id is []) = 8 * length is"
  by (induction "is") (simp_all add: id.w_all_Cons w_all_def [of _ "[]"])

lemma length_w_channel_info [simp]:
  "length (w_channel_info c buf) = length buf + 12 + length (ci_name c)"
  by (simp add: w_channel_info_def)

lemma length_channel_infos [simp]:
  "length (w_all w_channel_info cs []) = 12 * length cs + sum_list (map (\<lambda>c. length (ci_name c)) cs)"
  by (induction cs) (simp_all add: channel_info.w_all_Cons w_all_def [of _ "[]"])

subsection \<open>Sample bytes\<close>

lemma samples_of_encode: "samples_of_bytes (encode_samples xs) = xs"
proof (induction xs)
  case Nil
  then show ?case by (simp add: encode_samples_def)
next
  case (Cons x xs)
  have "encode_samples (x # xs) = ucast (drop_bit 8 x) # ucast x # encode_samples xs"
    by (simp add: encode_samples_def numeral_2_eq_2)
  moreover have "from_be [ucast (drop_bit 8 x), ucast x] = x"
    using from_be_to_be [of 2 x] by (simp add: numeral_2_eq_2)
  ultimately show ?case using Cons.IH by simp
qed

lemma encode_samples_of: "even (length bs) \<Longrightarrow> encode_samples (samples_of_bytes bs) = bs"
proof (induction bs rule: samples_of_bytes.induct)
  case (1 a b rest)
  then show ?case
    using to_be_from_be_length [of "[a, b]" 2, where 'a = 16] by (simp add: encode_samples_def)
qed (simp_all add: encode_samples_def)

lemma length_encode_samples [simp]: "length (encode_samples xs) = 2 * length xs"
  by (induction xs) (simp_all add: encode_samples_def)

lemma encode_samples_append [simp]: "encode_samples (xs @ ys) = encode_samples xs @ encode_samples ys"
  by (simp add: encode_samples_def)

lemma length_samples_of: "length (samples_of_bytes bs) = length bs div 2"
  by (induction bs rule: samples_of_bytes.induct) auto

section \<open>Messages on the wire\<close>

definition ping_entry :: "i64 option \<Rightarrow> entry list" where
  "ping_entry ping = (case ping of None \<Rightarrow> [] | Some ht \<Rightarrow> [i64_entry AK_HT ht])"

fun audio_entries :: "audio_message \<Rightarrow> entry list" where
  "audio_entries (PeerAnnouncement session peer_name channels ping) =
     [id_entry AK_SESS session,
      \<lparr>e_key = AK_PI, e_value = w_string peer_name []\<rparr>,
      \<lparr>e_key = AK_AUCA, e_value = w_counted w_channel_info channels []\<rparr>] @ ping_entry ping"
| "audio_entries (ChannelByes channels) = [\<lparr>e_key = AK_AUCB, e_value = w_counted w_id channels []\<rparr>]"
| "audio_entries (AudioPong ht) = [i64_entry AK_HT ht]"
| "audio_entries (ChannelRequest c) = [id_entry AK_CHID c]"
| "audio_entries (StopChannelRequest c) = [id_entry AK_CHID c]"
| "audio_entries (AudioBuffer b) = []"

definition buffer_bytes :: "audio_buffer \<Rightarrow> bytes" where
  "buffer_bytes b = id_bytes (ab_channel b) @ id_bytes (ab_session b)
     @ to_be 4 (word_of_nat (length (ab_chunks b)) :: u32) @ w_all w_chunk (ab_chunks b) []
     @ [ab_codec b] @ to_be 4 (ab_sample_rate b) @ [ab_num_channels b]
     @ to_be 2 (word_of_nat (length (ab_sample_data b)) :: u16) @ ab_sample_data b"

definition audio_payload :: "audio_message \<Rightarrow> bytes" where
  "audio_payload m = (case m of AudioBuffer b \<Rightarrow> buffer_bytes b
     | _ \<Rightarrow> concat (map entry_bytes (audio_entries m)))"

lemma w_audio_message_bytes: "w_audio_message m buf = buf @ audio_payload m"
proof (cases m)
  case (AudioBuffer b)
  then show ?thesis
    using chunk.w_all_append [of "ab_chunks b" "buf @ id_bytes (ab_channel b) @ id_bytes (ab_session b)
      @ to_be 4 (word_of_nat (length (ab_chunks b)) :: u32)"]
    by (simp add: audio_payload_def buffer_bytes_def writer_defs w_id_def)
qed (simp_all add: audio_payload_def id.entry_written i64.entry_written string.entry_written
    w_entry_patches [OF channel_info.appends_counted] w_entry_patches [OF id.appends_counted]
    id_entry_def i64_entry_def ping_entry_def split: option.split)

lemma encode_audio_bytes:
  "encode_audio f = AUDIO_MAGIC @ [audio_message_type (af_message f), af_ttl f]
     @ to_be 2 (af_group_id f) @ id_bytes (af_node f) @ audio_payload (af_message f)"
  by (simp add: encode_audio_def w_audio_message_bytes w_bytes_def w_u8_def w_u16_def w_id_def)

lemma length_buffer_bytes [simp]:
  "length (buffer_bytes b) = AUDIO_FIXED_OVERHEAD + CHUNK_RECORD_SIZE * length (ab_chunks b)
     + length (ab_sample_data b)"
  by (simp add: buffer_bytes_def AUDIO_FIXED_OVERHEAD_def CHUNK_RECORD_SIZE_def)

lemma length_encode_audio: "length (encode_audio f) = 20 + length (audio_payload (af_message f))"
  by (simp add: encode_audio_bytes)

text \<open>A buffer that its receiver accepts: at least one chunk, the only defined codec, and a frame
  count that matches the sample bytes.\<close>

definition consistent_buffer :: "audio_buffer \<Rightarrow> bool" where
  "consistent_buffer b \<longleftrightarrow> ab_chunks b \<noteq> [] \<and> ab_codec b = CODEC_PCM_I16
     \<and> unat (total_frames b) * unat (ab_num_channels b) * 2 = length (ab_sample_data b)"

lemma unat_word_of_nat_u16: "n < 2 ^ 16 \<Longrightarrow> unat (word_of_nat n :: u16) = n"
  by (simp add: unat_of_nat take_bit_nat_eq_self)

lemma decode_buffer_bytes:
  assumes "consistent_buffer b" and "length (ab_chunks b) < 2 ^ 32"
    and "length (ab_sample_data b) < 2 ^ 16"
  shows "decode_audio_buffer (buffer_bytes b) = Inr b"
proof -
  have "length (ab_chunks b) > 0" using assms(1) by (simp add: consistent_buffer_def)
  with assms(2) have "(word_of_nat (length (ab_chunks b)) :: u32) \<noteq> 0"
    using unat_word_of_nat_u32 [of "length (ab_chunks b)"] by force
  with assms show ?thesis
    by (cases b) (simp add: decode_audio_buffer_def buffer_bytes_def wire_simps unat_word_of_nat_u32
        unat_word_of_nat_u16 chunk.r_exactly_written consistent_buffer_def r_take_def Let_def)
qed

lemma decode_buffer_rejects:
  assumes "\<not> consistent_buffer b" and "length (ab_chunks b) < 2 ^ 32"
    and "length (ab_sample_data b) < 2 ^ 16"
  shows "\<exists>err. decode_audio_buffer (buffer_bytes b) = Inl err"
proof (cases "ab_chunks b = []")
  case True
  then show ?thesis by (cases b) (simp add: decode_audio_buffer_def buffer_bytes_def wire_simps)
next
  case False
  with assms(2) have "(word_of_nat (length (ab_chunks b)) :: u32) \<noteq> 0"
    using unat_word_of_nat_u32 [of "length (ab_chunks b)"] by force
  with assms False show ?thesis
    by (cases b) (simp add: decode_audio_buffer_def buffer_bytes_def wire_simps unat_word_of_nat_u32
        unat_word_of_nat_u16 chunk.r_exactly_written consistent_buffer_def r_take_def Let_def)
qed

lemma decode_buffer_sound:
  assumes "decode_audio_buffer d = Inr b"
  shows "consistent_buffer b \<and> length (ab_chunks b) < 2 ^ 32 \<and> length (ab_sample_data b) < 2 ^ 16
    \<and> d = buffer_bytes b"
proof -
  from assms obtain ch r1 se r2 n r3 cs r4 co r5 ra r6 nc r7 nb r8 where *:
    "r_id d = Inr (ch, r1)" "r_id r1 = Inr (se, r2)" "r_u32 r2 = Inr (n, r3)" "n \<noteq> 0"
    "r_exactly r_chunk (unat n) r3 = Inr (cs, r4)" "r_u8 r4 = Inr (co, r5)"
    "r_u32 r5 = Inr (ra, r6)" "r_u8 r6 = Inr (nc, r7)" "r_u16 r7 = Inr (nb, r8)"
    "length r8 = unat nb" "co = CODEC_PCM_I16"
    "b = \<lparr>ab_channel = ch, ab_session = se, ab_chunks = cs, ab_codec = co, ab_sample_rate = ra,
       ab_num_channels = nc, ab_sample_data = r8\<rparr>"
    "unat (total_frames b) * unat nc * 2 = unat nb"
    by (auto simp: decode_audio_buffer_def bind_res_Inr r_take_Inr Let_def split: if_splits)
  have cs: "length cs = unat n" "r3 = w_all w_chunk cs [] @ r4"
    using chunk.r_exactly_sound [OF *(5)] by auto
  have "unat n > 0" using *(4) by (simp add: unat_gt_0)
  with cs(1) have ne: "cs \<noteq> []" by auto
  have "unat n < 2 ^ 32" "unat nb < 2 ^ 16"
    using unsigned_less [of n, where ?'a = nat] unsigned_less [of nb, where ?'a = nat] by simp_all
  then show ?thesis
    using * cs ne id.read_sound [OF *(1)] id.read_sound [OF *(2)] u32.read_sound [OF *(3)]
      u8.read_sound [OF *(6)] u32.read_sound [OF *(7)] u8.read_sound [OF *(8)]
      u16.read_sound [OF *(9)]
    by (simp add: consistent_buffer_def buffer_bytes_def writer_defs w_id_def)
qed

lemma decode_audio_prefix:
  "decode_audio (AUDIO_MAGIC @ [t, ttl] @ to_be 2 g @ id_bytes n @ payload) = bind_res
     (if t = TYPE_PEER_ANNOUNCEMENT then decode_announcement payload
      else if t = TYPE_CHANNEL_BYES then decode_byes payload
      else if t = TYPE_AUDIO_PONG then decode_audio_pong payload
      else if t = TYPE_CHANNEL_REQUEST \<or> t = TYPE_STOP_CHANNEL_REQUEST then decode_request t payload
      else if t = TYPE_AUDIO_BUFFER then bind_res (decode_audio_buffer payload) (\<lambda>b. Inr (AudioBuffer b))
      else Inl (UnknownMessageType t))
     (\<lambda>m. Inr \<lparr>af_ttl = ttl, af_group_id = g, af_node = n, af_message = m\<rparr>)"
  by (simp add: decode_audio_def wire_simps)

lemma entries_fit:
  assumes "length (concat (map entry_bytes es)) < 2 ^ 32" and "e \<in> set es"
  shows "entry_fits e"
proof -
  have "length (entry_bytes e) \<le> length (concat (map entry_bytes es))"
    using assms(2) by (auto simp: length_concat intro!: member_le_sum_list)
  with assms(1) show ?thesis by (simp add: entry_fits_def)
qed

lemma for_entries_small:
  assumes "length (concat (map entry_bytes es)) < 2 ^ 32"
  shows "for_entries f s (concat (map entry_bytes es)) = fold_res f s es"
  by (rule for_entries_concat) (rule entries_fit [OF assms])

lemma counted_names_bound:
  "c \<in> set cs \<Longrightarrow> length (ci_name c) \<le> length (w_counted w_channel_info cs [])"
  by (induction cs) (auto simp: channel_info.counted_bytes channel_info.w_all_Cons)

lemma decode_announcement_bytes:
  assumes "length (concat (map entry_bytes (audio_entries (PeerAnnouncement s n cs p)))) < 2 ^ 32"
  shows "decode_announcement (concat (map entry_bytes (audio_entries (PeerAnnouncement s n cs p))))
    = Inr (PeerAnnouncement s n cs p)"
proof -
  have *: "length (w_counted w_channel_info cs []) < 2 ^ 32" "length n < 2 ^ 32"
    using assms by simp_all
  have "\<forall>c\<in>set cs. length (ci_name c) < 2 ^ 32"
    using counted_names_bound *(1) by (meson le_less_trans)
  moreover have "length cs < 2 ^ 32"
    using *(1) by (simp add: channel_info.counted_bytes)
  ultimately have "fold_res announcement_entry \<lparr>an_session = None, an_peer_name = [], an_channels = [],
        an_ping = None\<rparr> (audio_entries (PeerAnnouncement s n cs p))
      = Inr \<lparr>an_session = Some s, an_peer_name = n, an_channels = cs, an_ping = p\<rparr>"
    by (cases p) (simp_all add: announcement_entry_def audio_keys ping_entry_def
        string.decode_written [OF *(2)] channel_info.decode_counted)
  then show ?thesis
    unfolding decode_announcement_def for_entries_small [OF assms]
    by (simp del: audio_entries.simps fold_res.simps)
qed

lemma decode_control_bytes:
  assumes "length (concat (map entry_bytes (audio_entries m))) < 2 ^ 32"
  shows "m = ChannelByes is \<Longrightarrow> decode_byes (concat (map entry_bytes (audio_entries m))) = Inr m"
    and "m = AudioPong ht \<Longrightarrow> decode_audio_pong (concat (map entry_bytes (audio_entries m))) = Inr m"
    and "m = ChannelRequest c \<Longrightarrow>
      decode_request TYPE_CHANNEL_REQUEST (concat (map entry_bytes (audio_entries m))) = Inr m"
    and "m = StopChannelRequest c \<Longrightarrow>
      decode_request TYPE_STOP_CHANNEL_REQUEST (concat (map entry_bytes (audio_entries m))) = Inr m"
proof -
  note conc = for_entries_small [OF assms]
  show "decode_byes (concat (map entry_bytes (audio_entries m))) = Inr m" if m: "m = ChannelByes is"
  proof -
    have "length is < 2 ^ 32" using assms by (simp add: m id.counted_bytes)
    from id.decode_counted [OF _ this] show ?thesis
      unfolding decode_byes_def conc by (simp add: m)
  qed
  show "m = AudioPong ht \<Longrightarrow> decode_audio_pong (concat (map entry_bytes (audio_entries m))) = Inr m"
    unfolding decode_audio_pong_def conc by simp
  show "m = ChannelRequest c \<Longrightarrow>
      decode_request TYPE_CHANNEL_REQUEST (concat (map entry_bytes (audio_entries m))) = Inr m"
    unfolding decode_request_def conc by simp
  show "m = StopChannelRequest c \<Longrightarrow>
      decode_request TYPE_STOP_CHANNEL_REQUEST (concat (map entry_bytes (audio_entries m))) = Inr m"
    unfolding decode_request_def conc by (simp add: audio_types)
qed

text \<open>A frame that fits a UDP datagram, with a consistent buffer when it carries audio.\<close>

definition sendable :: "audio_frame \<Rightarrow> bool" where
  "sendable f \<longleftrightarrow> length (encode_audio f) < 2 ^ 16
     \<and> (case af_message f of AudioBuffer b \<Rightarrow> consistent_buffer b | _ \<Rightarrow> True)"

lemma decode_encode_audio:
  assumes "sendable f"
  shows "decode_audio (encode_audio f) = Inr f"
proof -
  have len: "length (audio_payload (af_message f)) < 2 ^ 16"
    using assms by (simp add: sendable_def length_encode_audio)
  have small: "length (concat (map entry_bytes (audio_entries m))) < 2 ^ 32"
    if "af_message f = m" "audio_payload m = concat (map entry_bytes (audio_entries m))" for m
    using len that by simp
  note control = decode_control_bytes [OF small]
  show ?thesis
  proof (cases "af_message f")
    case (PeerAnnouncement s n cs p)
    then show ?thesis
      using decode_announcement_bytes [OF small] unfolding encode_audio_bytes
      by (simp add: decode_audio_prefix audio_payload_def del: append.simps audio_entries.simps)
  next
    case (AudioBuffer b)
    with assms len have "decode_audio_buffer (buffer_bytes b) = Inr b"
      by (intro decode_buffer_bytes) (simp_all add: sendable_def audio_payload_def CHUNK_RECORD_SIZE_def)
    with AudioBuffer show ?thesis unfolding encode_audio_bytes
      by (simp add: decode_audio_prefix audio_payload_def audio_types del: append.simps)
  qed (use control in \<open>simp_all add: encode_audio_bytes decode_audio_prefix audio_payload_def audio_types
      del: append.simps audio_entries.simps\<close>)
qed

lemma decode_audio_rejects:
  assumes "af_message f = AudioBuffer b" and "\<not> consistent_buffer b" and "length (encode_audio f) < 2 ^ 16"
  shows "\<exists>err. decode_audio (encode_audio f) = Inl err"
proof -
  have "\<exists>err. decode_audio_buffer (buffer_bytes b) = Inl err"
    using assms(1,3) by (intro decode_buffer_rejects [OF assms(2)])
      (simp_all add: length_encode_audio audio_payload_def CHUNK_RECORD_SIZE_def)
  with assms(1) show ?thesis
    by (auto simp: encode_audio_bytes decode_audio_prefix audio_payload_def audio_types simp del: append.simps)
qed

text \<open>A datagram that is cut within its chunk records is rejected.\<close>

lemma cut_buffer_rejected:
  assumes "af_message f = AudioBuffer b" and "length (ab_chunks b) < 2 ^ 32"
    and "40 \<le> m" and "m < 40 + 26 * length (ab_chunks b)"
  shows "\<exists>err. decode_audio (take m (encode_audio f)) = Inl err"
proof -
  let ?n = "word_of_nat (length (ab_chunks b)) :: u32"
  define rest where "rest = w_all w_chunk (ab_chunks b) [] @ [ab_codec b] @ to_be 4 (ab_sample_rate b) @
    [ab_num_channels b] @ to_be 2 (word_of_nat (length (ab_sample_data b)) :: u16) @ ab_sample_data b"
  define pre where "pre = AUDIO_MAGIC @ [TYPE_AUDIO_BUFFER, af_ttl f] @ to_be 2 (af_group_id f) @ id_bytes (af_node f) @
      id_bytes (ab_channel b) @ id_bytes (ab_session b) @ to_be 4 ?n"
  have "encode_audio f = pre @ rest" "length pre = 40"
    by (simp_all add: encode_audio_bytes assms(1) audio_payload_def buffer_bytes_def rest_def pre_def)
  then have "take m (encode_audio f) = pre @ take (m - 40) rest" using assms(3) by simp
  then have cut: "take m (encode_audio f) = AUDIO_MAGIC @ [TYPE_AUDIO_BUFFER, af_ttl f] @ to_be 2 (af_group_id f) @
      id_bytes (af_node f) @ id_bytes (ab_channel b) @ id_bytes (ab_session b) @ to_be 4 ?n @ take (m - 40) rest"
    by (simp only: pre_def append_assoc)
  have "\<nexists>cs r. r_exactly r_chunk (unat ?n) (take (m - 40) rest) = Inr (cs, r)"
  proof (intro notI, elim exE)
    fix cs r
    assume "r_exactly r_chunk (unat ?n) (take (m - 40) rest) = Inr (cs, r)"
    then have "take (m - 40) rest = w_all w_chunk cs [] @ r" "length cs = unat ?n"
      using chunk.r_exactly_sound by auto
    then have "26 * length (ab_chunks b) \<le> m - 40"
      using assms(2) by (metis (no_types, lifting) unat_word_of_nat_u32 length_append length_chunks length_take le_add1
          min.boundedE order_trans)
    with assms(3,4) show False by linarith
  qed
  then have "\<exists>err. decode_audio_buffer (id_bytes (ab_channel b) @ id_bytes (ab_session b) @ to_be 4 ?n @ take (m - 40) rest) = Inl err"
    by (cases "r_exactly r_chunk (unat ?n) (take (m - 40) rest)") (auto simp: decode_audio_buffer_def wire_simps)
  then show ?thesis unfolding cut
    by (auto simp: decode_audio_prefix audio_types simp del: append.simps)
qed

section \<open>Properties\<close>

text \<open>C27: Every LinkAudio frame of less than 64 KiB decodes from its encoding to itself, with one exception: an audio
  buffer that has no chunk, another codec, or frames and channels that do not make up its bytes, as one
  without channels, is rejected.\<close>

theorem audio_roundtrip:
  assumes "length (encode_audio f) < 2 ^ 16"
  shows "if \<exists>b. af_message f = AudioBuffer b \<and> \<not> consistent_buffer b
    then \<exists>err. decode_audio (encode_audio f) = Inl err else decode_audio (encode_audio f) = Inr f"
proof (cases "\<exists>b. af_message f = AudioBuffer b \<and> \<not> consistent_buffer b")
  case True
  then obtain b where b: "af_message f = AudioBuffer b" "\<not> consistent_buffer b" by blast
  then have "\<exists>err. decode_audio (encode_audio f) = Inl err"
    using assms by (intro decode_audio_rejects) simp_all
  with True show ?thesis by simp
next
  case False
  then have "sendable f" using assms by (simp add: sendable_def split: audio_message.split)
  with False show ?thesis by (simp add: decode_encode_audio)
qed

definition example_buffer :: audio_buffer where
  "example_buffer = \<lparr>ab_channel = Id 1, ab_session = Id 2,
     ab_chunks = [\<lparr>c_seq = 1, c_num_frames = 2, c_begin_beats = - 5, c_tempo = 500000\<rparr>],
     ab_codec = 1, ab_sample_rate = 48000, ab_num_channels = 1, ab_sample_data = [1, 2, 255, 254]\<rparr>"

theorem audio_roundtrip_witness:
  "decode_audio (encode_audio (new_audio_frame (Id 9) (AudioBuffer example_buffer)))
     = Inr (new_audio_frame (Id 9) (AudioBuffer example_buffer)) \<and>
   (\<exists>err. decode_audio (encode_audio (new_audio_frame (Id 9) (AudioBuffer (example_buffer\<lparr>ab_num_channels := 0\<rparr>)))) = Inl err)"
  using audio_roundtrip [of "new_audio_frame (Id 9) (AudioBuffer example_buffer)"]
    audio_roundtrip [of "new_audio_frame (Id 9) (AudioBuffer (example_buffer\<lparr>ab_num_channels := 0\<rparr>))"]
  by (simp add: length_encode_audio new_audio_frame_def audio_payload_def
      example_buffer_def consistent_buffer_def CODEC_PCM_I16_def total_frames_def
      AUDIO_FIXED_OVERHEAD_def CHUNK_RECORD_SIZE_def)

text \<open>C28: The audio buffers a receiver accepts are exactly the encodings of the consistent ones: at
  least one chunk, the PCM codec, frames times channels matching the sample bytes, and no byte
  before, between or after the fields.\<close>

theorem audio_buffer_exact:
  "(decode_audio d = Inr f \<and> af_message f = AudioBuffer b) \<longleftrightarrow>
     (d = encode_audio f \<and> af_message f = AudioBuffer b \<and> consistent_buffer b
      \<and> length (ab_chunks b) < 2 ^ 32 \<and> length (ab_sample_data b) < 2 ^ 16)"
  (is "?lhs \<longleftrightarrow> ?rhs")
proof
  assume l: ?lhs
  then obtain t ttl r2 r3 g r4 n payload where *: "r_u8 (drop 8 d) = Inr (t, r2)"
    "r_u8 r2 = Inr (ttl, r3)" "r_u16 r3 = Inr (g, r4)" "r_id r4 = Inr (n, payload)"
    "take 8 d = AUDIO_MAGIC"
    by (auto simp: decode_audio_def bind_res_Inr r_take_def split: if_splits)
  then have d: "d = AUDIO_MAGIC @ [t, ttl] @ to_be 2 g @ id_bytes n @ payload"
    using u8.read_sound [OF *(1)] u8.read_sound [OF *(2)] u16.read_sound [OF *(3)]
      id.read_sound [OF *(4)] append_take_drop_id [of 8 d]
    by (simp add: writer_defs w_id_def)
  have "t = TYPE_AUDIO_BUFFER \<and> decode_audio_buffer payload = Inr b
      \<and> f = \<lparr>af_ttl = ttl, af_group_id = g, af_node = n, af_message = AudioBuffer b\<rparr>"
    using l unfolding d decode_audio_prefix
    by (auto simp: bind_res_Inr decode_announcement_def decode_byes_def decode_audio_pong_def
        decode_request_def split: if_splits)
  with l d decode_buffer_sound [of payload b] show ?rhs
    by (simp add: encode_audio_bytes audio_payload_def)
next
  assume r: ?rhs
  then have "decode_audio_buffer (buffer_bytes b) = Inr b" by (simp add: decode_buffer_bytes)
  with r show ?lhs
    by (simp add: encode_audio_bytes decode_audio_prefix audio_payload_def audio_types
        del: append.simps)
qed

text \<open>Samples survive the wire: decoding the encoded samples of a sender gives them back, and a
  receiver's samples determine the bytes it received, when their number is even.\<close>

theorem samples_roundtrip:
  "samples_of_bytes (encode_samples xs) = xs
   \<and> (if even (length bs) then encode_samples (samples_of_bytes bs) = bs
      else length (samples_of_bytes bs) = length bs div 2)"
  by (simp add: samples_of_encode encode_samples_of length_samples_of)

end
