(* ===== verification/Iface.thy ===== *)
theory Iface
  imports Prelude
begin

text \<open>
  Gateway planning, \<^verbatim>\<open>crates/tactus/src/iface.rs\<close>: which addresses of an interface list become
  gateways, and what a rescan opens and closes. The operating system's enumeration is the argument
  \<open>interface list option\<close>, \<open>None\<close> where it fails. An IPv4 address is the big-endian number of its
  four octets, so the order of \<open>Ipv4Addr\<close> is the order of the numbers; a \<open>BTreeSet\<close> is a set, and
  \<open>sorted_list_of_set\<close> is its iteration order.
\<close>

section \<open>Definitions\<close>

type_synonym ipv4 = u32

definition LOCALHOST :: ipv4 where
  "LOCALHOST = 0x7F000001"

definition is_loopback :: "ipv4 \<Rightarrow> bool" where
  "is_loopback a \<longleftrightarrow> drop_bit 24 a = 127"

definition is_unspecified :: "ipv4 \<Rightarrow> bool" where
  "is_unspecified a \<longleftrightarrow> a = 0"

record interface =
  if_addr :: ipv4
  if_up :: bool
  if_loopback :: bool
  if_multicast :: bool
  if_point_to_point :: bool

definition admissible :: "interface \<Rightarrow> bool" where
  "admissible i \<longleftrightarrow> if_up i \<and> if_multicast i \<and> \<not> if_point_to_point i \<and> \<not> if_loopback i \<and>
     \<not> is_loopback (if_addr i) \<and> \<not> is_unspecified (if_addr i)"

definition admit :: "interface list \<Rightarrow> ipv4 set" where
  "admit ifaces = insert LOCALHOST (set (map if_addr (filter admissible ifaces)))"

record gateway_diff =
  added :: "ipv4 list"
  removed :: "ipv4 list"

definition empty_diff :: gateway_diff where
  "empty_diff = \<lparr>added = [], removed = []\<rparr>"

definition diff_is_empty :: "gateway_diff \<Rightarrow> bool" where
  "diff_is_empty d \<longleftrightarrow> added d = [] \<and> removed d = []"

definition diff :: "ipv4 set \<Rightarrow> ipv4 set \<Rightarrow> gateway_diff" where
  "diff current wanted =
     \<lparr>added = sorted_list_of_set (wanted - current), removed = sorted_list_of_set (current - wanted)\<rparr>"

definition plan :: "interface list option \<Rightarrow> ipv4 set \<Rightarrow> gateway_diff" where
  "plan source current = (case source of Some ifaces \<Rightarrow> diff current (admit ifaces) | None \<Rightarrow> empty_diff)"

definition initial :: "interface list option \<Rightarrow> ipv4 set" where
  "initial source = admit (case source of Some ifaces \<Rightarrow> ifaces | None \<Rightarrow> [])"

text \<open>The gateway set after a plan has been carried out.\<close>

definition apply_diff :: "gateway_diff \<Rightarrow> ipv4 set \<Rightarrow> ipv4 set" where
  "apply_diff d current = (current - set (removed d)) \<union> set (added d)"

section \<open>Lemmas\<close>

lemma finite_admit [simp]: "finite (admit ifaces)"
  by (simp add: admit_def)

lemma diff_sets:
  assumes "finite current" and "finite wanted"
  shows "set (added (diff current wanted)) = wanted - current"
    and "set (removed (diff current wanted)) = current - wanted"
  using assms by (simp_all add: diff_def)

lemma apply_diff_reaches:
  "finite current \<Longrightarrow> finite wanted \<Longrightarrow> apply_diff (diff current wanted) current = wanted"
  by (auto simp: apply_diff_def diff_sets)

lemma diff_empty_iff:
  "finite current \<Longrightarrow> finite wanted \<Longrightarrow> diff_is_empty (diff current wanted) \<longleftrightarrow> current = wanted"
  by (auto simp: diff_is_empty_def diff_def)

lemma localhost_admitted [simp]: "LOCALHOST \<in> admit ifaces"
  by (simp add: admit_def)

section \<open>Properties\<close>

text \<open>A rescan takes the gateway set to exactly what the interfaces admit, each list sorted and
  without repeats, asks for nothing where nothing changed, and changes nothing where the enumeration
  failed. Loopback is never closed.\<close>

theorem rescan_plan_correct:
  assumes "finite current"
  shows "apply_diff (plan source current) current =
      (case source of Some ifaces \<Rightarrow> admit ifaces | None \<Rightarrow> current) \<and>
    (diff_is_empty (plan source current) \<longleftrightarrow>
      (case source of Some ifaces \<Rightarrow> admit ifaces = current | None \<Rightarrow> True)) \<and>
    sorted (added (plan source current)) \<and> distinct (added (plan source current)) \<and>
    sorted (removed (plan source current)) \<and> distinct (removed (plan source current)) \<and>
    set (added (plan source current)) \<inter> current = {} \<and>
    set (removed (plan source current)) \<subseteq> current \<and>
    LOCALHOST \<notin> set (removed (plan source current))"
proof (cases source)
  case None
  then show ?thesis by (simp add: plan_def empty_diff_def apply_diff_def diff_is_empty_def)
next
  case (Some ifaces)
  have a: "apply_diff (plan source current) current = admit ifaces"
    using assms by (simp add: plan_def Some apply_diff_reaches)
  have e: "diff_is_empty (plan source current) \<longleftrightarrow> admit ifaces = current"
    using assms by (auto simp: plan_def Some diff_empty_iff)
  have s: "set (added (plan source current)) = admit ifaces - current"
    "set (removed (plan source current)) = current - admit ifaces"
    using assms by (simp_all add: plan_def Some diff_sets)
  have o: "sorted (added (plan source current))" "distinct (added (plan source current))"
    "sorted (removed (plan source current))" "distinct (removed (plan source current))"
    by (simp_all add: plan_def Some diff_def)
  show ?thesis unfolding Some [symmetric] using a e s o by (simp add: Some) blast
qed

definition example_interfaces :: "interface list" where
  "example_interfaces =
    [\<lparr>if_addr = 0x7F000001, if_up = True, if_loopback = True, if_multicast = False,
       if_point_to_point = False\<rparr>,
     \<lparr>if_addr = 0xC0A80005, if_up = True, if_loopback = False, if_multicast = True,
       if_point_to_point = False\<rparr>,
     \<lparr>if_addr = 0x0A080001, if_up = True, if_loopback = False, if_multicast = True,
       if_point_to_point = True\<rparr>]"

lemma rescan_plan_correct_witness:
  "apply_diff (plan (Some example_interfaces) {LOCALHOST, 7}) {LOCALHOST, 7} = {LOCALHOST, 0xC0A80005}"
proof -
  have "admit example_interfaces = {LOCALHOST, 0xC0A80005}"
    by (simp add: admit_def example_interfaces_def admissible_def is_loopback_def is_unspecified_def)
  with rescan_plan_correct [of "{LOCALHOST, 7}" "Some example_interfaces"] show ?thesis by simp
qed

text \<open>The addresses a peer opens: \<open>127.0.0.1\<close>, always, and every non-loopback, specified address
  of an interface that is up, multicast-capable and not point-to-point. A first enumeration that
  fails opens loopback alone.\<close>

theorem admission_filter:
  "a \<in> initial source \<longleftrightarrow> a = LOCALHOST \<or>
    (\<exists>ifaces. source = Some ifaces \<and> (\<exists>i \<in> set ifaces. if_addr i = a \<and> if_up i \<and> if_multicast i \<and>
      \<not> if_point_to_point i \<and> \<not> if_loopback i \<and> drop_bit 24 a \<noteq> 127 \<and> a \<noteq> 0))"
  by (cases source) (auto simp: initial_def admit_def admissible_def is_loopback_def is_unspecified_def)

end
