(* ===== verification/Engine_State.thy ===== *)
theory Engine_State
  imports Beat_Math Hash_Map Discovery Sync Wire_Audio Iface
begin

text \<open>
  The state of a peer: the records of \<^verbatim>\<open>crates/tactus/src/engine.rs\<close> and \<^verbatim>\<open>audio.rs\<close>, the
  environment a peer runs in, and the operations every handler is built from (the clock, random
  identifiers, sending, the broadcast that announces a state change).

  The engine record holds the code's \<open>State\<close> (everything behind the one mutex) and, after it, the
  environment: the readings the clock will give, the identifiers \<open>getrandom\<close> will draw, the outcome
  of opening sockets and of enumerating interfaces (\<open>None\<close> where one of these fails), and the iteration orders of the hash maps. What
  an operation does to the outside is recorded in order in \<open>sent\<close>; \<open>wakes\<close> counts the notifications
  of the condition variable. A panic ends the operation that raises it with the state it has reached
  and sets \<open>panicked\<close>.
\<close>

section \<open>Constants\<close>

definition JOIN_EPSILON :: i64 where "JOIN_EPSILON = 500000"
definition REMEASURE_PERIOD :: i64 where "REMEASURE_PERIOD = 30000000"
definition PRUNE_PADDING :: i64 where "PRUNE_PADDING = 1000000"
definition ALIVE_PERIOD :: i64 where "ALIVE_PERIOD = 250000"
definition MIN_BROADCAST_SPACING :: i64 where "MIN_BROADCAST_SPACING = 50000"
definition MEASUREMENT_RETRY :: i64 where "MEASUREMENT_RETRY = 50000"
definition MAX_MEASUREMENT_RETRIES :: nat where "MAX_MEASUREMENT_RETRIES = 5"
definition RESCAN_PERIOD :: i64 where "RESCAN_PERIOD = 5000000"

text \<open>A time to live in seconds, as microseconds.\<close>

definition ttl_micros :: "u8 \<Rightarrow> i64" where
  "ttl_micros ttl = ucast ttl * 1000000"

section \<open>Discovery and measurement\<close>

record peer_entry =
  pe_state :: peer_state
  pe_deadline :: i64

type_synonym peers = "((node_id \<times> nat) \<times> peer_entry) list"

datatype purpose = Join | Remeasure

record measure_task =
  mt_session :: session_id
  mt_target :: socket_addr
  mt_gateway :: nat
  mt_purpose :: purpose

record measurement =
  m_task :: measure_task
  m_samples :: "f64 list"
  m_timeouts :: nat
  m_retry_deadline :: i64

text \<open>What the model keeps of a gateway's sockets are the addresses they are bound to.\<close>

record gateway =
  gw_id :: nat
  gw_addr :: ipv4
  gw_measurement :: socket_addr
  gw_audio :: socket_addr

type_synonym gateway_map = "(nat \<times> gateway) list"

section \<open>Audio\<close>

record known_channel =
  kc_peer :: node_id
  kc_peer_name :: bytes
  kc_name :: bytes
  kc_deadline :: i64

record path_stats =
  rtts :: "f64 list"

type_synonym paths = "((node_id \<times> nat) \<times> path_stats) list"

record segment =
  sg_begin :: i64
  sg_tempo :: i64
  sg_samples :: "i16 list"

record sink =
  sk_id :: channel_id
  sk_name :: bytes
  requesters :: "(node_id \<times> i64) list"
  next_seq :: u64
  segments :: "segment list"
  sk_format :: "(u32 \<times> u8) option"

record received_chunk =
  rc_samples :: "i16 list"
  rc_begin_app_beat :: f64
  rc_tempo :: i64
  rc_sample_rate :: u32
  rc_channels :: u8
  rc_seq :: u64

record source =
  so_quantum :: i64
  last_request_at :: i64
  last_buffer_at :: i64
  inbox :: "received_chunk list"
  next_seq_expected :: "u64 option"
  lost_chunks :: u64

record audio_state =
  au_peer_name :: bytes
  sinks :: "sink list"
  sources :: "(channel_id \<times> source) list"
  known :: "((channel_id \<times> nat) \<times> known_channel) list"
  paths :: paths
  last_announce_at :: i64

definition new_audio_state :: "bytes \<Rightarrow> audio_state" where
  "new_audio_state peer_name = \<lparr>au_peer_name = take MAX_NAME peer_name, sinks = [], sources = [],
     known = [], paths = [], last_announce_at = 0\<rparr>"

section \<open>The state and its environment\<close>

record state =
  enabled :: bool
  epoch :: u64
  node :: node_id
  session :: session_id
  timeline :: timeline
  ghost_offset :: i64
  held_stst :: start_stop_state
  app_playing :: bool
  sst_sync :: bool
  gateways :: gateway_map
  next_gateway_id :: nat
  peers :: peers
  session_member_seen :: bool
  foreign_timelines :: "(session_id \<times> timeline) list"
  measured :: "(session_id \<times> i64) list"
  measurement :: "measurement option"
  pending :: "measure_task list"
  last_alive_at :: i64
  last_broadcast_at :: i64
  broadcast_due :: "i64 option"
  next_remeasure_at :: "i64 option"
  audio :: "audio_state option"

datatype gateways_config = Auto | Explicit "ipv4 list"

record config =
  cf_gateways :: gateways_config
  fill_audio_datagrams :: bool

record env =
  env_clock :: "nat \<Rightarrow> i64"
  env_ids :: "nat \<Rightarrow> id option"
  env_open :: "nat \<Rightarrow> ipv4 \<Rightarrow> (socket_addr \<times> socket_addr) option"
  env_interfaces :: "nat \<Rightarrow> interface list option"
  iter_peers :: "peers \<Rightarrow> peers"
  iter_known :: "((channel_id \<times> nat) \<times> known_channel) list \<Rightarrow>
    ((channel_id \<times> nat) \<times> known_channel) list"
  iter_requesters :: "(node_id \<times> i64) list \<Rightarrow> (node_id \<times> i64) list"
  iter_sources :: "(channel_id \<times> source) list \<Rightarrow> (channel_id \<times> source) list"

text \<open>A datagram handed to a socket of a gateway. The code ignores the outcome of every send.\<close>

datatype send =
    Send_multicast nat bytes
  | Send_unicast nat bytes socket_addr
  | Send_measurement nat bytes socket_addr
  | Send_audio nat bytes socket_addr

record engine = state +
  config :: config
  env :: env
  clock_reads :: nat
  id_draws :: nat
  open_calls :: nat
  scan_calls :: nat
  sent :: "send list"
  wakes :: nat
  panicked :: bool

text \<open>An iteration order visits every entry once.\<close>

definition fair_iteration :: "env \<Rightarrow> bool" where
  "fair_iteration v \<longleftrightarrow> (\<forall>m. set (iter_peers v m) = set m \<and> distinct (keys_of m) = distinct (keys_of (iter_peers v m)))
     \<and> (\<forall>m. set (iter_known v m) = set m)
     \<and> (\<forall>m. set (iter_requesters v m) = set m \<and> distinct (keys_of m) = distinct (keys_of (iter_requesters v m)))
     \<and> (\<forall>m. set (iter_sources v m) = set m)"

text \<open>The operating system gives randomness whenever it is asked.\<close>

definition gives_randomness :: "env \<Rightarrow> bool" where
  "gives_randomness v \<longleftrightarrow> (\<forall>n. env_ids v n \<noteq> None)"

section \<open>Basic operations\<close>

definition now :: "engine \<Rightarrow> i64 \<times> engine" where
  "now e = (env_clock (env e) (clock_reads e), e\<lparr>clock_reads := clock_reads e + 1\<rparr>)"

text \<open>\<open>None\<close>: the operating system gives no randomness, and the code panics.\<close>

definition random_id :: "engine \<Rightarrow> id option \<times> engine" where
  "random_id e = (env_ids (env e) (id_draws e), e\<lparr>id_draws := id_draws e + 1\<rparr>)"

definition notify :: "engine \<Rightarrow> engine" where
  "notify e = e\<lparr>wakes := wakes e + 1\<rparr>"

definition transmit :: "send list \<Rightarrow> engine \<Rightarrow> engine" where
  "transmit msgs e = e\<lparr>sent := sent e @ msgs\<rparr>"

definition panic :: "engine \<Rightarrow> engine" where
  "panic e = e\<lparr>panicked := True\<rparr>"

text \<open>What follows an operation in the same handler runs only if the operation has not panicked.\<close>

definition and_then :: "(engine \<Rightarrow> engine) \<Rightarrow> engine \<Rightarrow> engine" where
  "and_then f e = (if panicked e then e else f e)"

definition build_state :: "engine \<Rightarrow> gateway \<Rightarrow> peer_state" where
  "build_state e gw = \<lparr>ps_timeline = Some (timeline e), ps_session = Some (session e),
     ps_start_stop = Some (held_stst e), ps_measurement_endpoint = Some (gw_measurement gw),
     ps_audio_endpoint = map_option (\<lambda>_. gw_audio gw) (audio e)\<rparr>"

definition send_alive_on :: "gateway \<Rightarrow> engine \<Rightarrow> engine" where
  "send_alive_on gw e =
     transmit [Send_multicast (gw_id gw) (encode_disc (disc_alive (node e) (build_state e gw)))] e"

definition send_alive :: "i64 \<Rightarrow> engine \<Rightarrow> engine" where
  "send_alive t e =
     (transmit (map (\<lambda>(_, gw). Send_multicast (gw_id gw)
         (encode_disc (disc_alive (node e) (build_state e gw)))) (gateways e)) e)
       \<lparr>last_alive_at := t, last_broadcast_at := t, broadcast_due := None\<rparr>"

definition schedule_broadcast :: "engine \<Rightarrow> engine" where
  "schedule_broadcast e = (if \<not> enabled e then e else
     let (t, e) = now e in
     if MIN_BROADCAST_SPACING \<le>s t - last_broadcast_at e then send_alive t e
     else notify (e\<lparr>broadcast_due := Some (last_broadcast_at e + MIN_BROADCAST_SPACING)\<rparr>))"

text \<open>An engine whose first identifier cannot be drawn does not come about; the record stands for the panic.\<close>

definition new_engine :: "f64 \<Rightarrow> config \<Rightarrow> env \<Rightarrow> engine" where
  "new_engine bpm c v = (let i = (case env_ids v 0 of None \<Rightarrow> Id 0 | Some i \<Rightarrow> i) in
     \<lparr>enabled = False, epoch = 0, node = i, session = i,
      timeline = \<lparr>tempo = bpm_to_tempo bpm, beat_origin = 0, time_origin = 0\<rparr>,
      ghost_offset = 0, held_stst = default_start_stop, app_playing = False, sst_sync = False,
      gateways = [], next_gateway_id = 0, peers = [], session_member_seen = False,
      foreign_timelines = [], measured = [], measurement = None, pending = [],
      last_alive_at = 0, last_broadcast_at = 0, broadcast_due = None, next_remeasure_at = None,
      audio = None,
      config = c, env = v, clock_reads = 0, id_draws = 1, open_calls = 0, scan_calls = 0,
      sent = [], wakes = 0, panicked = (env_ids v 0 = None)\<rparr>)"

lemmas basic_ops = now_def random_id_def notify_def transmit_def panic_def

end
