(* ===== verification/Audio_Data.thy ===== *)
theory Audio_Data
  imports Engine_State
begin

text \<open>
  The data plane of \<^verbatim>\<open>crates/tactus/src/audio.rs\<close>: the parts that compute on a sink, a source, the
  path statistics or a channel list without the rest of the engine. A panic inside a sink operation
  is the value \<open>Inl\<close> of the sink in the state the panic leaves it in.
\<close>

section \<open>Constants\<close>

definition RECEIVING_WINDOW :: i64 where "RECEIVING_WINDOW = 1000000"
definition ANNOUNCE_PERIOD :: i64 where "ANNOUNCE_PERIOD = 250000"
definition REQUEST_PERIOD :: i64 where "REQUEST_PERIOD = 5000000"
definition RTT_WINDOW :: nat where "RTT_WINDOW = 10"
definition INBOX_LIMIT :: nat where "INBOX_LIMIT = 256"

section \<open>Paths\<close>

definition default_path_stats :: path_stats where
  "default_path_stats = \<lparr>rtts = []\<rparr>"

definition path_record :: "path_stats \<Rightarrow> f64 \<Rightarrow> path_stats" where
  "path_record p rtt_micros =
     (let q = (if length (rtts p) = RTT_WINDOW then tl (rtts p) else rtts p)
      in p\<lparr>rtts := q @ [rtt_micros]\<rparr>)"

definition path_quality :: "path_stats \<Rightarrow> f64" where
  "path_quality p = (let n = length (rtts p); nf = f64_of_int (int n) in
     if n = 0 then Fin 0 else
     let mean = f64_div (f64_sum (rtts p)) nf;
         var = f64_div (f64_sum (map (\<lambda>r. let d = f64_sub r mean in f64_mul d d) (rtts p))) nf;
         jitter = f64_add (f64_sqrt var) (f64_sub (Fin 10000)
           (f64_div (f64_mul (Fin 10000) nf) (f64_of_int (int RTT_WINDOW))));
         speed = f64_div (Fin 1000000) (f64_max mean (Fin 1))
     in f64_div speed (f64_add (Fin 1) jitter))"

text \<open>\<open>ps\<close> is the peer table in its iteration order.\<close>

definition session_endpoints :: "peers \<Rightarrow> session_id \<Rightarrow> (nat \<times> socket_addr) list" where
  "session_endpoints ps s = List.map_filter (\<lambda>((_, g), p).
     if ps_session (pe_state p) = Some s then map_option (\<lambda>ep. (g, ep)) (ps_audio_endpoint (pe_state p))
     else None) ps"

text \<open>\<open>Iterator::max_by\<close>: a later element replaces the best one unless the best is greater.\<close>

definition max_by :: "('a \<Rightarrow> 'a \<Rightarrow> bool) \<Rightarrow> 'a list \<Rightarrow> 'a option" where
  "max_by lt xs = (case xs of [] \<Rightarrow> None
     | x # ys \<Rightarrow> Some (foldl (\<lambda>best y. if lt y best then best else y) x ys))"

definition best_path :: "peers \<Rightarrow> paths \<Rightarrow> node_id \<Rightarrow> (nat \<times> socket_addr) option" where
  "best_path ps pths n =
     (let quality = (\<lambda>g. case map_of pths (n, g) of None \<Rightarrow> Fin 0 | Some p \<Rightarrow> path_quality p)
      in max_by (\<lambda>a b. f64_total_less (quality (fst a)) (quality (fst b)))
        (List.map_filter (\<lambda>((m, g), p). if m = n
           then map_option (\<lambda>ep. (g, ep)) (ps_audio_endpoint (pe_state p)) else None) ps))"

section \<open>Delivery\<close>

definition expect_seq :: "u64 \<Rightarrow> source \<Rightarrow> source" where
  "expect_seq seq s = (case next_seq_expected s of
      None \<Rightarrow> s\<lparr>next_seq_expected := Some (seq + 1)\<rparr>
    | Some expected \<Rightarrow>
        if seq \<ge> expected
        then s\<lparr>lost_chunks := lost_chunks s + (seq - expected), next_seq_expected := Some (seq + 1)\<rparr>
        else s\<lparr>lost_chunks := (if lost_chunks s = 0 then 0 else lost_chunks s - 1)\<rparr>)"

definition channel_count :: "u8 \<Rightarrow> nat" where
  "channel_count num_channels = max 1 (unat num_channels)"

primrec deliver_chunks :: "audio_buffer \<Rightarrow> i64 \<Rightarrow> i16 list \<Rightarrow> nat \<Rightarrow> chunk list \<Rightarrow> source \<Rightarrow> source" where
  "deliver_chunks buf delta samples pos [] s = s"
| "deliver_chunks buf delta samples pos (c # cs) s =
    (let s = expect_seq (c_seq c) s;
         stop = min (pos + unat (c_num_frames c) * channel_count (ab_num_channels buf)) (length samples);
         received = \<lparr>rc_samples = take (stop - pos) (drop pos samples),
           rc_begin_app_beat = f64_div (f64_of_int (sint (c_begin_beats c + delta))) (Fin 1000000),
           rc_tempo = c_tempo c, rc_sample_rate = ab_sample_rate buf,
           rc_channels = ab_num_channels buf, rc_seq = c_seq c\<rparr>
     in deliver_chunks buf delta samples stop cs (s\<lparr>inbox := inbox s @ [received]\<rparr>))"

definition deliver :: "source \<Rightarrow> audio_buffer \<Rightarrow> timeline \<Rightarrow> i64 \<Rightarrow> source option" where
  "deliver s buf l t = map_option (\<lambda>delta.
     let s = deliver_chunks buf delta (buffer_samples buf) 0 (ab_chunks buf) s
     in s\<lparr>inbox := drop (length (inbox s) - INBOX_LIMIT) (inbox s), last_buffer_at := t\<rparr>)
     (session_offset l (so_quantum s))"

section \<open>Announcements\<close>

definition encode_announcement ::
    "node_id \<Rightarrow> session_id \<Rightarrow> bytes \<Rightarrow> channel_info list \<Rightarrow> i64 option \<Rightarrow> bytes" where
  "encode_announcement n s peer_name channels ping =
     encode_audio (new_audio_frame n (PeerAnnouncement s peer_name channels ping))"

fun take_channels :: "(channel_info list \<Rightarrow> nat) \<Rightarrow> channel_info list \<Rightarrow> channel_info list
    \<Rightarrow> channel_info list \<times> channel_info list" where
  "take_channels enc_len taken [] = (taken, [])"
| "take_channels enc_len taken (ch # remaining) =
    (let taken' = taken @ [ch] in
     if enc_len taken' > 20 + MAX_PAYLOAD \<and> length taken' > 1 then (taken, ch # remaining)
     else take_channels enc_len taken' remaining)"

lemma take_channels_progress:
  "length (snd (take_channels enc_len taken remaining)) \<le> length remaining"
  by (induction enc_len taken remaining rule: take_channels.induct) (auto simp: Let_def)

lemma take_channels_first:
  "snd (take_channels enc_len [] (ch # remaining)) = snd (take_channels enc_len [ch] remaining)"
  by (simp add: Let_def)

text \<open>\<open>first\<close> holds for the message that starts the round, the only one to carry the ping.\<close>

function announcement_round :: "node_id \<Rightarrow> session_id \<Rightarrow> bytes \<Rightarrow> i64 \<Rightarrow> bool \<Rightarrow> channel_info list
    \<Rightarrow> bytes list" where
  "announcement_round n s name t first remaining =
    (let ping = (if first then Some t else None);
         (taken, rest) = take_channels (\<lambda>chs. length (encode_announcement n s name chs ping)) [] remaining;
         msg = encode_announcement n s name taken ping
     in if rest = [] then [msg] else msg # announcement_round n s name t False rest)"
  by pat_completeness auto

termination
proof (relation "measure (\<lambda>(_, _, _, _, _, remaining). length remaining)", goal_cases)
  case (2 n s name t first remaining ping p taken rest msg)
  then obtain ch chs where r: "remaining = ch # chs" by (cases remaining) auto
  have "rest = snd (take_channels (\<lambda>chs. length (encode_announcement n s name chs ping)) [] remaining)"
    using 2 by (metis snd_conv)
  then have "length rest \<le> length chs"
    unfolding r take_channels_first by (simp add: take_channels_progress)
  then show ?case by (simp add: r)
qed simp

declare announcement_round.simps [simp del]

definition build_announcement_round :: "node_id \<Rightarrow> session_id \<Rightarrow> audio_state \<Rightarrow> i64 \<Rightarrow> bytes list" where
  "build_announcement_round n s a t = announcement_round n s (au_peer_name a) t True
     (map (\<lambda>k. \<lparr>ci_name = sk_name k, ci_id = sk_id k\<rparr>) (sinks a))"

text \<open>\<open>slice::chunks\<close>.\<close>

fun split_chunks :: "nat \<Rightarrow> 'a list \<Rightarrow> 'a list list" where
  "split_chunks k xs = (if xs = [] \<or> k = 0 then [] else take k xs # split_chunks k (drop k xs))"

declare split_chunks.simps [simp del]

section \<open>Sinks\<close>

definition frames_to_micro_beats :: "nat \<Rightarrow> u32 \<Rightarrow> i64 \<Rightarrow> i64 option" where
  "frames_to_micro_beats frames rate t =
     round_div (sint (word_of_nat frames :: i64) * 1000000000000) (uint rate * sint t)"

text \<open>The planner's budget: the bytes it may spend, the cost of a chunk record, the frames a chunk may
  have.\<close>

definition datagram_budget :: "bool \<Rightarrow> nat" where
  "datagram_budget fill = (if fill then MAX_PAYLOAD - AUDIO_FIXED_OVERHEAD else SAMPLE_BYTE_CAP)"

definition record_cost :: "bool \<Rightarrow> nat" where
  "record_cost fill = (if fill then CHUNK_RECORD_SIZE else 0)"

definition chunk_cap :: "bool \<Rightarrow> nat" where
  "chunk_cap fill = (if fill then V1_MAX_CHUNK_FRAMES else 2 ^ 64 - 1)"

definition frame_bytes :: "u8 \<Rightarrow> nat" where
  "frame_bytes nc = 2 * channel_count nc"

lemma frame_bytes_pos [simp]: "0 < frame_bytes nc"
  by (simp add: frame_bytes_def channel_count_def)

lemma channel_count_pos [simp]: "0 < channel_count nc"
  by (simp add: channel_count_def)

lemma chunk_cap_pos [simp]: "0 < chunk_cap fill"
  by (simp add: chunk_cap_def V1_MAX_CHUNK_FRAMES_def)

lemma plan_take_pos:
  "0 < frames \<Longrightarrow> \<not> left < record_cost fill + frame_bytes nc \<Longrightarrow>
    0 < min (min frames (chunk_cap fill)) ((left - record_cost fill) div frame_bytes nc)"
  by (simp add: div_greater_zero_iff)

text \<open>One segment of the plan: the frames of each chunk drawn from it, what is left of the budget, and
  whether the budget ran out.\<close>

function plan_segment :: "bool \<Rightarrow> u8 \<Rightarrow> nat \<Rightarrow> nat \<Rightarrow> nat list \<times> nat \<times> bool" where
  "plan_segment fill nc left frames =
    (if frames = 0 then ([], left, False)
     else if left < record_cost fill + frame_bytes nc then ([], left, True)
     else let n = min (min frames (chunk_cap fill)) ((left - record_cost fill) div frame_bytes nc);
              (takes, left', exhausted) =
                plan_segment fill nc (left - (record_cost fill + n * frame_bytes nc)) (frames - n)
          in (n # takes, left', exhausted))"
  by pat_completeness auto

termination
  by (relation "measure (\<lambda>(_, _, _, frames). frames)") (auto dest: plan_take_pos)

declare plan_segment.simps [simp del]

primrec plan_segments :: "bool \<Rightarrow> u8 \<Rightarrow> nat \<Rightarrow> segment list \<Rightarrow> nat list \<times> nat \<times> bool" where
  "plan_segments fill nc left [] = ([], left, False)"
| "plan_segments fill nc left (sg # sgs) =
    (let (takes, left', exhausted) =
           plan_segment fill nc left (length (sg_samples sg) div channel_count nc)
     in if exhausted then (takes, left', True)
        else let (takes', left'', exhausted') = plan_segments fill nc left' sgs
             in (takes @ takes', left'', exhausted'))"

text \<open>Consuming one planned chunk. The three ways to panic: no segment is left, the segment is shorter
  than planned, or the duration divides by zero; the last leaves the samples already removed.\<close>

definition consume_take :: "u32 \<Rightarrow> u8 \<Rightarrow> sink \<times> chunk list \<times> i16 list \<Rightarrow> nat
    \<Rightarrow> sink + sink \<times> chunk list \<times> i16 list" where
  "consume_take rate nc acc n = (case acc of (k, chunks, data) \<Rightarrow>
     let k = k\<lparr>segments := dropWhile (\<lambda>sg. length (sg_samples sg) < channel_count nc) (segments k)\<rparr>
     in case segments k of
         [] \<Rightarrow> Inl k
       | sg # sgs \<Rightarrow>
           let c = \<lparr>c_seq = next_seq k, c_num_frames = word_of_nat n, c_begin_beats = sg_begin sg,
                 c_tempo = sg_tempo sg\<rparr>;
               k = k\<lparr>next_seq := next_seq k + 1\<rparr>;
               m = n * channel_count nc
           in if length (sg_samples sg) < m then Inl k else
              let taken = take m (sg_samples sg);
                  sg = sg\<lparr>sg_samples := drop m (sg_samples sg)\<rparr>
              in case frames_to_micro_beats n rate (sg_tempo sg) of
                  None \<Rightarrow> Inl (k\<lparr>segments := sg # sgs\<rparr>)
                | Some d \<Rightarrow>
                    let sg = sg\<lparr>sg_begin := sg_begin sg + d\<rparr>
                    in Inr (k\<lparr>segments := (if sg_samples sg = [] then sgs else sg # sgs)\<rparr>,
                         chunks @ [c], data @ taken))"

definition pending_samples :: "segment list \<Rightarrow> nat" where
  "pending_samples sgs = sum_list (map (\<lambda>sg. length (sg_samples sg)) sgs)"

lemma pending_dropWhile: "pending_samples (dropWhile P sgs) \<le> pending_samples sgs"
  by (induction sgs) (auto simp: pending_samples_def)

lemma consume_take_pending:
  assumes "consume_take rate nc (k, chunks, data) n = Inr (k', chunks', data')"
  shows "pending_samples (segments k') + n * channel_count nc \<le> pending_samples (segments k)"
proof -
  obtain sg sgs where d: "dropWhile (\<lambda>sg. length (sg_samples sg) < channel_count nc) (segments k) = sg # sgs"
    and l: "\<not> length (sg_samples sg) < n * channel_count nc"
    and k': "segments k' = (let sg' = sg\<lparr>sg_samples := drop (n * channel_count nc) (sg_samples sg),
      sg_begin := sg_begin sg + the (frames_to_micro_beats n rate (sg_tempo sg))\<rparr>
      in if sg_samples sg' = [] then sgs else sg' # sgs)"
    using assms by (auto simp: consume_take_def Let_def split: list.splits if_splits option.splits)
  have "pending_samples (segments k') + n * channel_count nc = pending_samples (sg # sgs)"
    using l by (auto simp: k' pending_samples_def Let_def)
  also have "\<dots> \<le> pending_samples (segments k)" unfolding d [symmetric] by (rule pending_dropWhile)
  finally show ?thesis .
qed

lemma consume_takes_pending:
  "fold_res (consume_take rate nc) acc ns = Inr acc' \<Longrightarrow>
    pending_samples (segments (fst acc')) + sum_list ns * channel_count nc
      \<le> pending_samples (segments (fst acc))"
proof (induction ns arbitrary: acc)
  case Nil
  then show ?case by simp
next
  case (Cons n ns)
  from Cons.prems obtain acc1 where 1: "consume_take rate nc acc n = Inr acc1"
    and 2: "fold_res (consume_take rate nc) acc1 ns = Inr acc'"
    by (auto simp: bind_res_Inr)
  have "pending_samples (segments (fst acc1)) + n * channel_count nc \<le> pending_samples (segments (fst acc))"
    using 1 by (cases acc, cases acc1) (auto dest: consume_take_pending)
  with Cons.IH [OF 2] show ?case by (simp add: add_mult_distrib)
qed

lemma plan_segment_none: "plan_segment fill nc left 0 = ([], left, False)"
  by (simp add: plan_segment.simps)

lemma plan_segment_full:
  "0 < frames \<Longrightarrow> left < record_cost fill + frame_bytes nc \<Longrightarrow> plan_segment fill nc left frames = ([], left, True)"
  by (simp add: plan_segment.simps)

lemma plan_segment_step:
  assumes "0 < frames" and "\<not> left < record_cost fill + frame_bytes nc"
    and "n = min (min frames (chunk_cap fill)) ((left - record_cost fill) div frame_bytes nc)"
    and "plan_segment fill nc (left - (record_cost fill + n * frame_bytes nc)) (frames - n) = (ts, l, x)"
  shows "plan_segment fill nc left frames = (n # ts, l, x)"
  using assms by (subst plan_segment.simps) (simp add: Let_def)

text \<open>Induction over the chunks a plan draws from one segment.\<close>

lemma plan_segment_induct [case_names none full step]:
  assumes "\<And>left. P left 0 ([], left, False)"
    and "\<And>left frames. 0 < frames \<Longrightarrow> left < record_cost fill + frame_bytes nc \<Longrightarrow>
      P left frames ([], left, True)"
    and "\<And>left frames n ts l x. 0 < frames \<Longrightarrow> record_cost fill + frame_bytes nc \<le> left \<Longrightarrow>
      n = min (min frames (chunk_cap fill)) ((left - record_cost fill) div frame_bytes nc) \<Longrightarrow> 0 < n \<Longrightarrow>
      record_cost fill + n * frame_bytes nc \<le> left \<Longrightarrow> n \<le> frames \<Longrightarrow>
      P (left - (record_cost fill + n * frame_bytes nc)) (frames - n) (ts, l, x) \<Longrightarrow>
      P left frames (n # ts, l, x)"
  shows "P left frames (plan_segment fill nc left frames)"
proof (induction frames arbitrary: left rule: less_induct)
  case (less frames)
  consider "frames = 0" | "0 < frames" "left < record_cost fill + frame_bytes nc"
    | "0 < frames" "record_cost fill + frame_bytes nc \<le> left" by linarith
  then show ?case
  proof cases
    case 1
    then show ?thesis by (simp add: plan_segment_none assms(1))
  next
    case 2
    then show ?thesis by (simp add: plan_segment_full assms(2))
  next
    case 3
    define n where "n = min (min frames (chunk_cap fill)) ((left - record_cost fill) div frame_bytes nc)"
    have n0: "0 < n" using plan_take_pos [of frames left fill nc] 3 by (simp add: n_def)
    have nf: "n \<le> frames" by (simp add: n_def)
    have "n * frame_bytes nc \<le> (left - record_cost fill) div frame_bytes nc * frame_bytes nc"
      by (intro mult_right_mono) (simp_all add: n_def)
    also have "\<dots> \<le> left - record_cost fill" by simp
    finally have nl: "record_cost fill + n * frame_bytes nc \<le> left" using 3 by simp
    obtain ts l x where r: "plan_segment fill nc (left - (record_cost fill + n * frame_bytes nc))
        (frames - n) = (ts, l, x)" by (metis prod_cases3)
    have "P (left - (record_cost fill + n * frame_bytes nc)) (frames - n) (ts, l, x)"
      using less.IH [of "frames - n"] n0 3 by (simp flip: r)
    then have "P left frames (n # ts, l, x)" using assms(3) 3 n_def n0 nl nf by blast
    then show ?thesis using plan_segment_step [OF 3(1) _ n_def r] 3(2) by simp
  qed
qed

lemma plan_segment_pos: "\<forall>n \<in> set (fst (plan_segment fill nc left frames)). 0 < n"
  by (induction left frames rule: plan_segment_induct) auto

lemma plan_segments_pos: "\<forall>n \<in> set (fst (plan_segments fill nc left sgs)). 0 < n"
proof (induction sgs arbitrary: left)
  case (Cons sg sgs)
  obtain ts l x where 1: "plan_segment fill nc left (length (sg_samples sg) div channel_count nc) = (ts, l, x)"
    by (metis prod_cases3)
  obtain ts' l' x' where 2: "plan_segments fill nc l sgs = (ts', l', x')" by (metis prod_cases3)
  from plan_segment_pos [of fill nc left "length (sg_samples sg) div channel_count nc"] Cons [of l]
  show ?case by (auto simp: 1 2)
qed simp

function drain_datagrams :: "sink \<Rightarrow> channel_id \<Rightarrow> session_id \<Rightarrow> u32 \<Rightarrow> u8 \<Rightarrow> bool
    \<Rightarrow> sink + sink \<times> audio_buffer list" where
  "drain_datagrams k ch s rate nc fill =
    (let (takes, left, exhausted) = plan_segments fill nc (datagram_budget fill) (segments k)
     in if takes = [] \<or> (\<not> exhausted \<and> record_cost fill + frame_bytes nc \<le> left) then Inr (k, [])
        else bind_res (fold_res (consume_take rate nc) (k, [], []) takes) (\<lambda>(k, chunks, data).
          bind_res (drain_datagrams k ch s rate nc fill) (\<lambda>(k, buffers).
            Inr (k, \<lparr>ab_channel = ch, ab_session = s, ab_chunks = chunks, ab_codec = CODEC_PCM_I16,
              ab_sample_rate = rate, ab_num_channels = nc, ab_sample_data = encode_samples data\<rparr>
              # buffers))))"
  by pat_completeness auto

termination
proof (relation "measure (\<lambda>(k, _). pending_samples (segments k))", goal_cases)
  case (2 k ch s rate nc fill p takes q left exhausted acc' k' r chunks data)
  then have f: "fold_res (consume_take rate nc) (k, [], []) takes = Inr acc'" and "takes \<noteq> []"
    by auto
  moreover have "\<forall>n \<in> set takes. 0 < n" using 2(1,2) plan_segments_pos by (metis fst_conv)
  ultimately have pos: "0 < sum_list takes * channel_count nc" by (cases takes) auto
  have "fst acc' = k'" using 2 by auto
  with consume_takes_pending [OF f]
  have "pending_samples (segments k') + sum_list takes * channel_count nc \<le> pending_samples (segments k)"
    by simp
  with pos have "pending_samples (segments k') < pending_samples (segments k)" by linarith
  then show ?case by simp
qed simp

declare drain_datagrams.simps [simp del]

end
