(* ===== verification/Sink_Drain.thy ===== *)
theory Sink_Drain
  imports Audio_Data
begin

text \<open>
  What \<^verbatim>\<open>drain_datagrams\<close> guarantees: it never panics on a sink fed with a nonzero sample rate, it
  neither loses nor repeats a frame, it numbers chunks consecutively, and each datagram keeps the
  sizes its mode promises and is accepted by the decoder.
\<close>

section \<open>The plan\<close>

text \<open>\<open>draws takes frames\<close>: the takes can be drawn, in order, from segments with these many frames.\<close>

fun draws :: "nat list \<Rightarrow> nat list \<Rightarrow> bool" where
  "draws [] fs \<longleftrightarrow> True"
| "draws (n # ns) [] \<longleftrightarrow> False"
| "draws (n # ns) (f # fs) \<longleftrightarrow> (if f = 0 then draws (n # ns) fs else n \<le> f \<and> draws ns ((f - n) # fs))"

definition frame_counts :: "u8 \<Rightarrow> segment list \<Rightarrow> nat list" where
  "frame_counts nc sgs = map (\<lambda>sg. length (sg_samples sg) div channel_count nc) sgs"

lemma frame_counts_simps [simp]:
  "frame_counts nc [] = []"
  "frame_counts nc (sg # sgs) = length (sg_samples sg) div channel_count nc # frame_counts nc sgs"
  by (simp_all add: frame_counts_def)

text \<open>What a plan spends, and how large its chunks are.\<close>

definition plan_cost :: "bool \<Rightarrow> u8 \<Rightarrow> nat list \<Rightarrow> nat" where
  "plan_cost fill nc ns = record_cost fill * length ns + sum_list ns * frame_bytes nc"

lemma plan_cost_simps [simp]:
  "plan_cost fill nc [] = 0"
  "plan_cost fill nc (n # ns) = record_cost fill + n * frame_bytes nc + plan_cost fill nc ns"
  "plan_cost fill nc (ms @ ns) = plan_cost fill nc ms + plan_cost fill nc ns"
  by (simp_all add: plan_cost_def algebra_simps)

lemma plan_segment_spec:
  assumes "plan_segment fill nc left frames = (ts, l, x)"
  shows "l + plan_cost fill nc ts = left \<and> (\<forall>n \<in> set ts. 0 < n \<and> n \<le> chunk_cap fill) \<and>
    sum_list ts \<le> frames \<and> (if x then l < record_cost fill + frame_bytes nc else sum_list ts = frames)"
proof -
  define P where "P left frames r = (case r of (ts, l, x) \<Rightarrow>
    l + plan_cost fill nc ts = left \<and> (\<forall>n \<in> set ts. 0 < n \<and> n \<le> chunk_cap fill) \<and>
    sum_list ts \<le> frames \<and> (if x then l < record_cost fill + frame_bytes nc else sum_list ts = frames))"
    for left frames :: nat and r
  have "P left frames (plan_segment fill nc left frames)"
  proof (rule plan_segment_induct [where P = P])
    fix left frames n ts l x
    assume a: "n = min (min frames (chunk_cap fill)) ((left - record_cost fill) div frame_bytes nc)"
      "0 < n" "record_cost fill + n * frame_bytes nc \<le> left" "n \<le> frames"
      and P: "P (left - (record_cost fill + n * frame_bytes nc)) (frames - n) (ts, l, x)"
    from a(1) have cap: "n \<le> chunk_cap fill" by simp
    from P have P': "l + plan_cost fill nc ts = left - (record_cost fill + n * frame_bytes nc)"
      "\<forall>m \<in> set ts. 0 < m \<and> m \<le> chunk_cap fill" "sum_list ts \<le> frames - n"
      "if x then l < record_cost fill + frame_bytes nc else sum_list ts = frames - n"
      by (simp_all add: P_def)
    have "l + plan_cost fill nc (n # ts) = left"
      using P'(1) a(3) unfolding plan_cost_simps by linarith
    moreover have "\<forall>m \<in> set (n # ts). 0 < m \<and> m \<le> chunk_cap fill" using P'(2) cap a(2) by simp
    moreover have "sum_list (n # ts) \<le> frames" using P'(3) a(4) by simp
    moreover have "if x then l < record_cost fill + frame_bytes nc else sum_list (n # ts) = frames"
      using P'(4) a(4) by (cases x) simp_all
    ultimately show "P left frames (n # ts, l, x)" unfolding P_def prod.case by blast
  qed (simp_all add: P_def)
  with assms show ?thesis by (simp add: P_def)
qed

lemma draws_one_segment:
  "sum_list ts \<le> f \<Longrightarrow> \<forall>n \<in> set ts. 0 < n \<Longrightarrow> ns = [] \<or> (sum_list ts = f \<and> draws ns fs) \<Longrightarrow>
    draws (ts @ ns) (f # fs)"
proof (induction ts arbitrary: f)
  case Nil
  then show ?case by (cases ns) auto
next
  case (Cons n ts)
  then have "draws (ts @ ns) ((f - n) # fs)" by (intro Cons.IH) auto
  with Cons.prems show ?case by simp
qed

lemma plan_segments_spec:
  assumes "plan_segments fill nc left sgs = (ts, l, x)"
  shows "l + plan_cost fill nc ts = left \<and> (\<forall>n \<in> set ts. 0 < n \<and> n \<le> chunk_cap fill) \<and>
    draws ts (frame_counts nc sgs) \<and> (x \<longrightarrow> l < record_cost fill + frame_bytes nc)"
  using assms
proof (induction sgs arbitrary: left ts l x)
  case Nil
  then show ?case by simp
next
  case (Cons sg sgs)
  let ?f = "length (sg_samples sg) div channel_count nc"
  obtain ts1 l1 x1 where 1: "plan_segment fill nc left ?f = (ts1, l1, x1)" by (metis prod_cases3)
  note s1 = plan_segment_spec [OF 1]
  show ?case
  proof (cases x1)
    case True
    with Cons.prems 1 have "ts = ts1" "l = l1" "x" by auto
    with s1 True draws_one_segment [of ts1 ?f "[]" "frame_counts nc sgs"] show ?thesis by simp
  next
    case False
    obtain ts2 l2 x2 where 2: "plan_segments fill nc l1 sgs = (ts2, l2, x2)" by (metis prod_cases3)
    with Cons.prems 1 False have "ts = ts1 @ ts2" "l = l2" "x = x2" by auto
    with s1 False Cons.IH [OF 2] draws_one_segment [of ts1 ?f ts2 "frame_counts nc sgs"]
    show ?thesis by auto
  qed
qed

section \<open>Consuming the plan\<close>

text \<open>The frames a sink holds: the whole frames of each segment, in order.\<close>

definition whole_frames :: "u8 \<Rightarrow> segment list \<Rightarrow> i16 list" where
  "whole_frames nc sgs = concat (map (\<lambda>sg.
     take (length (sg_samples sg) div channel_count nc * channel_count nc) (sg_samples sg)) sgs)"

lemma whole_frames_simps [simp]:
  "whole_frames nc [] = []"
  "whole_frames nc (sg # sgs) =
     take (length (sg_samples sg) div channel_count nc * channel_count nc) (sg_samples sg)
     @ whole_frames nc sgs"
  by (simp_all add: whole_frames_def)

definition positive_tempos :: "segment list \<Rightarrow> bool" where
  "positive_tempos sgs \<longleftrightarrow> (\<forall>sg \<in> set sgs. 0 < sint (sg_tempo sg))"

abbreviation skip_residue :: "u8 \<Rightarrow> segment list \<Rightarrow> segment list" where
  "skip_residue nc \<equiv> dropWhile (\<lambda>sg. length (sg_samples sg) < channel_count nc)"

lemma whole_frames_skip: "whole_frames nc (skip_residue nc sgs) = whole_frames nc sgs"
  by (induction sgs) auto

lemma draws_skip: "draws (n # ns) (frame_counts nc sgs) \<Longrightarrow>
  draws (n # ns) (frame_counts nc (skip_residue nc sgs)) \<and> skip_residue nc sgs \<noteq> []"
  by (induction sgs) (auto split: if_splits simp: div_eq_0_iff)

lemma positive_tempos_skip: "positive_tempos sgs \<Longrightarrow> positive_tempos (skip_residue nc sgs)"
  by (auto simp: positive_tempos_def dest: set_dropWhileD)

lemma div_minus_mult: "0 < c \<Longrightarrow> n * c \<le> x \<Longrightarrow> (x - n * c) div c = x div c - n" for c n x :: nat
proof -
  assume "0 < c" "n * c \<le> x"
  moreover from this obtain y where "x = n * c + y" using le_Suc_ex by blast
  ultimately show ?thesis by simp
qed

lemma take_frames:
  assumes "n * c \<le> length xs" and "0 < c"
  shows "take (length xs div c * c) xs =
    take (n * c) xs @ take ((length xs - n * c) div c * c) (drop (n * c) xs)"
proof -
  have "(length xs - n * c) div c = length xs div c - n"
    using assms by (intro div_minus_mult)
  moreover have "n \<le> length xs div c"
    using assms by (simp add: less_eq_div_iff_mult_less_eq)
  ultimately have "length xs div c * c = n * c + (length xs - n * c) div c * c"
    by (metis add_mult_distrib le_add_diff_inverse)
  then show ?thesis by (simp only: take_add)
qed

text \<open>The step: one chunk is taken from the first segment that has a frame.\<close>

lemma consume_take_step:
  assumes "0 < uint rate" and "positive_tempos (segments k)" and "0 < n"
    and "draws (n # ns) (frame_counts nc (segments k))"
  obtains k' c xs where "consume_take rate nc (k, cs, ds) n = Inr (k', cs @ [c], ds @ xs)"
    and "length xs = n * channel_count nc" and "c_num_frames c = word_of_nat n"
    and "c_seq c = next_seq k" and "next_seq k' = next_seq k + 1"
    and "whole_frames nc (segments k) = xs @ whole_frames nc (segments k')"
    and "draws ns (frame_counts nc (segments k'))" and "positive_tempos (segments k')"
    and "sk_id k' = sk_id k" and "requesters k' = requesters k" and "sk_name k' = sk_name k"
    and "sk_format k' = sk_format k"
proof -
  obtain sg sgs where s: "skip_residue nc (segments k) = sg # sgs"
    using draws_skip [OF assms(4)] by (cases "skip_residue nc (segments k)") auto
  have long: "channel_count nc \<le> length (sg_samples sg)"
    using s by (metis hd_dropWhile list.sel(1) list.discI not_less)
  let ?m = "n * channel_count nc"
  let ?f = "length (sg_samples sg) div channel_count nc"
  have "?f \<noteq> 0" using long by (simp add: div_eq_0_iff)
  then have d: "n \<le> ?f" "draws ns ((?f - n) # frame_counts nc sgs)"
    using draws_skip [OF assms(4)] unfolding s by auto
  have m: "?m \<le> length (sg_samples sg)"
    using d(1) by (simp add: less_eq_div_iff_mult_less_eq)
  have pt: "positive_tempos (sg # sgs)" using positive_tempos_skip [OF assms(2), of nc] by (simp add: s)
  then have "uint rate * sint (sg_tempo sg) \<noteq> 0" using assms(1) by (auto simp: positive_tempos_def)
  then obtain b where b: "frames_to_micro_beats n rate (sg_tempo sg) = Some b"
    by (simp add: frames_to_micro_beats_def round_div_def)
  define sg' where "sg' = sg\<lparr>sg_samples := drop ?m (sg_samples sg), sg_begin := sg_begin sg + b\<rparr>"
  define sgs' where "sgs' = (if sg_samples sg' = [] then sgs else sg' # sgs)"
  define k' where "k' = k\<lparr>segments := sgs', next_seq := next_seq k + 1\<rparr>"
  have f': "(length (sg_samples sg) - ?m) div channel_count nc = ?f - n"
    using m by (intro div_minus_mult) simp_all
  show thesis
  proof (rule that [of k' "\<lparr>c_seq = next_seq k, c_num_frames = word_of_nat n,
        c_begin_beats = sg_begin sg, c_tempo = sg_tempo sg\<rparr>" "take ?m (sg_samples sg)"])
    show "consume_take rate nc (k, cs, ds) n = Inr (k', cs @ [\<lparr>c_seq = next_seq k,
        c_num_frames = word_of_nat n, c_begin_beats = sg_begin sg, c_tempo = sg_tempo sg\<rparr>],
        ds @ take ?m (sg_samples sg))"
      using m b by (simp add: consume_take_def s Let_def k'_def sgs'_def sg'_def)
    show "length (take ?m (sg_samples sg)) = ?m" using m by simp
    have "whole_frames nc (segments k) = whole_frames nc (sg # sgs)"
      using whole_frames_skip [of nc "segments k"] by (simp add: s)
    also have "\<dots> = take ?m (sg_samples sg) @ whole_frames nc (sg' # sgs)"
      using take_frames [OF m channel_count_pos] by (simp add: sg'_def)
    also have "whole_frames nc (sg' # sgs) = whole_frames nc (segments k')"
      by (simp add: k'_def sgs'_def)
    finally show "whole_frames nc (segments k) = take ?m (sg_samples sg) @ whole_frames nc (segments k')" .
    have "draws ns (frame_counts nc (sg' # sgs))"
      using d(2) by (simp add: sg'_def f')
    then show "draws ns (frame_counts nc (segments k'))"
      by (cases ns) (auto simp: k'_def sgs'_def)
    show "positive_tempos (segments k')"
      using pt by (auto simp: k'_def sgs'_def sg'_def positive_tempos_def)
  qed (simp_all add: k'_def)
qed

definition same_sink :: "sink \<Rightarrow> sink \<Rightarrow> bool" where
  "same_sink k k' \<longleftrightarrow> sk_id k' = sk_id k \<and> sk_name k' = sk_name k \<and> requesters k' = requesters k
     \<and> sk_format k' = sk_format k"

definition numbered_from :: "u64 \<Rightarrow> chunk list \<Rightarrow> bool" where
  "numbered_from n cs \<longleftrightarrow> map c_seq cs = map (\<lambda>i. n + word_of_nat i) [0..<length cs]"

lemma numbered_from_Nil [simp]: "numbered_from n []"
  by (simp add: numbered_from_def)

lemma numbered_from_append:
  "numbered_from n as \<Longrightarrow> numbered_from (n + word_of_nat (length as)) bs \<Longrightarrow> numbered_from n (as @ bs)"
proof -
  assume a: "numbered_from n as" and b: "numbered_from (n + word_of_nat (length as)) bs"
  have "map (\<lambda>i. n + word_of_nat i) [length as..<length as + length bs]
      = map (\<lambda>i. n + word_of_nat (length as) + word_of_nat i) [0..<length bs]"
  proof -
    have "[length as..<length as + length bs] = map (\<lambda>i. i + length as) [0..<length bs]"
      by (simp add: map_add_upt add.commute)
    then show ?thesis by (simp add: algebra_simps)
  qed
  then show ?thesis
    using a b by (simp add: numbered_from_def upt_add_eq_append [of 0 "length as", simplified])
qed

lemma numbered_from_Cons:
  "c_seq c = n \<Longrightarrow> numbered_from (n + 1) cs \<Longrightarrow> numbered_from n (c # cs)"
  using numbered_from_append [of n "[c]" cs] by (simp add: numbered_from_def)

lemma consume_takes:
  assumes "0 < uint rate" and "positive_tempos (segments k)" and "\<forall>n \<in> set ns. 0 < n"
    and "draws ns (frame_counts nc (segments k))"
  shows "\<exists>k' cs xs. fold_res (consume_take rate nc) (k, cs0, ds0) ns = Inr (k', cs0 @ cs, ds0 @ xs) \<and>
    length xs = sum_list ns * channel_count nc \<and> map c_num_frames cs = map word_of_nat ns \<and>
    numbered_from (next_seq k) cs \<and> next_seq k' = next_seq k + word_of_nat (length cs) \<and>
    whole_frames nc (segments k) = xs @ whole_frames nc (segments k') \<and>
    positive_tempos (segments k') \<and> same_sink k k'"
  using assms(2-4)
proof (induction ns arbitrary: k cs0 ds0)
  case Nil
  then show ?case by (simp add: same_sink_def)
next
  case (Cons n ns)
  have "0 < n" using Cons.prems by simp
  then obtain k1 c xs where 1: "consume_take rate nc (k, cs0, ds0) n = Inr (k1, cs0 @ [c], ds0 @ xs)"
    "length xs = n * channel_count nc" "c_num_frames c = word_of_nat n" "c_seq c = next_seq k"
    "next_seq k1 = next_seq k + 1"
    "whole_frames nc (segments k) = xs @ whole_frames nc (segments k1)"
    "draws ns (frame_counts nc (segments k1))" "positive_tempos (segments k1)" "same_sink k k1"
    using consume_take_step [OF assms(1) Cons.prems(1) _ Cons.prems(3), where cs = cs0 and ds = ds0]
    unfolding same_sink_def by metis
  have "\<forall>n \<in> set ns. 0 < n" using Cons.prems(2) by simp
  from Cons.IH [OF 1(8) this 1(7), of "cs0 @ [c]" "ds0 @ xs"]
  obtain k' cs ys where 2: "fold_res (consume_take rate nc) (k1, cs0 @ [c], ds0 @ xs) ns
      = Inr (k', (cs0 @ [c]) @ cs, (ds0 @ xs) @ ys)"
    "length ys = sum_list ns * channel_count nc" "map c_num_frames cs = map word_of_nat ns"
    "numbered_from (next_seq k1) cs" "next_seq k' = next_seq k1 + word_of_nat (length cs)"
    "whole_frames nc (segments k1) = ys @ whole_frames nc (segments k')"
    "positive_tempos (segments k')" "same_sink k1 k'" by blast
  have "numbered_from (next_seq k) (c # cs)"
    using 1(4,5) 2(4) by (intro numbered_from_Cons) simp_all
  moreover have "same_sink k k'" using 1(9) 2(8) by (simp add: same_sink_def)
  ultimately show ?case
    using 1 2 by (intro exI [of _ k'] exI [of _ "c # cs"] exI [of _ "xs @ ys"])
      (simp add: add_mult_distrib add.assoc)
qed

section \<open>Datagrams\<close>

definition planned_datagram :: "bool \<Rightarrow> u8 \<Rightarrow> nat list \<Rightarrow> bool" where
  "planned_datagram fill nc ns \<longleftrightarrow> ns \<noteq> [] \<and> (\<forall>n \<in> set ns. 0 < n \<and> n \<le> chunk_cap fill) \<and>
     plan_cost fill nc ns \<le> datagram_budget fill \<and>
     datagram_budget fill < plan_cost fill nc ns + record_cost fill + frame_bytes nc"

definition datagram_of :: "bool \<Rightarrow> u8 \<Rightarrow> audio_buffer \<Rightarrow> bool" where
  "datagram_of fill nc b \<longleftrightarrow> (\<exists>ns. planned_datagram fill nc ns \<and>
     map c_num_frames (ab_chunks b) = map word_of_nat ns \<and>
     length (ab_sample_data b) = sum_list ns * frame_bytes nc \<and>
     ab_num_channels b = nc \<and> ab_codec b = CODEC_PCM_I16)"

definition drained :: "bool \<Rightarrow> u8 \<Rightarrow> sink \<Rightarrow> sink \<Rightarrow> audio_buffer list \<Rightarrow> bool" where
  "drained fill nc k k' bs \<longleftrightarrow>
     concat (map buffer_samples bs) @ whole_frames nc (segments k') = whole_frames nc (segments k) \<and>
     numbered_from (next_seq k) (concat (map ab_chunks bs)) \<and>
     next_seq k' = next_seq k + word_of_nat (length (concat (map ab_chunks bs))) \<and>
     (\<forall>b \<in> set bs. datagram_of fill nc b) \<and> positive_tempos (segments k') \<and> same_sink k k'"

lemma drain_datagrams_stop:
  "plan_segments fill nc (datagram_budget fill) (segments k) = (ts, l, x) \<Longrightarrow>
    ts = [] \<or> (\<not> x \<and> record_cost fill + frame_bytes nc \<le> l) \<Longrightarrow>
    drain_datagrams k ch s rate nc fill = Inr (k, [])"
  by (subst drain_datagrams.simps) simp

lemma drain_datagrams_emit:
  "plan_segments fill nc (datagram_budget fill) (segments k) = (ts, l, x) \<Longrightarrow>
    ts \<noteq> [] \<Longrightarrow> x \<or> l < record_cost fill + frame_bytes nc \<Longrightarrow>
    fold_res (consume_take rate nc) (k, [], []) ts = Inr (k1, cs, ds) \<Longrightarrow>
    drain_datagrams k1 ch s rate nc fill = Inr (k', bs) \<Longrightarrow>
    drain_datagrams k ch s rate nc fill =
      Inr (k', \<lparr>ab_channel = ch, ab_session = s, ab_chunks = cs, ab_codec = CODEC_PCM_I16,
        ab_sample_rate = rate, ab_num_channels = nc, ab_sample_data = encode_samples ds\<rparr> # bs)"
  by (subst drain_datagrams.simps) auto

lemma drain_datagrams_spec:
  assumes "0 < uint rate" and "positive_tempos (segments k)"
  shows "\<exists>k' bs. drain_datagrams k ch s rate nc fill = Inr (k', bs) \<and> drained fill nc k k' bs \<and>
    drain_datagrams k' ch s rate nc fill = Inr (k', [])"
  using assms(2)
proof (induction "pending_samples (segments k)" arbitrary: k rule: less_induct)
  case less
  obtain ts l x where p: "plan_segments fill nc (datagram_budget fill) (segments k) = (ts, l, x)"
    by (metis prod_cases3)
  note ps = plan_segments_spec [OF p]
  show ?case
  proof (cases "ts = [] \<or> (\<not> x \<and> record_cost fill + frame_bytes nc \<le> l)")
    case True
    then have "drain_datagrams k ch s rate nc fill = Inr (k, [])" by (rule drain_datagrams_stop [OF p])
    then show ?thesis using less.prems by (auto simp: drained_def same_sink_def)
  next
    case False
    then have ts: "ts \<noteq> []" and x: "x \<or> l < record_cost fill + frame_bytes nc" by auto
    have pos: "\<forall>n \<in> set ts. 0 < n" using ps by simp
    obtain k1 cs xs where f: "fold_res (consume_take rate nc) (k, [], []) ts = Inr (k1, cs, xs)"
      "length xs = sum_list ts * channel_count nc" "map c_num_frames cs = map word_of_nat ts"
      "numbered_from (next_seq k) cs" "next_seq k1 = next_seq k + word_of_nat (length cs)"
      "whole_frames nc (segments k) = xs @ whole_frames nc (segments k1)"
      "positive_tempos (segments k1)" "same_sink k k1"
      using consume_takes [OF assms(1) less.prems pos, of nc "[]" "[]"] ps by auto
    have "0 < sum_list ts" using ts pos by (cases ts) auto
    then have "0 < sum_list ts * channel_count nc" by simp
    then have "pending_samples (segments k1) < pending_samples (segments k)"
      using consume_takes_pending [OF f(1)] unfolding fst_conv by linarith
    from less.hyps [OF this f(7)] obtain k' bs where
      r: "drain_datagrams k1 ch s rate nc fill = Inr (k', bs)" "drained fill nc k1 k' bs"
        "drain_datagrams k' ch s rate nc fill = Inr (k', [])" by blast
    define b where "b = \<lparr>ab_channel = ch, ab_session = s, ab_chunks = cs, ab_codec = CODEC_PCM_I16,
        ab_sample_rate = rate, ab_num_channels = nc, ab_sample_data = encode_samples xs\<rparr>"
    have e: "drain_datagrams k ch s rate nc fill = Inr (k', b # bs)"
      unfolding b_def by (rule drain_datagrams_emit [OF p ts x f(1) r(1)])
    have l: "l < record_cost fill + frame_bytes nc" "l + plan_cost fill nc ts = datagram_budget fill"
      using x ps by auto
    then have "planned_datagram fill nc ts"
      using ts ps unfolding planned_datagram_def by linarith
    then have "datagram_of fill nc b"
      using f(2,3) by (auto simp: datagram_of_def b_def frame_bytes_def)
    moreover have "buffer_samples b = xs" by (simp add: buffer_samples_def b_def samples_of_encode)
    moreover have "ab_chunks b = cs" by (simp add: b_def)
    ultimately have "drained fill nc k k' (b # bs)"
      using r(2) f(4-8) unfolding drained_def same_sink_def
      by (simp add: numbered_from_append add.assoc)
    with e r(3) show ?thesis by blast
  qed
qed

section \<open>Sizes\<close>

lemma planned_sum_bound:
  assumes "planned_datagram fill nc ns"
  shows "sum_list ns \<le> 574" and "n \<in> set ns \<Longrightarrow> n \<le> 574"
proof -
  have "sum_list ns * 2 \<le> sum_list ns * frame_bytes nc"
    by (intro mult_left_mono) (simp_all add: frame_bytes_def Suc_le_eq)
  also have "\<dots> \<le> datagram_budget fill"
    using assms by (simp add: planned_datagram_def plan_cost_def)
  also have "\<dots> \<le> 1148"
    by (simp add: datagram_budget_def MAX_PAYLOAD_def AUDIO_FIXED_OVERHEAD_def SAMPLE_BYTE_CAP_def)
  finally show 1: "sum_list ns \<le> 574" by simp
  show "n \<le> 574" if "n \<in> set ns" using member_le_sum_list [OF that] 1 by simp
qed

lemma sum_of_frames:
  "map c_num_frames cs = map word_of_nat ns \<Longrightarrow> \<forall>n \<in> set ns. n \<le> 574 \<Longrightarrow>
    sum_list (map (\<lambda>c. ucast (c_num_frames c) :: u32) cs) = word_of_nat (sum_list ns)"
proof (induction cs arbitrary: ns)
  case (Cons c cs)
  then obtain n ms where ns: "ns = n # ms" "c_num_frames c = word_of_nat n"
    "map c_num_frames cs = map word_of_nat ms" by (cases ns) auto
  have "(ucast (word_of_nat n :: u16) :: u32) = word_of_nat n"
    using Cons.prems(2) by (simp add: ns unsigned_of_nat take_bit_nat_eq_self)
  with Cons ns show ?case by simp
qed simp

lemma datagram_facts:
  assumes "datagram_of fill nc b"
  shows "nc \<noteq> 0 \<Longrightarrow> consistent_buffer b"
    and "ab_chunks b \<noteq> []"
    and "c \<in> set (ab_chunks b) \<Longrightarrow> 0 < unat (c_num_frames c) \<and> unat (c_num_frames c) \<le> chunk_cap fill"
    and "record_cost fill * length (ab_chunks b) + length (ab_sample_data b) \<le> datagram_budget fill"
    and "datagram_budget fill <
      record_cost fill * length (ab_chunks b) + length (ab_sample_data b) + record_cost fill + frame_bytes nc"
proof -
  obtain ns where ns: "planned_datagram fill nc ns" "map c_num_frames (ab_chunks b) = map word_of_nat ns"
    "length (ab_sample_data b) = sum_list ns * frame_bytes nc" "ab_num_channels b = nc"
    "ab_codec b = CODEC_PCM_I16"
    using assms by (auto simp: datagram_of_def)
  have bound: "\<forall>n \<in> set ns. n \<le> 574" "sum_list ns \<le> 574" using planned_sum_bound [OF ns(1)] by auto
  have len: "length (ab_chunks b) = length ns" using ns(2) by (metis length_map)
  then show ne: "ab_chunks b \<noteq> []" using ns(1) by (auto simp: planned_datagram_def)
  show "consistent_buffer b" if "nc \<noteq> 0"
  proof -
    have "unat (total_frames b) = sum_list ns"
      using bound sum_of_frames [OF ns(2)] by (simp add: total_frames_def unat_of_nat take_bit_nat_eq_self)
    moreover have "channel_count nc = unat nc"
      using that by (simp add: channel_count_def max_def unat_eq_zero not_less_eq_eq)
    ultimately show ?thesis using ne ns by (simp add: consistent_buffer_def frame_bytes_def)
  qed
  show "0 < unat (c_num_frames c) \<and> unat (c_num_frames c) \<le> chunk_cap fill" if "c \<in> set (ab_chunks b)"
  proof -
    have "c_num_frames c \<in> word_of_nat ` set ns" using that ns(2) by (metis image_eqI image_set)
    then obtain n where n: "n \<in> set ns" "c_num_frames c = word_of_nat n" by blast
    then have "unat (c_num_frames c) = n"
      using bound(1) by (auto intro!: unat_word_of_nat_u16)
    with n(1) ns(1) show ?thesis by (simp add: planned_datagram_def)
  qed
  show "record_cost fill * length (ab_chunks b) + length (ab_sample_data b) \<le> datagram_budget fill"
    "datagram_budget fill <
      record_cost fill * length (ab_chunks b) + length (ab_sample_data b) + record_cost fill + frame_bytes nc"
    using ns(1,3) by (simp_all add: len planned_datagram_def plan_cost_def)
qed

lemmas sink_sizes = datagram_budget_def record_cost_def chunk_cap_def MAX_PAYLOAD_def
  AUDIO_FIXED_OVERHEAD_def SAMPLE_BYTE_CAP_def CHUNK_RECORD_SIZE_def V1_MAX_CHUNK_FRAMES_def

lemma length_audio_buffer_datagram:
  "length (encode_audio (new_audio_frame n (AudioBuffer b))) =
    48 + 26 * length (ab_chunks b) + length (ab_sample_data b)"
  by (simp add: length_encode_audio new_audio_frame_def audio_payload_def AUDIO_FIXED_OVERHEAD_def
      CHUNK_RECORD_SIZE_def)

lemma planned_length: "planned_datagram fill nc ns \<Longrightarrow> length ns \<le> sum_list ns"
proof -
  assume "planned_datagram fill nc ns"
  then have "\<forall>n \<in> set ns. 0 < n" by (simp add: planned_datagram_def)
  then show ?thesis by (induction ns) auto
qed

lemma datagram_chunks: "datagram_of fill nc b \<Longrightarrow> length (ab_chunks b) \<le> 574"
  unfolding datagram_of_def using planned_length planned_sum_bound(1) by (metis length_map order_trans)

lemma datagram_short:
  assumes "datagram_of fill nc b"
  shows "length (encode_audio (new_audio_frame n (AudioBuffer b))) \<le> 16120"
proof -
  have "length (ab_chunks b) \<le> 574" by (rule datagram_chunks [OF assms])
  moreover have "length (ab_sample_data b) \<le> 1148"
    using datagram_facts(4) [OF assms] by (simp add: sink_sizes split: if_splits)
  ultimately show ?thesis by (simp add: length_audio_buffer_datagram)
qed

lemma datagram_no_channels:
  assumes "datagram_of fill nc b" and "nc = 0"
  shows "\<not> consistent_buffer b"
proof -
  obtain ns where ns: "planned_datagram fill nc ns" "length (ab_sample_data b) = sum_list ns * frame_bytes nc"
    "ab_num_channels b = nc"
    using assms(1) by (auto simp: datagram_of_def)
  then have "0 < sum_list ns" by (cases ns) (auto simp: planned_datagram_def)
  then have "0 < length (ab_sample_data b)" by (simp add: ns(2))
  then show ?thesis using ns(3) assms(2) by (simp add: consistent_buffer_def)
qed

section \<open>Properties\<close>

text \<open>Draining a sink never panics when the sample rate is not zero. The frames of the datagrams,
  followed by the frames that stay pending, are exactly the frames that were pending, in order; the
  chunks are numbered consecutively from the sink's next sequence number; and what stays is less than
  a datagram: draining again sends nothing.\<close>

theorem drain_conserves_frames:
  assumes "0 < uint rate" and "positive_tempos (segments k)"
  shows "\<exists>k' bs. drain_datagrams k ch s rate nc fill = Inr (k', bs) \<and>
    concat (map buffer_samples bs) @ whole_frames nc (segments k') = whole_frames nc (segments k) \<and>
    map c_seq (concat (map ab_chunks bs)) =
      map (\<lambda>i. next_seq k + word_of_nat i) [0..<length (concat (map ab_chunks bs))] \<and>
    next_seq k' = next_seq k + word_of_nat (length (concat (map ab_chunks bs))) \<and>
    drain_datagrams k' ch s rate nc fill = Inr (k', [])"
  using drain_datagrams_spec [OF assms, of ch s nc fill]
  by (auto simp: drained_def numbered_from_def)

definition example_sink :: sink where
  "example_sink = \<lparr>sk_id = Id 1, sk_name = [], requesters = [(Id 2, 9000000)], next_seq = 1,
     segments = [\<lparr>sg_begin = 0, sg_tempo = 500000, sg_samples = replicate 600 0\<rparr>],
     sk_format = Some (48000, 1)\<rparr>"

lemma drain_conserves_frames_witness:
  "\<exists>k' bs. drain_datagrams example_sink (Id 1) (Id 3) 48000 1 False = Inr (k', bs) \<and>
    concat (map buffer_samples bs) @ whole_frames 1 (segments k') = whole_frames 1 (segments example_sink) \<and>
    map c_seq (concat (map ab_chunks bs)) =
      map (\<lambda>i. next_seq example_sink + word_of_nat i) [0..<length (concat (map ab_chunks bs))] \<and>
    next_seq k' = next_seq example_sink + word_of_nat (length (concat (map ab_chunks bs))) \<and>
    drain_datagrams k' (Id 1) (Id 3) 48000 1 False = Inr (k', [])"
  by (rule drain_conserves_frames) (simp_all add: example_sink_def positive_tempos_def)

text \<open>C25: Every datagram a sink sends is full: no further chunk record and frame would fit its budget. With fill
  sizing it has at most 1196 bytes and chunks of at most 512 frames; with reference sizing it has at most 502 bytes of
  samples, and 26 bytes more for each chunk, of which there may be as many as there are segments. Its encoding
  is short enough for UDP, and the receiver that gets all of it decodes it to exactly the buffer that was
  sent, unless the channel count is 0, in which case it is rejected.\<close>

theorem drain_datagram_limits:
  assumes "0 < uint rate" and "positive_tempos (segments k)"
    and "drain_datagrams k ch s rate nc fill = Inr (k', bs)" and "b \<in> set bs"
  shows "let d = encode_audio (new_audio_frame n (AudioBuffer b)) in
    length d = 48 + 26 * length (ab_chunks b) + length (ab_sample_data b) \<and> length d < 2 ^ 16 \<and>
    (if nc = 0 then \<exists>err. decode_audio d = Inl err else decode_audio d = Inr (new_audio_frame n (AudioBuffer b))) \<and>
    (if fill then length d \<le> 20 + MAX_PAYLOAD \<and> 20 + MAX_PAYLOAD < length d + 26 + frame_bytes nc \<and>
        (\<forall>c \<in> set (ab_chunks b). unat (c_num_frames c) \<le> V1_MAX_CHUNK_FRAMES)
     else length (ab_sample_data b) \<le> SAMPLE_BYTE_CAP \<and>
        SAMPLE_BYTE_CAP < length (ab_sample_data b) + frame_bytes nc)"
proof -
  have d: "datagram_of fill nc b"
    using drain_datagrams_spec [OF assms(1,2), of ch s nc fill] assms(3,4)
    by (auto simp: drained_def)
  note f = datagram_facts [OF d]
  let ?f = "new_audio_frame n (AudioBuffer b)"
  have len: "length (encode_audio ?f) < 2 ^ 16"
    by (rule order.strict_trans1 [OF datagram_short [OF d]]) simp
  have nc: "decode_audio (encode_audio ?f) = Inr ?f" if "nc \<noteq> 0"
    using f(1) that len by (intro decode_encode_audio) (simp add: sendable_def new_audio_frame_def)
  have z: "\<exists>err. decode_audio (encode_audio ?f) = Inl err" if "nc = 0"
    using datagram_no_channels [OF d that] len by (intro decode_audio_rejects [of _ b]) (simp_all add: new_audio_frame_def)
  show ?thesis
    using f(3,4,5) len nc z by (cases fill) (auto simp: Let_def length_audio_buffer_datagram sink_sizes)
qed

lemma drain_emits:
  "plan_segments fill nc (datagram_budget fill) (segments k) = (ts, l, x) \<Longrightarrow>
    ts \<noteq> [] \<Longrightarrow> x \<or> l < record_cost fill + frame_bytes nc \<Longrightarrow>
    drain_datagrams k ch s rate nc fill = Inr (k', bs) \<Longrightarrow> bs \<noteq> []"
  by (subst (asm) drain_datagrams.simps) (auto simp: bind_res_Inr)

lemma drain_datagram_limits_witness:
  "\<exists>k' b bs. drain_datagrams example_sink (Id 1) (Id 3) 48000 1 True = Inr (k', b # bs) \<and>
    decode_audio (encode_audio (new_audio_frame (Id 9) (AudioBuffer b))) = Inr (new_audio_frame (Id 9) (AudioBuffer b)) \<and>
    length (encode_audio (new_audio_frame (Id 9) (AudioBuffer b))) \<le> 1196"
proof -
  have pos: "positive_tempos (segments example_sink)"
    by (simp add: example_sink_def positive_tempos_def)
  have rate: "0 < uint (48000 :: u32)" by simp
  obtain k' bs where d: "drain_datagrams example_sink (Id 1) (Id 3) 48000 1 True = Inr (k', bs)"
    using drain_datagrams_spec [OF rate pos] by blast
  have "plan_segments True 1 (datagram_budget True) (segments example_sink) = ([512, 36], 0, True)"
    by (simp add: example_sink_def sink_sizes channel_count_def frame_bytes_def plan_segment.simps)
  then have "bs \<noteq> []" using d by (auto dest: drain_emits)
  then obtain b bs' where b: "bs = b # bs'" by (cases bs) auto
  with drain_datagram_limits [OF rate pos d, of b "Id 9"] d show ?thesis
    by (auto simp: MAX_PAYLOAD_def Let_def)
qed

definition scattered_sink :: sink where
  "scattered_sink = \<lparr>sk_id = Id 1, sk_name = [], requesters = [(Id 2, 9000000)], next_seq = 1,
     segments = replicate 252 \<lparr>sg_begin = 0, sg_tempo = 500000, sg_samples = [0]\<rparr>,
     sk_format = Some (48000, 1)\<rparr>"

lemma plan_single_frames:
  "plan_segments False 1 l (replicate m \<lparr>sg_begin = 0, sg_tempo = 500000, sg_samples = [0]\<rparr>)
    = (replicate (min m (l div 2)) 1, l - 2 * min m (l div 2), l div 2 < m)"
proof (induction m arbitrary: l)
  case (Suc m)
  have one: "plan_segment False 1 l 1 = (if l < 2 then ([], l, True) else ([1], l - 2, False))"
    by (simp add: plan_segment.simps [of _ _ l] plan_segment_none sink_sizes channel_count_def
        frame_bytes_def Let_def Suc_le_eq div_greater_zero_iff min_def not_less)
  have "l div 2 = Suc ((l - 2) div 2)" if "2 \<le> l" using that by (simp add: le_div_geq)
  then show ?case using one Suc [of "l - 2"]
    by (cases "l < 2") (simp_all add: channel_count_def)
qed simp

text \<open>Reference sizing does not count chunk records: material that arrives in many short runs (here
  252 runs of one sample) is packed into a datagram beyond \<open>MAX_MESSAGE_SIZE\<close>, the bound that the encoder
  asserts in a debug build and that keeps datagrams unfragmented, and beyond the 2048 bytes that a receiver takes: what
  it gets of the datagram does not decode.\<close>

theorem reference_sizing_exceeds_limit:
  "\<exists>k' b bs. drain_datagrams scattered_sink (Id 1) (Id 3) 48000 1 False = Inr (k', b # bs) \<and>
    AUDIO_MAX_MESSAGE_SIZE < length (encode_audio (new_audio_frame n (AudioBuffer b))) \<and>
    (\<exists>err. decode_audio (take 2048 (encode_audio (new_audio_frame n (AudioBuffer b)))) = Inl err)"
proof -
  have pos: "positive_tempos (segments scattered_sink)"
    by (simp add: scattered_sink_def positive_tempos_def)
  have rate: "0 < uint (48000 :: u32)" by simp
  define ts where "ts = replicate 251 (1 :: nat)"
  have p: "plan_segments False 1 (datagram_budget False) (segments scattered_sink) = (ts, 0, True)"
    using plan_single_frames [of 502 252] by (simp add: scattered_sink_def sink_sizes ts_def)
  obtain k1 cs xs where f: "fold_res (consume_take 48000 1) (scattered_sink, [], []) ts = Inr (k1, cs, xs)"
    "length xs = sum_list ts * channel_count 1" "map c_num_frames cs = map word_of_nat ts"
    "positive_tempos (segments k1)"
    using consume_takes [OF rate pos, of ts 1 "[]" "[]"] plan_segments_spec [OF p] by auto
  obtain k' bs where r: "drain_datagrams k1 (Id 1) (Id 3) 48000 1 False = Inr (k', bs)"
    using drain_datagrams_spec [OF rate f(4)] by blast
  have len: "length cs = 251" using f(3) by (metis length_map length_replicate ts_def)
  define b where "b = \<lparr>ab_channel = Id 1, ab_session = Id 3, ab_chunks = cs, ab_codec = CODEC_PCM_I16,
    ab_sample_rate = 48000, ab_num_channels = 1, ab_sample_data = encode_samples xs\<rparr>"
  have "drain_datagrams scattered_sink (Id 1) (Id 3) 48000 1 False = Inr (k', b # bs)"
    unfolding b_def by (rule drain_datagrams_emit [OF p _ _ f(1) r]) (simp_all add: ts_def)
  moreover have "\<exists>err. decode_audio (take 2048 (encode_audio (new_audio_frame n (AudioBuffer b)))) = Inl err"
    by (rule cut_buffer_rejected [of _ b]) (simp_all add: new_audio_frame_def b_def len)
  moreover have "AUDIO_MAX_MESSAGE_SIZE < length (encode_audio (new_audio_frame n (AudioBuffer b)))"
    by (simp add: length_audio_buffer_datagram b_def len AUDIO_MAX_MESSAGE_SIZE_def)
  ultimately show ?thesis by blast
qed

end
