(* ===== verification/Channel_Feed.thy ===== *)
theory Channel_Feed
  imports Audio_Data
begin

text \<open>
  What a subscription and an announcement guarantee: a delivered buffer arrives whole and in order,
  the loss counter is the number of sequence numbers that did not arrive, the inbox stays bounded, and
  an announcement round lists every channel once within the payload budget.
\<close>

section \<open>Sequence numbers\<close>

definition expect_all :: "u64 list \<Rightarrow> source \<Rightarrow> source" where
  "expect_all qs s = foldl (\<lambda>s q. expect_seq q s) s qs"

lemma expect_all_simps [simp]:
  "expect_all [] s = s"
  "expect_all (q # qs) s = expect_all qs (expect_seq q s)"
  "expect_all (qs @ rs) s = expect_all rs (expect_all qs s)"
  by (simp_all add: expect_all_def)

lemma expect_seq_frame [frame_simps]:
  "inbox (expect_seq q s) = inbox s" "so_quantum (expect_seq q s) = so_quantum s"
  "last_request_at (expect_seq q s) = last_request_at s"
  by (simp_all add: expect_seq_def split: option.splits)

lemma expect_seq_inbox [simp]:
  "expect_seq q (s\<lparr>inbox := i\<rparr>) = (expect_seq q s)\<lparr>inbox := i\<rparr>"
  "expect_seq q (s\<lparr>last_buffer_at := t\<rparr>) = (expect_seq q s)\<lparr>last_buffer_at := t\<rparr>"
  by (simp_all add: expect_seq_def split: option.splits)

lemma expect_all_frame [frame_simps]:
  "inbox (expect_all qs s) = inbox s" "so_quantum (expect_all qs s) = so_quantum s"
  "last_request_at (expect_all qs s) = last_request_at s"
  by (induction qs arbitrary: s) (simp_all add: frame_simps)

lemma expect_all_inbox [simp]:
  "expect_all qs (s\<lparr>inbox := i\<rparr>) = (expect_all qs s)\<lparr>inbox := i\<rparr>"
  "expect_all qs (s\<lparr>last_buffer_at := t\<rparr>) = (expect_all qs s)\<lparr>last_buffer_at := t\<rparr>"
  by (induction qs arbitrary: s) simp_all

text \<open>\<open>counted first seen s\<close>: the source has taken the sequence numbers \<open>seen\<close>, all from \<open>first\<close> on,
  and its counters are exact.\<close>

definition counted :: "nat \<Rightarrow> nat set \<Rightarrow> source \<Rightarrow> bool" where
  "counted first seen s \<longleftrightarrow> (\<exists>ex. next_seq_expected s = Some ex \<and> seen \<subseteq> {first..<unat ex} \<and>
     unat ex - 1 \<in> seen \<and> unat (lost_chunks s) = unat ex - first - card seen)"

lemma countedE:
  assumes "counted first seen s"
  obtains ex where "next_seq_expected s = Some ex" and "seen \<subseteq> {first..<unat ex}"
    and "unat ex - 1 \<in> seen" and "unat (lost_chunks s) = unat ex - first - card seen"
  using assms unfolding counted_def by (elim exE conjE)

lemma unat_Suc_u64: "unat (q :: u64) < 2 ^ 64 - 1 \<Longrightarrow> unat (q + 1) = unat q + 1"
  by (simp add: unat_word_ariths)

lemma counted_first:
  assumes "next_seq_expected s = None" and "lost_chunks s = 0" and "unat q < 2 ^ 64 - 1"
  shows "counted (unat q) {unat q} (expect_seq q s)"
  using assms by (auto simp: counted_def expect_seq_def unat_Suc_u64)

lemma counted_step:
  assumes "counted first seen s" and "unat q < 2 ^ 64 - 1" and "first \<le> unat q" and "unat q \<notin> seen"
  shows "counted first (insert (unat q) seen) (expect_seq q s)"
proof -
  obtain ex where ex: "next_seq_expected s = Some ex" "seen \<subseteq> {first..<unat ex}"
    "unat ex - 1 \<in> seen" "unat (lost_chunks s) = unat ex - first - card seen"
    using assms(1) by (auto simp: counted_def)
  have fin: "finite seen" using ex(2) by (rule finite_subset) simp
  have card: "card seen \<le> unat ex - first" using card_mono [OF _ ex(2)] by simp
  have fe: "first < unat ex" using ex(2,3) by auto
  show ?thesis
  proof (cases "ex \<le> q")
    case True
    then have le: "unat ex \<le> unat q" by (simp add: word_le_nat_alt)
    then have gap: "unat (q - ex) = unat q - unat ex" by (simp add: unat_sub word_le_nat_alt)
    have "unat (lost_chunks s + (q - ex)) = unat (lost_chunks s) + unat (q - ex)"
      by (subst unat_add_lem [symmetric]) (use gap ex(4) assms(2) le fe in simp)
    then have "unat (lost_chunks s + (q - ex)) = unat q - first - card seen"
      using gap ex(4) le card fe by simp
    then show ?thesis
      using True ex assms le fin by (fastforce simp: counted_def expect_seq_def unat_Suc_u64)
  next
    case False
    then have lt: "unat q < unat ex" by (simp add: word_le_nat_alt)
    then have sub: "insert (unat q) seen \<subseteq> {first..<unat ex}" using ex(2) assms(3) by auto
    have "card (insert (unat q) seen) \<le> unat ex - first" using card_mono [OF _ sub] by simp
    then have c: "card seen + 1 \<le> unat ex - first" using fin assms(4) by simp
    then have pos: "0 < unat (lost_chunks s)" using ex(4) by simp
    then have "lost_chunks s \<noteq> 0" by auto
    moreover from this have "unat (lost_chunks s - 1) = unat (lost_chunks s) - 1"
      by (rule unat_minus_one)
    ultimately show ?thesis
      using False ex sub assms(4) fin by (simp add: counted_def expect_seq_def)
  qed
qed

lemma counted_all:
  assumes "counted first seen s" and "\<forall>q \<in> set qs. unat q < 2 ^ 64 - 1 \<and> first \<le> unat q \<and> unat q \<notin> seen"
    and "distinct qs"
  shows "counted first (seen \<union> unat ` set qs) (expect_all qs s)"
  using assms
proof (induction qs arbitrary: seen s)
  case (Cons q qs)
  have "counted first (insert (unat q) seen) (expect_seq q s)"
    using Cons.prems by (intro counted_step) simp_all
  then have "counted first (insert (unat q) seen \<union> unat ` set qs) (expect_all qs (expect_seq q s))"
    using Cons.prems by (intro Cons.IH) (auto simp flip: word_unat_eq_iff)
  then show ?case by simp
qed simp

section \<open>Delivery\<close>

definition received_of :: "audio_buffer \<Rightarrow> i64 \<Rightarrow> i16 list \<Rightarrow> chunk \<Rightarrow> received_chunk" where
  "received_of buf delta xs c = \<lparr>rc_samples = xs,
     rc_begin_app_beat = f64_div (f64_of_int (sint (c_begin_beats c + delta))) (Fin 1000000),
     rc_tempo = c_tempo c, rc_sample_rate = ab_sample_rate buf, rc_channels = ab_num_channels buf,
     rc_seq = c_seq c\<rparr>"

text \<open>The cut of the samples along the chunks; past the end of the samples a chunk is short.\<close>

primrec cut_samples :: "nat \<Rightarrow> i16 list \<Rightarrow> chunk list \<Rightarrow> i16 list list" where
  "cut_samples k xs [] = []"
| "cut_samples k xs (c # cs) =
     take (unat (c_num_frames c) * k) xs # cut_samples k (drop (unat (c_num_frames c) * k) xs) cs"

lemma length_cut_samples [simp]: "length (cut_samples k xs cs) = length cs"
  by (induction cs arbitrary: xs) simp_all

lemma deliver_chunks_eq:
  assumes "pos \<le> length samples"
  shows "deliver_chunks buf delta samples pos cs s =
    (expect_all (map c_seq cs) s)\<lparr>inbox := inbox s @
      map2 (received_of buf delta)
        (cut_samples (channel_count (ab_num_channels buf)) (drop pos samples) cs) cs\<rparr>"
  using assms
proof (induction cs arbitrary: pos s)
  case (Cons c cs)
  let ?m = "unat (c_num_frames c) * channel_count (ab_num_channels buf)"
  let ?stop = "min (pos + ?m) (length samples)"
  have t: "take (?stop - pos) (drop pos samples) = take ?m (drop pos samples)"
    using Cons.prems by (simp add: min_def)
  have d: "drop ?stop samples = drop ?m (drop pos samples)"
    using Cons.prems by (simp add: min_def add.commute)
  show ?case
    using Cons.IH [of ?stop]
    by (simp add: Let_def t d frame_simps received_of_def)
qed simp

lemma cut_samples_concat:
  "sum_list (map (\<lambda>c. unat (c_num_frames c)) cs) * k = length xs \<Longrightarrow> concat (cut_samples k xs cs) = xs"
  by (induction cs arbitrary: xs) (simp_all add: add_mult_distrib)

text \<open>The frame counts of a consistent buffer, as natural numbers: the decoder bounds the datagram, so
  the sum does not wrap around.\<close>

lemma total_frames_nat:
  assumes "sum_list (map (\<lambda>c. unat (c_num_frames c)) (ab_chunks b)) < 2 ^ 32"
  shows "unat (total_frames b) = sum_list (map (\<lambda>c. unat (c_num_frames c)) (ab_chunks b))"
proof -
  have "sum_list (map (\<lambda>c. ucast (c_num_frames c) :: u32) cs)
      = word_of_nat (sum_list (map (\<lambda>c. unat (c_num_frames c)) cs))" for cs
    by (induction cs) simp_all
  from this [of "ab_chunks b"] show ?thesis
    unfolding total_frames_def by (simp only: unat_word_of_nat_u32 [OF assms])
qed

lemma frames_sum_bound:
  "sum_list (map (\<lambda>c. unat (c_num_frames c)) cs) \<le> length cs * 65535"
proof (induction cs)
  case (Cons c cs)
  have "unat (c_num_frames c) \<le> 65535" using unsigned_less [of "c_num_frames c", where ?'a = nat] by simp
  with Cons show ?case by simp
qed simp

lemma deliver_Some:
  assumes "deliver s buf l t = Some s'"
  obtains delta where "session_offset l (so_quantum s) = Some delta"
    and "inbox s' = (let i = inbox s @ map2 (received_of buf delta)
      (cut_samples (channel_count (ab_num_channels buf)) (buffer_samples buf) (ab_chunks buf))
      (ab_chunks buf) in drop (length i - INBOX_LIMIT) i)"
    and "next_seq_expected s' = next_seq_expected (expect_all (map c_seq (ab_chunks buf)) s)"
    and "lost_chunks s' = lost_chunks (expect_all (map c_seq (ab_chunks buf)) s)"
    and "last_buffer_at s' = t" and "so_quantum s' = so_quantum s"
proof -
  obtain delta where d: "session_offset l (so_quantum s) = Some delta"
    and s': "s' = (let s = deliver_chunks buf delta (buffer_samples buf) 0 (ab_chunks buf) s
      in s\<lparr>inbox := drop (length (inbox s) - INBOX_LIMIT) (inbox s), last_buffer_at := t\<rparr>)"
    using assms by (auto simp: deliver_def)
  show thesis by (rule that [OF d]) (simp_all add: s' deliver_chunks_eq frame_simps Let_def)
qed

text \<open>The buffers of a subscription, delivered one after the other.\<close>

fun deliver_all :: "source \<Rightarrow> audio_buffer list \<Rightarrow> timeline \<Rightarrow> i64 \<Rightarrow> source option" where
  "deliver_all s [] l t = Some s"
| "deliver_all s (b # bs) l t = (case deliver s b l t of None \<Rightarrow> None | Some s \<Rightarrow> deliver_all s bs l t)"

lemma expect_seq_cong:
  "next_seq_expected s = next_seq_expected s' \<Longrightarrow> lost_chunks s = lost_chunks s' \<Longrightarrow>
    next_seq_expected (expect_seq q s) = next_seq_expected (expect_seq q s') \<and>
    lost_chunks (expect_seq q s) = lost_chunks (expect_seq q s')"
  by (simp add: expect_seq_def split: option.splits)

lemma expect_all_cong:
  "next_seq_expected s = next_seq_expected s' \<Longrightarrow> lost_chunks s = lost_chunks s' \<Longrightarrow>
    next_seq_expected (expect_all qs s) = next_seq_expected (expect_all qs s') \<and>
    lost_chunks (expect_all qs s) = lost_chunks (expect_all qs s')"
proof (induction qs arbitrary: s s')
  case (Cons q qs)
  from expect_seq_cong [OF Cons.prems] Cons.IH [of "expect_seq q s" "expect_seq q s'"]
  show ?case by (simp only: expect_all_simps)
qed simp

lemma deliver_all_counters:
  "deliver_all s bs l t = Some s' \<Longrightarrow>
    next_seq_expected s' = next_seq_expected (expect_all (map c_seq (concat (map ab_chunks bs))) s) \<and>
    lost_chunks s' = lost_chunks (expect_all (map c_seq (concat (map ab_chunks bs))) s)"
proof (induction bs arbitrary: s)
  case (Cons b bs)
  from Cons.prems obtain s1 where 1: "deliver s b l t = Some s1" "deliver_all s1 bs l t = Some s'"
    by (auto split: option.splits)
  from deliver_Some [OF 1(1)]
  have c: "next_seq_expected s1 = next_seq_expected (expect_all (map c_seq (ab_chunks b)) s)"
    "lost_chunks s1 = lost_chunks (expect_all (map c_seq (ab_chunks b)) s)"
    by metis+
  from Cons.IH [OF 1(2)] expect_all_cong [OF c, of "map c_seq (concat (map ab_chunks bs))"]
  show ?case by simp
qed simp

section \<open>Announcement rounds\<close>

lemma take_channels_spec:
  assumes "take_channels enc_len taken remaining = (taken', rest)"
  shows "taken' @ rest = taken @ remaining"
    and "taken \<noteq> [] \<Longrightarrow> enc_len taken \<le> 20 + MAX_PAYLOAD \<Longrightarrow> enc_len taken' \<le> 20 + MAX_PAYLOAD"
  using assms
  by (induction enc_len taken remaining rule: take_channels.induct) (auto simp: Let_def split: if_splits)

lemma take_channels_len:
  assumes "take_channels enc_len [] remaining = (taken, rest)" and "enc_len [] \<le> 20 + MAX_PAYLOAD"
    and "\<And>ch. ch \<in> set remaining \<Longrightarrow> enc_len [ch] \<le> 20 + MAX_PAYLOAD"
  shows "enc_len taken \<le> 20 + MAX_PAYLOAD"
proof (cases remaining)
  case Nil
  with assms show ?thesis by simp
next
  case (Cons ch chs)
  with assms(1) have "take_channels enc_len [ch] chs = (taken, rest)" by (simp add: Let_def)
  then show ?thesis using take_channels_spec(2) [of enc_len "[ch]" chs] assms(3) Cons by simp
qed

lemma take_channels_nonempty:
  assumes "take_channels enc_len [] (ch # remaining) = (taken, rest)"
  shows "taken \<noteq> []"
proof -
  have "take_channels enc_len acc chs = (ts, r) \<Longrightarrow> acc \<noteq> [] \<Longrightarrow> ts \<noteq> []" for acc chs ts r
    by (induction enc_len acc chs rule: take_channels.induct) (auto simp: Let_def split: if_splits)
  with assms show ?thesis by (auto simp: Let_def split: if_splits)
qed

text \<open>The messages of a round, as the lists of channels they carry.\<close>

definition round_parts :: "node_id \<Rightarrow> session_id \<Rightarrow> bytes \<Rightarrow> i64 \<Rightarrow> bool \<Rightarrow> channel_info list list \<Rightarrow> bytes list" where
  "round_parts n s name t first parts =
     (case parts of [] \<Rightarrow> []
      | p # ps \<Rightarrow> encode_announcement n s name p (if first then Some t else None)
          # map (\<lambda>p. encode_announcement n s name p None) ps)"

lemma announcement_round_parts:
  assumes "\<And>ping. length (encode_announcement n s name [] ping) \<le> 20 + MAX_PAYLOAD"
    and "\<And>ch ping. ch \<in> set remaining \<Longrightarrow> length (encode_announcement n s name [ch] ping) \<le> 20 + MAX_PAYLOAD"
  shows "\<exists>parts. announcement_round n s name t first remaining = round_parts n s name t first parts \<and>
    parts \<noteq> [] \<and> concat parts = remaining \<and>
    (\<forall>m \<in> set (announcement_round n s name t first remaining). length m \<le> 20 + MAX_PAYLOAD)"
  using assms(2)
proof (induction "length remaining" arbitrary: remaining first rule: less_induct)
  case less
  let ?ping = "if first then Some t else None"
  obtain taken rest where tr: "take_channels (\<lambda>chs. length (encode_announcement n s name chs ?ping)) [] remaining
      = (taken, rest)" by (metis surj_pair)
  have app: "taken @ rest = remaining" using take_channels_spec(1) [OF tr] by simp
  have len: "length (encode_announcement n s name taken ?ping) \<le> 20 + MAX_PAYLOAD"
    by (rule take_channels_len [OF tr]) (use assms(1) less.prems in blast)+
  show ?case
  proof (cases "rest = []")
    case True
    then have "announcement_round n s name t first remaining = [encode_announcement n s name taken ?ping]"
      by (subst announcement_round.simps) (simp add: tr Let_def)
    with True app len show ?thesis by (intro exI [of _ "[taken]"]) (simp add: round_parts_def)
  next
    case False
    then have e: "announcement_round n s name t first remaining =
        encode_announcement n s name taken ?ping # announcement_round n s name t False rest"
      by (subst announcement_round.simps) (simp add: tr Let_def)
    have "taken \<noteq> []" using False tr take_channels_nonempty by (cases remaining) fastforce+
    then have "length rest < length remaining" using app by auto
    moreover have "set rest \<subseteq> set remaining" using app by auto
    ultimately obtain parts where p: "announcement_round n s name t False rest = round_parts n s name t False parts"
      "parts \<noteq> []" "concat parts = rest"
      "\<forall>m \<in> set (announcement_round n s name t False rest). length m \<le> 20 + MAX_PAYLOAD"
      using less.hyps [of rest False] less.prems by blast
    have "round_parts n s name t False parts = map (\<lambda>p. encode_announcement n s name p None) parts"
      using p(2) by (cases parts) (simp_all add: round_parts_def)
    then have "announcement_round n s name t first remaining = round_parts n s name t first (taken # parts)"
      by (simp add: e p(1)) (simp add: round_parts_def)
    moreover have "\<forall>m \<in> set (announcement_round n s name t first remaining). length m \<le> 20 + MAX_PAYLOAD"
      unfolding e using p(4) len by simp
    ultimately show ?thesis using p(3) app by (intro exI [of _ "taken # parts"]) simp
  qed
qed

lemma length_encode_announcement:
  "length (encode_announcement n s name chs ping) \<le>
    84 + length name + 12 * length chs + sum_list (map (\<lambda>c. length (ci_name c)) chs)"
  by (cases ping) (simp_all add: encode_announcement_def length_encode_audio new_audio_frame_def
      audio_payload_def ping_entry_def channel_info.counted_bytes)

section \<open>Properties\<close>

definition units_of :: "audio_buffer \<Rightarrow> i64 \<Rightarrow> received_chunk list" where
  "units_of buf delta = map2 (received_of buf delta)
     (cut_samples (channel_count (ab_num_channels buf)) (buffer_samples buf) (ab_chunks buf)) (ab_chunks buf)"

lemma units_of_fields:
  "length (units_of buf delta) = length (ab_chunks buf)"
  "map rc_samples (units_of buf delta) =
    cut_samples (channel_count (ab_num_channels buf)) (buffer_samples buf) (ab_chunks buf)"
  "map rc_seq (units_of buf delta) = map c_seq (ab_chunks buf)"
  "map rc_tempo (units_of buf delta) = map c_tempo (ab_chunks buf)"
  "map rc_begin_app_beat (units_of buf delta) =
    map (\<lambda>c. f64_div (f64_of_int (sint (c_begin_beats c + delta))) (Fin 1000000)) (ab_chunks buf)"
  "\<forall>u \<in> set (units_of buf delta). rc_sample_rate u = ab_sample_rate buf \<and> rc_channels u = ab_num_channels buf"
  unfolding units_of_def
  by (simp, (rule nth_equalityI; simp add: received_of_def)+) (auto simp: received_of_def)

lemma units_of_whole:
  assumes "consistent_buffer buf" and "length (ab_chunks buf) < 2 ^ 16" and "ab_num_channels buf \<noteq> 0"
  shows "concat (map rc_samples (units_of buf delta)) = buffer_samples buf"
proof -
  let ?k = "channel_count (ab_num_channels buf)"
  have "length (ab_chunks buf) * 65535 < 2 ^ 32" using assms(2) by simp
  then have "unat (total_frames buf) = sum_list (map (\<lambda>c. unat (c_num_frames c)) (ab_chunks buf))"
    by (intro total_frames_nat le_less_trans [OF frames_sum_bound])
  moreover have "?k = unat (ab_num_channels buf)"
    using assms(3) by (simp add: channel_count_def max_def unat_eq_zero not_less_eq_eq)
  ultimately have "sum_list (map (\<lambda>c. unat (c_num_frames c)) (ab_chunks buf)) * ?k
      = length (buffer_samples buf)"
    using assms(1) by (simp add: consistent_buffer_def buffer_samples_def length_samples_of)
      (metis nonzero_mult_div_cancel_right zero_neq_numeral)
  then show ?thesis unfolding units_of_fields by (rule cut_samples_concat)
qed

lemma deliver_units:
  assumes "deliver s buf l t = Some s'"
  obtains delta where "session_offset l (so_quantum s) = Some delta"
    and "inbox s' = drop (length (inbox s @ units_of buf delta) - INBOX_LIMIT) (inbox s @ units_of buf delta)"
    and "next_seq_expected s' = next_seq_expected (expect_all (map c_seq (ab_chunks buf)) s)"
    and "lost_chunks s' = lost_chunks (expect_all (map c_seq (ab_chunks buf)) s)" and "last_buffer_at s' = t"
  by (rule deliver_Some [OF assms]) (use that in \<open>simp add: units_of_def Let_def\<close>)

text \<open>A buffer that the decoder accepts is delivered as one unit per chunk, in order: the samples of
  the units, put together, are the samples of the buffer, each unit carries its chunk's sequence number
  and tempo, and its first beat is the chunk's beat moved by the receiver's session offset. The inbox
  keeps the newest 256 units.\<close>

theorem deliver_exact:
  assumes "deliver s buf l t = Some s'" and "consistent_buffer buf" and "length (ab_chunks buf) < 2 ^ 16"
  shows "\<exists>units delta. session_offset l (so_quantum s) = Some delta \<and>
    inbox s' = drop (length (inbox s @ units) - INBOX_LIMIT) (inbox s @ units) \<and>
    length (inbox s') \<le> INBOX_LIMIT \<and>
    (ab_num_channels buf \<noteq> 0 \<longrightarrow> concat (map rc_samples units) = buffer_samples buf) \<and>
    map rc_seq units = map c_seq (ab_chunks buf) \<and> map rc_tempo units = map c_tempo (ab_chunks buf) \<and>
    map rc_begin_app_beat units = map (\<lambda>c. f64_div (f64_of_int (sint (c_begin_beats c + delta)))
      (Fin 1000000)) (ab_chunks buf) \<and>
    last_buffer_at s' = t"
proof -
  obtain delta where d: "session_offset l (so_quantum s) = Some delta"
    "inbox s' = drop (length (inbox s @ units_of buf delta) - INBOX_LIMIT) (inbox s @ units_of buf delta)"
    "last_buffer_at s' = t"
    using deliver_units [OF assms(1)] by metis
  moreover from this have "length (inbox s') \<le> INBOX_LIMIT" by simp
  ultimately show ?thesis
    using units_of_whole [OF assms(2,3)]
    by (intro exI [of _ "units_of buf delta"] exI [of _ delta]) (simp add: units_of_fields)
qed

definition example_source :: source where
  "example_source = \<lparr>so_quantum = 4000000, last_request_at = 0, last_buffer_at = 0, inbox = [],
     next_seq_expected = None, lost_chunks = 0\<rparr>"

lemma deliver_example: "\<exists>s'. deliver example_source b example_timeline t = Some s'"
  using roomy_session_offset [OF roomy_example_timeline, of 4000000]
  by (auto simp: deliver_def example_source_def)

lemma deliver_exact_witness:
  "\<exists>s' units. deliver example_source example_buffer example_timeline 7 = Some s' \<and>
    inbox s' = units \<and> concat (map rc_samples units) = buffer_samples example_buffer \<and>
    last_buffer_at s' = 7"
proof -
  obtain s' where s': "deliver example_source example_buffer example_timeline 7 = Some s'"
    using deliver_example by blast
  have c: "consistent_buffer example_buffer" "length (ab_chunks example_buffer) < 2 ^ 16"
    "ab_num_channels example_buffer \<noteq> 0" "length (ab_chunks example_buffer) \<le> INBOX_LIMIT"
    by (simp_all add: example_buffer_def consistent_buffer_def CODEC_PCM_I16_def total_frames_def
        INBOX_LIMIT_def)
  from deliver_exact [OF s' c(1,2)] obtain units where
    "inbox s' = drop (length units - INBOX_LIMIT) units" "concat (map rc_samples units) = buffer_samples example_buffer"
    "map rc_seq units = map c_seq (ab_chunks example_buffer)" "last_buffer_at s' = 7"
    using c(3) by (auto simp: example_source_def)
  moreover from this have "length units \<le> INBOX_LIMIT" using c(4) by (metis length_map)
  ultimately show ?thesis using s' by simp
qed

text \<open>C26: The loss counter of a fresh subscription is exact as long as no chunk arrives twice and none precedes the
  first one seen. Whatever the order in which the chunks after the first one arrive, the counter is the
  number of sequence numbers between the first and the highest one seen that have not arrived.\<close>

theorem loss_counter_exact:
  assumes "deliver_all s bs l t = Some s'" and "next_seq_expected s = None" and "lost_chunks s = 0"
    and "map c_seq (concat (map ab_chunks bs)) = q # qs" and "distinct (q # qs)"
    and "\<forall>p \<in> set (q # qs). unat q \<le> unat p \<and> unat p < 2 ^ 64 - 1"
  shows "unat (lost_chunks s') = Max (unat ` set (q # qs)) + 1 - unat q - length (q # qs) \<and>
    card ({unat q..Max (unat ` set (q # qs))} - unat ` set (q # qs)) = unat (lost_chunks s')"
proof -
  let ?S = "unat ` set (q # qs)"
  have "counted (unat q) {unat q} (expect_seq q s)"
    using assms by (intro counted_first) simp_all
  then have "counted (unat q) ({unat q} \<union> unat ` set qs) (expect_all qs (expect_seq q s))"
    using assms(5,6) by (intro counted_all) (auto simp flip: word_unat_eq_iff)
  then have c: "counted (unat q) ?S (expect_all (q # qs) s)" by simp
  obtain ex :: u64 where ex: "?S \<subseteq> {unat q..<unat ex}" "unat ex - 1 \<in> ?S"
    "unat (lost_chunks (expect_all (q # qs) s)) = unat ex - unat q - card ?S"
    by (rule countedE [OF c])
  have lost: "lost_chunks s' = lost_chunks (expect_all (q # qs) s)"
    using deliver_all_counters [OF assms(1)] assms(4) by simp
  have "Max ?S = unat ex - 1"
  proof (rule Max_eqI)
    show "y \<le> unat ex - 1" if "y \<in> ?S" for y using subsetD [OF ex(1) that] by auto
  qed (use ex(2) in simp_all)
  moreover have "unat q < unat ex" using ex(1) by auto
  ultimately have m: "Max ?S + 1 = unat ex" by simp
  have card: "card ?S = length (q # qs)"
    using distinct_card [OF assms(5)] card_image [of unat "set (q # qs)"]
    by (simp only: inj_on_def) (simp flip: word_unat_eq_iff)
  have "{unat q..Max ?S} = {unat q..<unat ex}" using m by auto
  then have "card ({unat q..Max ?S} - ?S) = unat ex - unat q - card ?S"
    using ex(1) by (simp add: card_Diff_subset)
  then show ?thesis using ex(3) card m lost by simp
qed

definition chunk_buffer :: "u64 list \<Rightarrow> audio_buffer" where
  "chunk_buffer qs = \<lparr>ab_channel = Id 1, ab_session = Id 2,
     ab_chunks = map (\<lambda>q. \<lparr>c_seq = q, c_num_frames = 1, c_begin_beats = 0, c_tempo = 500000\<rparr>) qs,
     ab_codec = CODEC_PCM_I16, ab_sample_rate = 48000, ab_num_channels = 1,
     ab_sample_data = encode_samples (replicate (length qs) 0)\<rparr>"

lemma deliver_all_example: "\<exists>s'. deliver_all example_source bs example_timeline 0 = Some s'"
proof -
  have step: "\<exists>s'. deliver s b example_timeline 0 = Some s' \<and> so_quantum s' = 4000000"
    if "so_quantum s = 4000000" for s b
  proof -
    obtain d where "session_offset example_timeline 4000000 = Some d"
      using roomy_session_offset [OF roomy_example_timeline, of 4000000] by auto
    then have "deliver s b example_timeline 0 \<noteq> None" using that by (simp add: deliver_def)
    then obtain s' where s': "deliver s b example_timeline 0 = Some s'" by blast
    with deliver_Some [OF s'] that show ?thesis by metis
  qed
  have "\<exists>s'. deliver_all s bs example_timeline 0 = Some s'" if "so_quantum s = 4000000" for s
    using that
  proof (induction bs arbitrary: s)
    case (Cons b bs)
    then show ?case using step [of s b] by fastforce
  qed simp
  then show ?thesis by (metis example_source_def source.select_convs(1))
qed

lemma loss_counter_exact_witness:
  "\<exists>s'. deliver_all example_source [chunk_buffer [5], chunk_buffer [6, 10], chunk_buffer [8]]
      example_timeline 0 = Some s' \<and> unat (lost_chunks s') = 2"
proof -
  let ?bs = "[chunk_buffer [5], chunk_buffer [6, 10], chunk_buffer [8]]"
  obtain s' where s': "deliver_all example_source ?bs example_timeline 0 = Some s'"
    using deliver_all_example by blast
  have "unat (lost_chunks s') = Max (unat ` set [5, 6, 10, 8 :: u64]) + 1 - unat (5 :: u64) - length [5, 6, 10, 8 :: u64]"
    using loss_counter_exact [OF s', of 5 "[6, 10, 8]"] by (simp add: example_source_def chunk_buffer_def)
  then show ?thesis using s' by simp
qed

text \<open>Otherwise it may be too low: a chunk from before the first one seen, or one that arrives twice, counts as
  a missing one that has turned up. Chunks 7 and 8 are missing here, and the counter says 1.\<close>

lemma loss_counter_too_low:
  "\<exists>s'. deliver_all example_source [chunk_buffer [6], chunk_buffer [9], chunk_buffer [5]] example_timeline 0 = Some s' \<and>
    lost_chunks s' = 1"
  "\<exists>s'. deliver_all example_source [chunk_buffer [6], chunk_buffer [9], chunk_buffer [9]] example_timeline 0 = Some s' \<and>
    lost_chunks s' = 1"
proof -
  have "\<exists>s'. deliver_all example_source (map (\<lambda>q. chunk_buffer [q]) qs) example_timeline 0 = Some s' \<and>
      lost_chunks s' = lost_chunks (expect_all qs example_source)" for qs
    using deliver_all_example [of "map (\<lambda>q. chunk_buffer [q]) qs"] deliver_all_counters
    by (fastforce simp: chunk_buffer_def comp_def)
  from this [of "[6, 9, 5]"] this [of "[6, 9, 9]"] show
    "\<exists>s'. deliver_all example_source [chunk_buffer [6], chunk_buffer [9], chunk_buffer [5]] example_timeline 0 = Some s' \<and>
      lost_chunks s' = 1"
    "\<exists>s'. deliver_all example_source [chunk_buffer [6], chunk_buffer [9], chunk_buffer [9]] example_timeline 0 = Some s' \<and>
      lost_chunks s' = 1"
    by (simp_all add: example_source_def expect_seq_def)
qed

text \<open>One announcement round lists every published channel exactly once, in order. Its messages
  stay within the payload budget when names are at most 256 bytes, only the first carries the ping,
  and every message decodes to the announcement it was made from.\<close>

theorem announcement_round_complete:
  assumes "length (au_peer_name a) \<le> MAX_NAME" and "\<forall>k \<in> set (sinks a). length (sk_name k) \<le> MAX_NAME"
  shows "\<exists>parts p ps. parts = p # ps \<and>
    concat parts = map (\<lambda>k. \<lparr>ci_name = sk_name k, ci_id = sk_id k\<rparr>) (sinks a) \<and>
    map decode_audio (build_announcement_round n s a t) =
      map Inr (new_audio_frame n (PeerAnnouncement s (au_peer_name a) p (Some t))
        # map (\<lambda>p. new_audio_frame n (PeerAnnouncement s (au_peer_name a) p None)) ps) \<and>
    (\<forall>m \<in> set (build_announcement_round n s a t). length m \<le> 20 + MAX_PAYLOAD)"
proof -
  let ?chs = "map (\<lambda>k. \<lparr>ci_name = sk_name k, ci_id = sk_id k\<rparr>) (sinks a)"
  have 0: "length (encode_announcement n s (au_peer_name a) [] ping) \<le> 20 + MAX_PAYLOAD" for ping
    using length_encode_announcement [of n s "au_peer_name a" "[]" ping] assms(1)
    by (simp add: MAX_NAME_def MAX_PAYLOAD_def)
  have 1: "length (encode_announcement n s (au_peer_name a) [ch] ping) \<le> 20 + MAX_PAYLOAD"
    if "ch \<in> set ?chs" for ch ping
    using length_encode_announcement [of n s "au_peer_name a" "[ch]" ping] assms that
    by (auto simp: MAX_NAME_def MAX_PAYLOAD_def)
  obtain parts where parts: "build_announcement_round n s a t = round_parts n s (au_peer_name a) t True parts"
    "parts \<noteq> []" "concat parts = ?chs"
    "\<forall>m \<in> set (build_announcement_round n s a t). length m \<le> 20 + MAX_PAYLOAD"
    using announcement_round_parts [OF 0 1, of ?chs t True] unfolding build_announcement_round_def by blast
  obtain p ps where p: "parts = p # ps" using parts(2) by (cases parts) auto
  have dec: "decode_audio (encode_announcement n s (au_peer_name a) chs ping) =
      Inr (new_audio_frame n (PeerAnnouncement s (au_peer_name a) chs ping))"
    if "length (encode_announcement n s (au_peer_name a) chs ping) \<le> 20 + MAX_PAYLOAD" for chs ping
    using that unfolding encode_announcement_def
    by (intro decode_encode_audio) (simp add: sendable_def new_audio_frame_def MAX_PAYLOAD_def)
  have "build_announcement_round n s a t = encode_announcement n s (au_peer_name a) p (Some t)
      # map (\<lambda>p. encode_announcement n s (au_peer_name a) p None) ps"
    by (simp add: parts(1) round_parts_def p)
  then have "map decode_audio (build_announcement_round n s a t) =
      map Inr (new_audio_frame n (PeerAnnouncement s (au_peer_name a) p (Some t))
        # map (\<lambda>p. new_audio_frame n (PeerAnnouncement s (au_peer_name a) p None)) ps)"
    using parts(4) by (simp add: dec)
  with parts p show ?thesis by blast
qed

definition example_audio :: audio_state where
  "example_audio = (new_audio_state [109])\<lparr>sinks := [\<lparr>sk_id = Id 1, sk_name = [67], requesters = [],
     next_seq = 1, segments = [], sk_format = None\<rparr>]\<rparr>"

lemma announcement_round_complete_witness:
  "\<exists>parts p ps. parts = p # ps \<and>
    concat parts = map (\<lambda>k. \<lparr>ci_name = sk_name k, ci_id = sk_id k\<rparr>) (sinks example_audio) \<and>
    map decode_audio (build_announcement_round (Id 5) (Id 6) example_audio 77) =
      map Inr (new_audio_frame (Id 5) (PeerAnnouncement (Id 6) (au_peer_name example_audio) p (Some 77))
        # map (\<lambda>p. new_audio_frame (Id 5) (PeerAnnouncement (Id 6) (au_peer_name example_audio) p None)) ps)"
proof -
  have "length (au_peer_name example_audio) \<le> MAX_NAME"
    "\<forall>k \<in> set (sinks example_audio). length (sk_name k) \<le> MAX_NAME"
    by (simp_all add: example_audio_def new_audio_state_def MAX_NAME_def)
  from announcement_round_complete [OF this, of "Id 5" "Id 6" 77] show ?thesis
    by - (elim exE conjE, intro exI conjI)
qed

end
