(* ===== verification/Contracts.thy ===== *)
theory Contracts
  imports Engine_State
begin

text \<open>
  What sending, clock readings and broadcasts leave alone, and the interface of an invariant that does
  not look at them. A predicate with this contract is kept by every operation that only talks to the
  outside; the component theories extend the interface by their own such operations, and the
  invariants of the peer are its interpretations.
\<close>

section \<open>Quiet operations\<close>

text \<open>The state without the record of its effects and without the broadcast timers.\<close>

definition stable :: "engine \<Rightarrow> engine" where
  "stable e = e\<lparr>last_alive_at := 0, last_broadcast_at := 0, broadcast_due := None, clock_reads := 0,
     sent := [], wakes := 0\<rparr>"

definition quiet :: "engine \<Rightarrow> engine \<Rightarrow> bool" where
  "quiet e e' \<longleftrightarrow> stable e' = stable e"

lemma quiet_refl [intro!, simp]: "quiet e e"
  by (simp add: quiet_def)

lemma quiet_trans [trans]: "quiet e e' \<Longrightarrow> quiet e' e'' \<Longrightarrow> quiet e e''"
  by (simp add: quiet_def)

lemma quiet_foldl: "(\<And>e x. quiet e (f e x)) \<Longrightarrow> quiet e (foldl f e xs)"
proof (induction xs arbitrary: e)
  case (Cons x xs)
  show ?case using Cons.prems [of e x] Cons.IH [OF Cons.prems, of "f e x"] by (auto intro: quiet_trans)
qed simp

lemma quiet_transmit [simp]: "quiet e (transmit msgs e)"
  by (simp add: quiet_def stable_def transmit_def)

lemma quiet_notify [simp]: "quiet e (notify e)"
  by (simp add: quiet_def stable_def notify_def)

lemma quiet_now [simp]: "quiet e (snd (now e))"
  by (simp add: quiet_def stable_def now_def)

lemma quiet_send_alive [simp]: "quiet e (send_alive t e)"
  by (simp add: quiet_def stable_def send_alive_def transmit_def)

lemma quiet_send_alive_on [simp]: "quiet e (send_alive_on gw e)"
  by (simp add: send_alive_on_def)

lemma quiet_schedule_broadcast [simp]: "quiet e (schedule_broadcast e)"
  by (simp add: quiet_def stable_def schedule_broadcast_def send_alive_def transmit_def notify_def now_def)

text \<open>The fields a quiet operation keeps.\<close>

lemma quiet_fields:
  assumes "quiet e e'"
  shows "enabled e' = enabled e" "epoch e' = epoch e" "node e' = node e" "session e' = session e"
    "timeline e' = timeline e" "ghost_offset e' = ghost_offset e" "held_stst e' = held_stst e"
    "app_playing e' = app_playing e" "sst_sync e' = sst_sync e" "gateways e' = gateways e"
    "next_gateway_id e' = next_gateway_id e" "peers e' = peers e"
    "session_member_seen e' = session_member_seen e" "foreign_timelines e' = foreign_timelines e"
    "measured e' = measured e" "measurement e' = measurement e" "pending e' = pending e"
    "next_remeasure_at e' = next_remeasure_at e" "audio e' = audio e" "config e' = config e"
    "env e' = env e" "id_draws e' = id_draws e" "open_calls e' = open_calls e"
    "scan_calls e' = scan_calls e" "panicked e' = panicked e"
  using assms by (cases e; cases e'; simp add: quiet_def stable_def)+

lemma effects_keep [simp]:
  "session (schedule_broadcast e) = session e" "session (notify e) = session e"
  "node (schedule_broadcast e) = node e" "node (notify e) = node e"
  "timeline (schedule_broadcast e) = timeline e" "timeline (notify e) = timeline e"
  "ghost_offset (schedule_broadcast e) = ghost_offset e" "ghost_offset (notify e) = ghost_offset e"
  "held_stst (schedule_broadcast e) = held_stst e" "app_playing (schedule_broadcast e) = app_playing e"
  "sst_sync (schedule_broadcast e) = sst_sync e"
  "peers (schedule_broadcast e) = peers e" "peers (notify e) = peers e"
  "measurement (schedule_broadcast e) = measurement e" "measurement (notify e) = measurement e"
  "pending (schedule_broadcast e) = pending e" "pending (notify e) = pending e"
  "measured (schedule_broadcast e) = measured e" "measured (notify e) = measured e"
  "gateways (schedule_broadcast e) = gateways e" "gateways (notify e) = gateways e"
  "measurement (transmit msgs e) = measurement e" "pending (transmit msgs e) = pending e"
  "measured (transmit msgs e) = measured e" "session (transmit msgs e) = session e"
  "env (schedule_broadcast e) = env e" "env (notify e) = env e"
  by (rule quiet_fields; simp)+

section \<open>Invariants that do not look at effects\<close>

locale observer =
  fixes I :: "engine \<Rightarrow> bool"
  assumes stable: "I (stable e) \<longleftrightarrow> I e"
begin

lemma quiet: "quiet e e' \<Longrightarrow> I e' \<longleftrightarrow> I e"
  by (metis quiet_def stable)

lemma transmit [simp]: "I (transmit msgs e) \<longleftrightarrow> I e"
  by (rule quiet) simp

lemma notify [simp]: "I (notify e) \<longleftrightarrow> I e"
  by (rule quiet) simp

lemma now [simp]: "I (snd (now e)) \<longleftrightarrow> I e"
  by (rule quiet) simp

lemma clock [simp]: "I (e\<lparr>clock_reads := c\<rparr>) \<longleftrightarrow> I e"
  by (rule quiet) (simp add: quiet_def stable_def)

lemma send_alive [simp]: "I (send_alive t e) \<longleftrightarrow> I e"
  by (rule quiet) simp

lemma send_alive_on [simp]: "I (send_alive_on gw e) \<longleftrightarrow> I e"
  by (rule quiet) simp

lemma schedule_broadcast [simp]: "I (schedule_broadcast e) \<longleftrightarrow> I e"
  by (rule quiet) simp

end

section \<open>The invariants of a peer\<close>

definition sink_ok :: "sink \<Rightarrow> bool" where
  "sink_ok k \<longleftrightarrow> length (sk_name k) \<le> MAX_NAME \<and> well_keyed (requesters k) \<and>
     (\<forall>sg \<in> set (segments k). 0 < sint (sg_tempo sg))"

text \<open>Keys name gateways that have been opened; names, inboxes and windows are bounded.\<close>

definition audio_ok :: "nat \<Rightarrow> audio_state \<Rightarrow> bool" where
  "audio_ok next_id a \<longleftrightarrow> length (au_peer_name a) \<le> MAX_NAME \<and> (\<forall>k \<in> set (sinks a). sink_ok k) \<and>
     well_keyed (sources a) \<and> (\<forall>x \<in> set (sources a). length (inbox (snd x)) \<le> 256) \<and>
     well_keyed (known a) \<and> (\<forall>x \<in> set (known a). snd (fst x) < next_id) \<and>
     well_keyed (paths a) \<and> (\<forall>x \<in> set (paths a). snd (fst x) < next_id \<and> length (rtts (snd x)) \<le> 10)"

definition tempo_inv :: "engine \<Rightarrow> bool" where
  "tempo_inv e \<longleftrightarrow> legal_tempo (tempo (timeline e))"

definition gateway_inv :: "engine \<Rightarrow> bool" where
  "gateway_inv e \<longleftrightarrow> well_keyed (gateways e) \<and>
     (\<forall>x \<in> set (gateways e). gw_id (snd x) = fst x \<and> fst x < next_gateway_id e)"

definition peers_inv :: "engine \<Rightarrow> bool" where
  "peers_inv e \<longleftrightarrow> well_keyed (peers e) \<and>
     (\<forall>x \<in> set (peers e). snd (fst x) \<in> set (keys_of (gateways e)))"

definition maps_inv :: "engine \<Rightarrow> bool" where
  "maps_inv e \<longleftrightarrow> well_keyed (measured e) \<and> well_keyed (foreign_timelines e)"

text \<open>No session is measured twice at a time; a running measurement is within its retry and sample
  budgets; queued tasks go through open gateways.\<close>

definition running_ok :: "session_id list \<Rightarrow> nat \<Rightarrow> measurement \<Rightarrow> bool" where
  "running_ok queued next_id m \<longleftrightarrow> mt_session (m_task m) \<notin> set queued \<and>
     mt_gateway (m_task m) < next_id \<and>
     m_timeouts m \<le> MAX_MEASUREMENT_RETRIES \<and> length (m_samples m) \<le> SAMPLES_REQUIRED \<and> NaN \<notin> set (m_samples m)"

definition tasks_inv :: "engine \<Rightarrow> bool" where
  "tasks_inv e \<longleftrightarrow> distinct (map mt_session (pending e)) \<and>
     (\<forall>t \<in> set (pending e). mt_gateway t \<in> set (keys_of (gateways e))) \<and>
     pred_option (running_ok (map mt_session (pending e)) (next_gateway_id e)) (measurement e)"

definition idle_inv :: "engine \<Rightarrow> bool" where
  "idle_inv e \<longleftrightarrow> (\<not> enabled e \<longrightarrow>
     gateways e = [] \<and> peers e = [] \<and> measurement e = None \<and> pending e = [])"

text \<open>A peer in a session that another peer founded watches for the loss of its last member.\<close>

definition member_inv :: "engine \<Rightarrow> bool" where
  "member_inv e \<longleftrightarrow> (enabled e \<and> session e \<noteq> node e \<and> \<not> panicked e \<longrightarrow> session_member_seen e)"

definition audio_inv :: "engine \<Rightarrow> bool" where
  "audio_inv e \<longleftrightarrow> pred_option (audio_ok (next_gateway_id e)) (audio e)"

text \<open>Nothing but a lack of randomness makes the code panic.\<close>

definition alive_inv :: "engine \<Rightarrow> bool" where
  "alive_inv e \<longleftrightarrow> (gives_randomness (env e) \<longrightarrow> \<not> panicked e)"

text \<open>The maps are iterated in some order of their entries.\<close>

definition fair_inv :: "engine \<Rightarrow> bool" where
  "fair_inv e \<longleftrightarrow> fair_iteration (env e)"

definition engine_ok :: "engine \<Rightarrow> bool" where
  "engine_ok e \<longleftrightarrow> tempo_inv e \<and> gateway_inv e \<and> peers_inv e \<and> maps_inv e \<and> tasks_inv e \<and>
     idle_inv e \<and> member_inv e \<and> audio_inv e \<and> alive_inv e \<and> fair_inv e"

lemmas engine_invs = tempo_inv_def gateway_inv_def peers_inv_def maps_inv_def tasks_inv_def
  idle_inv_def member_inv_def audio_inv_def alive_inv_def fair_inv_def

interpretation ok: observer engine_ok
  by unfold_locales (simp add: engine_ok_def engine_invs stable_def)

interpretation tempo: observer tempo_inv
  by unfold_locales (simp add: tempo_inv_def stable_def)

interpretation alive: observer alive_inv
  by unfold_locales (simp add: alive_inv_def stable_def)

interpretation timeline: observer "\<lambda>e. timeline e = l" for l
  by unfold_locales (simp add: stable_def)

text \<open>Fields that no invariant mentions.\<close>

lemma engine_ok_neutral [simp]:
  "engine_ok (e\<lparr>held_stst := s\<rparr>) \<longleftrightarrow> engine_ok e" "engine_ok (e\<lparr>app_playing := b\<rparr>) \<longleftrightarrow> engine_ok e"
  "engine_ok (e\<lparr>sst_sync := b\<rparr>) \<longleftrightarrow> engine_ok e" "engine_ok (e\<lparr>ghost_offset := i\<rparr>) \<longleftrightarrow> engine_ok e"
  "engine_ok (e\<lparr>next_remeasure_at := r\<rparr>) \<longleftrightarrow> engine_ok e" "engine_ok (e\<lparr>id_draws := n\<rparr>) \<longleftrightarrow> engine_ok e"
  "engine_ok (e\<lparr>open_calls := n\<rparr>) \<longleftrightarrow> engine_ok e" "engine_ok (e\<lparr>scan_calls := n\<rparr>) \<longleftrightarrow> engine_ok e"
  by (simp_all add: engine_ok_def engine_invs)

lemma engine_ok_timeline:
  "engine_ok e \<Longrightarrow> legal_tempo (tempo l) \<Longrightarrow> engine_ok (e\<lparr>timeline := l\<rparr>)"
  by (simp add: engine_ok_def engine_invs)

lemma engine_ok_legal: "engine_ok e \<Longrightarrow> legal_tempo (tempo (timeline e))"
  by (simp add: engine_ok_def tempo_inv_def)

lemma engine_ok_alive: "engine_ok e \<Longrightarrow> gives_randomness (env e) \<Longrightarrow> \<not> panicked e"
  by (simp add: engine_ok_def alive_inv_def)

lemma engine_ok_no_randomness:
  "engine_ok e \<Longrightarrow> env_ids (env e) n = None \<Longrightarrow> engine_ok (panic e)"
  by (auto simp: engine_ok_def engine_invs gives_randomness_def panic_def)

end
