(* ===== verification/Audio_Ops.thy ===== *)
theory Audio_Ops
  imports Sink_Drain Channel_Feed Contracts
begin

text \<open>
  The operations of \<^verbatim>\<open>crates/tactus/src/audio.rs\<close> on the peer's state: the datagram handler, the
  sending paths, the write path of a sink, housekeeping and the application's audio calls. The lemmas
  show which part of the state each may touch and that all of them keep the audio invariant.
\<close>

section \<open>Sending\<close>

definition send_via :: "nat \<Rightarrow> bytes \<Rightarrow> socket_addr \<Rightarrow> engine \<Rightarrow> engine" where
  "send_via gw bs dst e = (case map_of (gateways e) gw of None \<Rightarrow> e
     | Some g \<Rightarrow> transmit [Send_audio (gw_id g) bs dst] e)"

definition send_all :: "(nat \<times> bytes \<times> socket_addr) list \<Rightarrow> engine \<Rightarrow> engine" where
  "send_all msgs e = foldl (\<lambda>e (gw, bs, dst). send_via gw bs dst e) e msgs"

definition send_request :: "channel_id \<Rightarrow> bool \<Rightarrow> engine \<Rightarrow> engine" where
  "send_request ch stop e = (case audio e of None \<Rightarrow> e | Some a \<Rightarrow>
     case List.find (\<lambda>((i, _), _). i = ch) (iter_known (env e) (known a)) of None \<Rightarrow> e
     | Some (_, kc) \<Rightarrow>
       (case best_path (iter_peers (env e) (peers e)) (paths a) (kc_peer kc) of None \<Rightarrow> e
        | Some (gw, ep) \<Rightarrow>
            let message = (if stop then StopChannelRequest ch else ChannelRequest ch)
            in send_via gw (encode_audio (new_audio_frame (node e) message)) ep e))"

definition send_byes :: "channel_id list \<Rightarrow> engine \<Rightarrow> engine" where
  "send_byes channels e = (if channels = [] then e else
     let per_message = (MAX_PAYLOAD - 12) div 8
     in send_all (concat (map (\<lambda>ids.
          let bs = encode_audio (new_audio_frame (node e) (ChannelByes ids))
          in map (\<lambda>(gw, ep). (gw, bs, ep)) (session_endpoints (iter_peers (env e) (peers e)) (session e)))
        (split_chunks per_message channels))) e)"

text \<open>\<open>iter_mut().find(..)\<close>: the first element that matches is changed in place.\<close>

fun update_first :: "('a \<Rightarrow> bool) \<Rightarrow> ('a \<Rightarrow> 'a) \<Rightarrow> 'a list \<Rightarrow> 'a list" where
  "update_first P f [] = []"
| "update_first P f (x # xs) = (if P x then f x # xs else x # update_first P f xs)"

section \<open>Inbound\<close>

definition handle_announcement :: "i64 \<Rightarrow> nat \<Rightarrow> socket_addr \<Rightarrow> audio_frame \<Rightarrow> bytes \<Rightarrow> channel_info list
    \<Rightarrow> i64 option \<Rightarrow> audio_state \<Rightarrow> engine \<Rightarrow> engine" where
  "handle_announcement t gw src frame peer_name channels ping a e =
     (let e = (case ping of None \<Rightarrow> e
            | Some ht \<Rightarrow> send_via gw (encode_audio (new_audio_frame (node e) (AudioPong ht))) src e);
          endpoint_known = (case map_of (peers e) (af_node frame, gw) of None \<Rightarrow> False
            | Some p \<Rightarrow> ps_audio_endpoint (pe_state p) = Some src)
      in if \<not> endpoint_known then e else
         notify (e\<lparr>audio := Some (a\<lparr>known := foldl (\<lambda>kn ch. AList.update (ci_id ch, gw)
            \<lparr>kc_peer = af_node frame, kc_peer_name = peer_name, kc_name = ci_name ch,
             kc_deadline = t + ttl_micros (af_ttl frame)\<rparr> kn) (known a) channels\<rparr>)\<rparr>))"

definition handle_audio_message :: "i64 \<Rightarrow> nat \<Rightarrow> socket_addr \<Rightarrow> audio_frame \<Rightarrow> audio_state \<Rightarrow> engine \<Rightarrow> engine" where
  "handle_audio_message t gw src frame a e = (case af_message frame of
      PeerAnnouncement s peer_name channels ping \<Rightarrow>
        handle_announcement t gw src frame peer_name channels ping a e
    | AudioPong host_time \<Rightarrow>
        let rtt = f64_of_int (sint (smax (t - host_time) 0));
            key = (af_node frame, gw);
            stats = (case map_of (paths a) key of None \<Rightarrow> default_path_stats | Some p \<Rightarrow> p)
        in e\<lparr>audio := Some (a\<lparr>paths := AList.update key (path_record stats rtt) (paths a)\<rparr>)\<rparr>
    | ChannelRequest ch \<Rightarrow>
        if \<exists>k \<in> set (sinks a). sk_id k = ch then
          notify (e\<lparr>audio := Some (a\<lparr>sinks := update_first (\<lambda>k. sk_id k = ch)
            (\<lambda>k. k\<lparr>requesters := AList.update (af_node frame) (t + ttl_micros (af_ttl frame)) (requesters k)\<rparr>)
            (sinks a)\<rparr>)\<rparr>)
        else e
    | StopChannelRequest ch \<Rightarrow>
        e\<lparr>audio := Some (a\<lparr>sinks := update_first (\<lambda>k. sk_id k = ch)
          (\<lambda>k. k\<lparr>requesters := AList.delete (af_node frame) (requesters k)\<rparr>) (sinks a)\<rparr>)\<rparr>
    | ChannelByes channels \<Rightarrow>
        e\<lparr>audio := Some (a\<lparr>known := retain (\<lambda>(i, g) kc.
          \<not> (g = gw \<and> kc_peer kc = af_node frame \<and> i \<in> set channels)) (known a)\<rparr>)\<rparr>
    | AudioBuffer buffer \<Rightarrow>
        if ab_session buffer \<noteq> session e then e else
        case map_of (sources a) (ab_channel buffer) of None \<Rightarrow> e
        | Some s \<Rightarrow> (case deliver s buffer (timeline e) t of None \<Rightarrow> panic e
            | Some s' \<Rightarrow> e\<lparr>audio := Some (a\<lparr>sources := AList.update (ab_channel buffer) s' (sources a)\<rparr>)\<rparr>))"

definition handle_audio_datagram :: "nat \<Rightarrow> socket_addr \<Rightarrow> bytes \<Rightarrow> engine \<Rightarrow> engine" where
  "handle_audio_datagram gw src buf e =
     (if \<not> enabled e then e else case audio e of None \<Rightarrow> e | Some a \<Rightarrow>
      case decode_audio buf of Inl _ \<Rightarrow> e
      | Inr frame \<Rightarrow>
          if af_node frame = node e \<or> af_group_id frame \<noteq> 0 then e else
          let (t, e) = now e in handle_audio_message t gw src frame a e)"

section \<open>The write path\<close>

definition store_sink :: "channel_id \<Rightarrow> sink \<Rightarrow> engine \<Rightarrow> engine" where
  "store_sink ch k e = (case audio e of None \<Rightarrow> e
     | Some a \<Rightarrow> e\<lparr>audio := Some (a\<lparr>sinks := update_first (\<lambda>k. sk_id k = ch) (\<lambda>_. k) (sinks a)\<rparr>)\<rparr>)"

text \<open>Whether new material starts exactly where the last run ends; \<open>None\<close> is a division by zero.\<close>

definition contiguous :: "u32 \<Rightarrow> u8 \<Rightarrow> i64 \<Rightarrow> i64 \<Rightarrow> segment list \<Rightarrow> bool option" where
  "contiguous rate nc tmpo begin_wire sgs = (if sgs = [] then Some False else
     let sg = last sgs; frames = length (sg_samples sg) div channel_count nc
     in if sg_tempo sg \<noteq> tmpo then Some False
        else map_option (\<lambda>d. sabs (sg_begin sg + d - begin_wire) \<le>s 1)
          (frames_to_micro_beats frames rate tmpo))"

definition append_material :: "bool \<Rightarrow> i64 \<Rightarrow> i64 \<Rightarrow> i16 list \<Rightarrow> segment list \<Rightarrow> segment list" where
  "append_material contig tmpo begin_wire samples sgs =
     (if contig then butlast sgs @ [(last sgs)\<lparr>sg_samples := sg_samples (last sgs) @ samples\<rparr>]
      else sgs @ [\<lparr>sg_begin = begin_wire, sg_tempo = tmpo, sg_samples = samples\<rparr>])"

definition reformat :: "u32 \<Rightarrow> u8 \<Rightarrow> sink \<Rightarrow> sink" where
  "reformat rate nc k = (if sk_format k \<noteq> Some (rate, nc)
     then k\<lparr>segments := [], sk_format := Some (rate, nc)\<rparr> else k)"

definition send_datagrams :: "bytes list \<Rightarrow> node_id list \<Rightarrow> engine \<Rightarrow> engine" where
  "send_datagrams datagrams peer_nodes e = (case audio e of None \<Rightarrow> e | Some a \<Rightarrow>
     send_all (concat (map (\<lambda>n.
       case best_path (iter_peers (env e) (peers e)) (paths a) n of None \<Rightarrow> []
       | Some (gw, ep) \<Rightarrow> map (\<lambda>bs. (gw, bs, ep)) datagrams) peer_nodes)) e)"

definition write_sink :: "channel_id \<Rightarrow> i16 list \<Rightarrow> u32 \<Rightarrow> u8 \<Rightarrow> f64 \<Rightarrow> i64 \<Rightarrow> engine \<Rightarrow> engine" where
  "write_sink ch samples rate nc begin_app_beat quantum e =
     (let (t, e) = now e in case audio e of None \<Rightarrow> e | Some a \<Rightarrow>
      case List.find (\<lambda>k. sk_id k = ch) (sinks a) of None \<Rightarrow> e | Some k \<Rightarrow>
      case session_offset (timeline e) quantum of None \<Rightarrow> panic e | Some delta \<Rightarrow>
      let tmpo = tempo (timeline e);
          begin_wire = f64_to_i64 (f64_round (f64_mul begin_app_beat (Fin 1000000))) - delta;
          k = reformat rate nc k
      in case contiguous rate nc tmpo begin_wire (segments k) of
        None \<Rightarrow> panic (store_sink ch k e)
      | Some contig \<Rightarrow>
          let k = k\<lparr>segments := append_material contig tmpo begin_wire samples (segments k),
                 requesters := retain (\<lambda>_ expiry. t <s expiry) (requesters k)\<rparr>
          in if requesters k = [] then store_sink ch (k\<lparr>segments := []\<rparr>) e else
             case drain_datagrams k ch (session e) rate nc (fill_audio_datagrams (config e)) of
               Inl k' \<Rightarrow> panic (store_sink ch k' e)
             | Inr (k', buffers) \<Rightarrow>
                 send_datagrams
                   (map (\<lambda>b. encode_audio (new_audio_frame (node e) (AudioBuffer b))) buffers)
                   (map fst (iter_requesters (env e) (requesters k'))) (store_sink ch k' e))"

section \<open>Departures\<close>

definition peer_left :: "node_id \<Rightarrow> engine \<Rightarrow> engine" where
  "peer_left n e = (case audio e of None \<Rightarrow> e | Some a \<Rightarrow>
     e\<lparr>audio := Some (a\<lparr>known := retain (\<lambda>_ kc. kc_peer kc \<noteq> n) (known a),
       paths := retain (\<lambda>(m, _) _. m \<noteq> n) (paths a)\<rparr>)\<rparr>)"

definition gateway_closed :: "nat \<Rightarrow> engine \<Rightarrow> engine" where
  "gateway_closed gw e = (case audio e of None \<Rightarrow> e | Some a \<Rightarrow>
     e\<lparr>audio := Some (a\<lparr>known := retain (\<lambda>(_, g) _. g \<noteq> gw) (known a),
       paths := retain (\<lambda>(_, g) _. g \<noteq> gw) (paths a)\<rparr>)\<rparr>)"

section \<open>Housekeeping\<close>

definition announce :: "i64 \<Rightarrow> engine \<Rightarrow> engine" where
  "announce t e = (case audio e of None \<Rightarrow> e | Some a \<Rightarrow>
     let round = build_announcement_round (node e) (session e) a t;
         e = send_all (concat (map (\<lambda>(gw, ep). map (\<lambda>m. (gw, m, ep)) round)
           (session_endpoints (iter_peers (env e) (peers e)) (session e)))) e
     in e\<lparr>audio := Some (a\<lparr>last_announce_at := t\<rparr>)\<rparr>)"

definition request_due :: "i64 \<Rightarrow> source \<Rightarrow> bool" where
  "request_due t s \<longleftrightarrow> last_request_at s + REQUEST_PERIOD \<le>s t"

definition touch_requests :: "i64 \<Rightarrow> (channel_id \<times> source) list \<Rightarrow> (channel_id \<times> source) list" where
  "touch_requests t = map (\<lambda>(i, s). (i, if request_due t s then s\<lparr>last_request_at := t\<rparr> else s))"

text \<open>Deadline maps are pruned when the earliest one is a padding overdue.\<close>

definition prune_due :: "i64 \<Rightarrow> i64 list \<Rightarrow> bool" where
  "prune_due t deadlines = (case min_signed deadlines of None \<Rightarrow> False
     | Some earliest \<Rightarrow> earliest + PRUNE_PADDING \<le>s t)"

definition next_prune :: "i64 list \<Rightarrow> i64 \<Rightarrow> i64" where
  "next_prune deadlines next = (case min_signed deadlines of None \<Rightarrow> next
     | Some d \<Rightarrow> smin next (d + PRUNE_PADDING))"

definition expire_requesters :: "i64 \<Rightarrow> sink \<Rightarrow> sink" where
  "expire_requesters t k = (if prune_due t (map snd (requesters k))
     then k\<lparr>requesters := retain (\<lambda>_ d. t <s d) (requesters k)\<rparr> else k)"

definition expire_known :: "i64 \<Rightarrow> ((channel_id \<times> nat) \<times> known_channel) list
    \<Rightarrow> ((channel_id \<times> nat) \<times> known_channel) list" where
  "expire_known t kn = (if prune_due t (map (\<lambda>(_, k). kc_deadline k) kn)
     then retain (\<lambda>_ k. t <s kc_deadline k) kn else kn)"

definition audio_expire :: "i64 \<Rightarrow> i64 \<Rightarrow> engine \<Rightarrow> i64 \<times> engine" where
  "audio_expire t next e = (case audio e of None \<Rightarrow> (next, e) | Some a \<Rightarrow>
     let a = a\<lparr>sinks := map (expire_requesters t) (sinks a), known := expire_known t (known a)\<rparr>;
         next = foldl (\<lambda>n k. next_prune (map snd (requesters k)) n) next (sinks a);
         next = next_prune (map (\<lambda>(_, k). kc_deadline k) (known a)) next
     in (next, e\<lparr>audio := Some a\<rparr>))"

definition audio_housekeeping :: "i64 \<Rightarrow> engine \<Rightarrow> i64 \<times> engine" where
  "audio_housekeeping t e = (case audio e of None \<Rightarrow> (word_of_int (2 ^ 63 - 1), e) | Some a \<Rightarrow>
     let due_now = last_announce_at a + ANNOUNCE_PERIOD \<le>s t;
         next = (if due_now then t + ANNOUNCE_PERIOD else last_announce_at a + ANNOUNCE_PERIOD);
         e = (if due_now then announce t e else e);
         due = map fst (filter (\<lambda>(_, s). request_due t s) (iter_sources (env e) (sources a)));
         srcs = touch_requests t (sources a);
         next = foldl (\<lambda>n (_, s). smin n (last_request_at s + REQUEST_PERIOD)) next srcs;
         e = e\<lparr>audio := map_option (\<lambda>a. a\<lparr>sources := srcs\<rparr>) (audio e)\<rparr>;
         e = foldl (\<lambda>e i. send_request i False e) e due
     in audio_expire t next e)"

section \<open>Application calls\<close>

definition audio_shutdown :: "engine \<Rightarrow> engine" where
  "audio_shutdown e = (case audio e of None \<Rightarrow> e
     | Some a \<Rightarrow> (send_byes (map sk_id (sinks a)) e)\<lparr>audio := None\<rparr>)"

definition enable_audio :: "bytes \<Rightarrow> engine \<Rightarrow> engine" where
  "enable_audio peer_name e = (if audio e = None
     then notify (schedule_broadcast (e\<lparr>audio := Some (new_audio_state peer_name)\<rparr>)) else e)"

definition disable_audio :: "engine \<Rightarrow> engine" where
  "disable_audio e = (if audio e \<noteq> None then schedule_broadcast (audio_shutdown e) else e)"

definition publish :: "bytes \<Rightarrow> engine \<Rightarrow> channel_id option \<times> engine" where
  "publish name e = (case audio e of None \<Rightarrow> (None, e) | Some a \<Rightarrow>
     case random_id e of (None, e) \<Rightarrow> (None, panic e) | (Some i, e) \<Rightarrow>
     let k = \<lparr>sk_id = i, sk_name = take MAX_NAME name, requesters = [], next_seq = 1, segments = [],
              sk_format = None\<rparr>
     in (Some i, notify (e\<lparr>audio := Some (a\<lparr>sinks := sinks a @ [k], last_announce_at := 0\<rparr>)\<rparr>)))"

definition unpublish :: "channel_id \<Rightarrow> engine \<Rightarrow> engine" where
  "unpublish ch e = (case audio e of None \<Rightarrow> e | Some a \<Rightarrow>
     let left = filter (\<lambda>k. sk_id k \<noteq> ch) (sinks a);
         e = e\<lparr>audio := Some (a\<lparr>sinks := left\<rparr>)\<rparr>
     in if length left \<noteq> length (sinks a) then send_byes [ch] e else e)"

definition subscribe :: "channel_id \<Rightarrow> i64 \<Rightarrow> engine \<Rightarrow> engine" where
  "subscribe ch quantum e = (let (t, e) = now e in case audio e of None \<Rightarrow> e | Some a \<Rightarrow>
     let srcs = (case map_of (sources a) ch of Some _ \<Rightarrow> sources a
           | None \<Rightarrow> AList.update ch \<lparr>so_quantum = quantum, last_request_at = t,
               last_buffer_at = word_of_int (- (2 ^ 62)), inbox = [], next_seq_expected = None,
               lost_chunks = 0\<rparr> (sources a))
     in notify (send_request ch False (e\<lparr>audio := Some (a\<lparr>sources := srcs\<rparr>)\<rparr>)))"

definition is_receiving :: "channel_id \<Rightarrow> i64 \<Rightarrow> engine \<Rightarrow> bool" where
  "is_receiving ch t e = (case audio e of None \<Rightarrow> False | Some a \<Rightarrow>
     case map_of (sources a) ch of None \<Rightarrow> False
     | Some s \<Rightarrow> t - last_buffer_at s \<le>s RECEIVING_WINDOW)"

definition unsubscribe :: "channel_id \<Rightarrow> engine \<Rightarrow> engine" where
  "unsubscribe ch e = (case audio e of None \<Rightarrow> e | Some a \<Rightarrow>
     if map_of (sources a) ch = None then e
     else send_request ch True (e\<lparr>audio := Some (a\<lparr>sources := AList.delete ch (sources a)\<rparr>)\<rparr>))"

section \<open>What the operations leave alone\<close>

lemma quiet_send_via [simp]: "quiet e (send_via gw bs dst e)"
  by (simp add: send_via_def split: option.split)

lemma quiet_send_all [simp]: "quiet e (send_all msgs e)"
  unfolding send_all_def by (rule quiet_foldl) (simp split: prod.split)

lemma quiet_send_request [simp]: "quiet e (send_request ch stop e)"
  by (simp add: send_request_def Let_def split: option.split prod.split)

lemma quiet_send_byes [simp]: "quiet e (send_byes channels e)"
  by (simp add: send_byes_def Let_def)

lemma quiet_send_datagrams [simp]: "quiet e (send_datagrams ds ns e)"
  by (simp add: send_datagrams_def split: option.split)

context observer
begin

lemma send_via [simp]: "I (send_via gw bs dst e) \<longleftrightarrow> I e"
  by (rule quiet) simp

lemma send_all [simp]: "I (send_all msgs e) \<longleftrightarrow> I e"
  by (rule quiet) simp

lemma send_request [simp]: "I (send_request ch stop e) \<longleftrightarrow> I e"
  by (rule quiet) simp

lemma send_byes [simp]: "I (send_byes channels e) \<longleftrightarrow> I e"
  by (rule quiet) simp

lemma send_datagrams [simp]: "I (send_datagrams ds ns e) \<longleftrightarrow> I e"
  by (rule quiet) simp

end

text \<open>The audio operations change the audio state, draw identifiers and may panic; everything else
  stays. \<open>sans_audio\<close> is the rest of the state.\<close>

definition sans_audio :: "engine \<Rightarrow> engine" where
  "sans_audio e = (stable e)\<lparr>audio := None, panicked := False, id_draws := 0\<rparr>"

lemma quiet_sans_audio: "quiet e e' \<Longrightarrow> sans_audio e' = sans_audio e"
  by (simp add: quiet_def sans_audio_def)

lemma sans_audio_update [simp]:
  "sans_audio (e\<lparr>audio := a\<rparr>) = sans_audio e"
  "sans_audio (e\<lparr>panicked := p\<rparr>) = sans_audio e"
  "sans_audio (e\<lparr>id_draws := d\<rparr>) = sans_audio e"
  "sans_audio (e\<lparr>clock_reads := c\<rparr>) = sans_audio e"
  "sans_audio (panic e) = sans_audio e"
  by (simp_all add: sans_audio_def stable_def panic_def)

lemma sans_audio_effects [simp]:
  "sans_audio (notify e) = sans_audio e"
  "sans_audio (transmit msgs e) = sans_audio e"
  "sans_audio (schedule_broadcast e) = sans_audio e"
  "sans_audio (send_via gw bs dst e) = sans_audio e"
  "sans_audio (send_all all e) = sans_audio e"
  "sans_audio (send_request ch stop e) = sans_audio e"
  "sans_audio (send_byes channels e) = sans_audio e"
  "sans_audio (send_datagrams ds ns e) = sans_audio e"
  by (rule quiet_sans_audio; simp)+

lemma sans_audio_fields:
  assumes "sans_audio e' = sans_audio e"
  shows "enabled e' = enabled e" "epoch e' = epoch e" "node e' = node e" "session e' = session e"
    "timeline e' = timeline e" "ghost_offset e' = ghost_offset e" "held_stst e' = held_stst e"
    "app_playing e' = app_playing e" "sst_sync e' = sst_sync e" "gateways e' = gateways e"
    "next_gateway_id e' = next_gateway_id e" "peers e' = peers e"
    "session_member_seen e' = session_member_seen e" "foreign_timelines e' = foreign_timelines e"
    "measured e' = measured e" "measurement e' = measurement e" "pending e' = pending e"
    "next_remeasure_at e' = next_remeasure_at e" "config e' = config e" "env e' = env e"
  using assms by (cases e; cases e'; simp add: sans_audio_def stable_def)+

lemma sans_audio_ok:
  assumes "engine_ok e" and "sans_audio e' = sans_audio e" and "panicked e' = panicked e"
    and "pred_option (audio_ok (next_gateway_id e)) (audio e')"
  shows "engine_ok e'"
  using assms(1,3,4) sans_audio_fields [OF assms(2)] by (simp add: engine_ok_def engine_invs)

lemma handle_audio_frame [frame_simps]:
  "sans_audio (handle_audio_datagram gw src buf e) = sans_audio e"
  by (simp add: handle_audio_datagram_def handle_audio_message_def handle_announcement_def now_def Let_def
      split: option.split sum.split audio_message.split)

lemma store_sink_frame [simp]: "sans_audio (store_sink ch k e) = sans_audio e"
  by (simp add: store_sink_def split: option.split)

lemma write_sink_frame [frame_simps]:
  "sans_audio (write_sink ch samples rate nc b q e) = sans_audio e"
  by (simp add: write_sink_def now_def Let_def split: option.split sum.split)

lemma departures_frame [simp]:
  "sans_audio (peer_left n e) = sans_audio e" "sans_audio (gateway_closed gw e) = sans_audio e"
  by (simp_all add: peer_left_def gateway_closed_def split: option.split)

lemma audio_housekeeping_frame [frame_simps]:
  "sans_audio (snd (audio_housekeeping t e)) = sans_audio e"
proof -
  have f: "sans_audio (foldl (\<lambda>e i. send_request i False e) e due) = sans_audio e" for e due
    by (induction due arbitrary: e) simp_all
  have a: "sans_audio (announce t e) = sans_audio e" for e
    by (simp add: announce_def Let_def split: option.split)
  have x: "sans_audio (snd (audio_expire t nx e)) = sans_audio e" for nx e
    by (simp add: audio_expire_def Let_def split: option.split)
  show ?thesis by (simp add: audio_housekeeping_def Let_def f a x split: option.split)
qed

lemma audio_calls_frame [frame_simps]:
  "sans_audio (audio_shutdown e) = sans_audio e"
  "sans_audio (enable_audio name e) = sans_audio e"
  "sans_audio (disable_audio e) = sans_audio e"
  "sans_audio (snd (publish name e)) = sans_audio e"
  "sans_audio (unpublish ch e) = sans_audio e"
  "sans_audio (subscribe ch q e) = sans_audio e"
  "sans_audio (unsubscribe ch e) = sans_audio e"
  by (simp_all add: audio_shutdown_def enable_audio_def disable_audio_def publish_def unpublish_def
      subscribe_def unsubscribe_def random_id_def now_def Let_def split: option.split)

end
