(* ===== verification/Audio_Inv.thy ===== *)
theory Audio_Inv
  imports Audio_Ops
begin

text \<open>
  The operations of \<^verbatim>\<open>crates/tactus/src/audio.rs\<close> keep the invariant of a peer: bounded names,
  inboxes and round-trip windows, one entry per key, entries only for gateways that have been opened,
  and material with a positive tempo, so that no operation divides by zero.
\<close>

section \<open>The audio invariant\<close>

lemma audio_after_quiet: "quiet e e' \<Longrightarrow> audio e' = audio e" "quiet e e' \<Longrightarrow> panicked e' = panicked e"
  by (simp_all add: quiet_fields)

lemma effects_audio [simp]:
  "audio (notify e) = audio e" "audio (send_via gw bs dst e) = audio e" "audio (send_all msgs e) = audio e"
  "audio (send_request ch stop e) = audio e" "audio (send_byes chs e) = audio e"
  "audio (send_datagrams ds ns e) = audio e" "audio (schedule_broadcast e) = audio e"
  "audio (panic e) = audio e"
  by (rule audio_after_quiet; simp)+ (simp add: panic_def)

lemma effects_panicked [simp]:
  "panicked (notify e) = panicked e" "panicked (send_via gw bs dst e) = panicked e"
  "panicked (send_all msgs e) = panicked e" "panicked (send_request ch stop e) = panicked e"
  "panicked (send_byes chs e) = panicked e" "panicked (send_datagrams ds ns e) = panicked e"
  "panicked (schedule_broadcast e) = panicked e" "panicked (panic e) = True"
  by (rule audio_after_quiet; simp)+ (simp add: panic_def)

lemma beats_at_ghost_Some: "legal_tempo (tempo l) \<Longrightarrow> \<exists>b. beats_at_ghost l g = Some b"
  using legal_tempo_pos [of "tempo l"] by (simp add: beats_at_ghost_def round_div_def)

lemma session_offset_Some: "legal_tempo (tempo l) \<Longrightarrow> \<exists>d. session_offset l q = Some d"
  using beats_at_ghost_Some [of l "time_origin l"] by (auto simp: session_offset_def)

lemma audio_ok_new: "audio_ok n (new_audio_state name)"
  by (simp add: audio_ok_def new_audio_state_def MAX_NAME_def)

lemma audio_ok_known:
  assumes "audio_ok n a" and "well_keyed kn" and "\<forall>x \<in> set kn. snd (fst x) < n"
  shows "audio_ok n (a\<lparr>known := kn\<rparr>)"
  using assms by (simp add: audio_ok_def)

lemma audio_ok_retain_known: "audio_ok n a \<Longrightarrow> audio_ok n (a\<lparr>known := retain P (known a)\<rparr>)"
  by (auto simp: audio_ok_def)

lemma audio_ok_retain_paths: "audio_ok n a \<Longrightarrow> audio_ok n (a\<lparr>paths := retain P (paths a)\<rparr>)"
  by (auto simp: audio_ok_def)

lemma audio_ok_sinks:
  "audio_ok n a \<Longrightarrow> \<forall>k \<in> set ks. sink_ok k \<Longrightarrow> audio_ok n (a\<lparr>sinks := ks\<rparr>)"
  by (simp add: audio_ok_def)

lemma audio_ok_sinksD: "audio_ok n a \<Longrightarrow> \<forall>k \<in> set (sinks a). sink_ok k"
  by (simp add: audio_ok_def)

lemma audio_ok_announced [simp]: "audio_ok n (a\<lparr>last_announce_at := t\<rparr>) = audio_ok n a"
  by (simp add: audio_ok_def)

lemma audio_ok_source:
  assumes "audio_ok n a" and "length (inbox s) \<le> 256"
  shows "audio_ok n (a\<lparr>sources := AList.update i s (sources a)\<rparr>)"
  using assms by (auto simp: audio_ok_def distinct_update dest!: mem_update)

lemma audio_ok_path:
  assumes "audio_ok n a" and "g < n" and "length (rtts p) \<le> 10"
  shows "audio_ok n (a\<lparr>paths := AList.update (m, g) p (paths a)\<rparr>)"
  using assms by (auto simp: audio_ok_def distinct_update dest!: mem_update)

lemma update_first_ok:
  "\<forall>x \<in> set xs. Q x \<Longrightarrow> (\<And>x. P x \<Longrightarrow> Q x \<Longrightarrow> Q (f x)) \<Longrightarrow> \<forall>x \<in> set (update_first P f xs). Q x"
  by (induction xs) auto

lemma path_record_window: "length (rtts p) \<le> 10 \<Longrightarrow> length (rtts (path_record p r)) \<le> 10"
  by (auto simp: path_record_def Let_def RTT_WINDOW_def)

lemma heard_channels:
  assumes "well_keyed kn" and "\<forall>x \<in> set kn. snd (fst x) < n" and "gw < n"
  shows "well_keyed (foldl (\<lambda>kn ch. AList.update (ci_id ch, gw) (f ch) kn) kn chs) \<and>
    (\<forall>x \<in> set (foldl (\<lambda>kn ch. AList.update (ci_id ch, gw) (f ch) kn) kn chs). snd (fst x) < n)"
  using assms
proof (induction chs arbitrary: kn)
  case (Cons ch chs)
  let ?m = "AList.update (ci_id ch, gw) (f ch) kn"
  have "\<forall>x \<in> set ?m. snd (fst x) < n"
    using Cons.prems by (auto dest!: mem_update)
  then have "well_keyed ?m" and "\<forall>x \<in> set ?m. snd (fst x) < n"
    using Cons.prems by (simp_all add: distinct_update)
  from Cons.IH [OF this Cons.prems(3)] show ?case by simp
qed simp

lemma length_keep_last: "length (drop (length xs - n) xs) \<le> n"
  by simp

lemma deliver_ok:
  assumes "deliver s b l t = Some s'"
  shows "length (inbox s') \<le> 256"
proof (rule deliver_Some [OF assms])
  fix delta
  assume "inbox s' = (let i = inbox s @ map2 (received_of b delta)
      (cut_samples (channel_count (ab_num_channels b)) (buffer_samples b) (ab_chunks b)) (ab_chunks b)
      in drop (length i - INBOX_LIMIT) i)"
  then show ?thesis by (simp only: Let_def INBOX_LIMIT_def length_keep_last)
qed

lemma handle_message_ok:
  assumes "audio_ok (next_gateway_id e) a" and "audio e = Some a" and "legal_tempo (tempo (timeline e))"
    and "gw < next_gateway_id e"
  shows "pred_option (audio_ok (next_gateway_id e)) (audio (handle_audio_message t gw src frame a e)) \<and>
    panicked (handle_audio_message t gw src frame a e) = panicked e"
proof (cases "af_message frame")
  case (PeerAnnouncement s name chs ping)
  have "audio_ok (next_gateway_id e) (a\<lparr>known := foldl (\<lambda>kn ch. AList.update (ci_id ch, gw) (f ch) kn)
      (known a) chs\<rparr>)" for f
    using assms(1,4) heard_channels [of "known a" "next_gateway_id e" gw f chs]
    by (intro audio_ok_known) (simp_all add: audio_ok_def)
  then show ?thesis using assms
    by (simp add: handle_audio_message_def handle_announcement_def PeerAnnouncement Let_def
        split: option.split)
next
  case (ChannelByes chs)
  then show ?thesis using assms
    by (simp add: handle_audio_message_def audio_ok_retain_known case_prod_unfold)
next
  case (AudioPong ht)
  let ?stats = "case map_of (paths a) (af_node frame, gw) of None \<Rightarrow> default_path_stats | Some p \<Rightarrow> p"
  have "length (rtts ?stats) \<le> 10"
    using assms(1) by (auto simp: default_path_stats_def audio_ok_def split: option.split dest: map_of_SomeD)
  then show ?thesis using assms AudioPong
    by (simp add: handle_audio_message_def audio_ok_path path_record_window Let_def)
next
  case (ChannelRequest ch)
  have "audio_ok (next_gateway_id e) (a\<lparr>sinks := update_first (\<lambda>k. sk_id k = ch)
     (\<lambda>k. k\<lparr>requesters := AList.update m d (requesters k)\<rparr>) (sinks a)\<rparr>)" for m d
    using assms(1) by (intro audio_ok_sinks update_first_ok)
      (auto simp: audio_ok_def sink_ok_def distinct_update)
  then show ?thesis using assms ChannelRequest by (simp add: handle_audio_message_def)
next
  case (StopChannelRequest ch)
  have "audio_ok (next_gateway_id e) (a\<lparr>sinks := update_first (\<lambda>k. sk_id k = ch)
     (\<lambda>k. k\<lparr>requesters := AList.delete m (requesters k)\<rparr>) (sinks a)\<rparr>)" for m
    using assms(1) by (intro audio_ok_sinks update_first_ok)
      (auto simp: audio_ok_def sink_ok_def distinct_delete)
  then show ?thesis using assms StopChannelRequest by (simp add: handle_audio_message_def)
next
  case (AudioBuffer b)
  have "\<exists>s'. deliver s b (timeline e) t = Some s' \<and> length (inbox s') \<le> 256" for s
    using session_offset_Some [OF assms(3), of "so_quantum s"] deliver_ok [of s b "timeline e" t]
    by (auto simp: deliver_def)
  then obtain d where d: "\<And>s. deliver s b (timeline e) t = Some (d s) \<and> length (inbox (d s)) \<le> 256"
    by metis
  show ?thesis using assms AudioBuffer d
    by (simp add: handle_audio_message_def audio_ok_source split: option.split)
qed

section \<open>The operations keep the invariant of the peer\<close>

lemma engine_ok_audio:
  "engine_ok e \<Longrightarrow> audio e = Some a \<Longrightarrow> audio_ok (next_gateway_id e) a"
  by (simp add: engine_ok_def audio_inv_def)

lemma engine_ok_set_audio:
  "engine_ok e \<Longrightarrow> pred_option (audio_ok (next_gateway_id e)) b \<Longrightarrow> engine_ok (e\<lparr>audio := b\<rparr>)"
  by (rule sans_audio_ok) (simp_all add: engine_ok_def alive_inv_def)

lemma engine_ok_set_Some [intro!]:
  "engine_ok e \<Longrightarrow> audio_ok (next_gateway_id e) a \<Longrightarrow> engine_ok (e\<lparr>audio := Some a\<rparr>)"
  by (rule engine_ok_set_audio) simp_all

lemma handle_audio_ok [inv_intros]:
  assumes "engine_ok e" and "gw < next_gateway_id e"
  shows "engine_ok (handle_audio_datagram gw src buf e)"
proof (rule sans_audio_ok [OF assms(1) handle_audio_frame])
  have "pred_option (audio_ok (next_gateway_id e)) (audio (handle_audio_datagram gw src buf e)) \<and>
    panicked (handle_audio_datagram gw src buf e) = panicked e"
    using assms engine_ok_legal [OF assms(1)]
      engine_ok_audio [OF assms(1)] handle_message_ok [where e = "snd (now e)"]
    by (simp add: handle_audio_datagram_def now_def split: option.split sum.split)
  then show "panicked (handle_audio_datagram gw src buf e) = panicked e"
    and "pred_option (audio_ok (next_gateway_id e)) (audio (handle_audio_datagram gw src buf e))"
    by simp_all
qed

lemma peer_left_ok [inv_intros]: "engine_ok e \<Longrightarrow> engine_ok (peer_left n e)"
  using engine_ok_audio [of e] audio_ok_retain_known audio_ok_retain_paths
  by (fastforce simp: peer_left_def split: option.split)

lemma gateway_closed_ok [inv_intros]: "engine_ok e \<Longrightarrow> engine_ok (gateway_closed g e)"
  using engine_ok_audio [of e] audio_ok_retain_known audio_ok_retain_paths
  by (fastforce simp: gateway_closed_def split: option.split)

lemma audio_shutdown_ok [inv_intros]: "engine_ok e \<Longrightarrow> engine_ok (audio_shutdown e)"
  by (auto simp: audio_shutdown_def intro!: engine_ok_set_audio split: option.split)

lemma enable_audio_ok [inv_intros]: "engine_ok e \<Longrightarrow> engine_ok (enable_audio name e)"
  by (auto simp: enable_audio_def audio_ok_new)

lemma disable_audio_ok [inv_intros]: "engine_ok e \<Longrightarrow> engine_ok (disable_audio e)"
  by (simp add: disable_audio_def audio_shutdown_ok)

lemma publish_ok [inv_intros]: "engine_ok e \<Longrightarrow> engine_ok (snd (publish name e))"
  using engine_ok_audio [of e]
  by (auto simp: publish_def random_id_def audio_ok_def sink_ok_def intro: engine_ok_no_randomness split: option.split)

lemma unpublish_ok [inv_intros]: "engine_ok e \<Longrightarrow> engine_ok (unpublish ch e)"
  using engine_ok_audio [of e]
  by (auto simp: unpublish_def Let_def audio_ok_def split: option.split)

lemma subscribe_ok [inv_intros]:
  assumes "engine_ok e"
  shows "engine_ok (subscribe ch q e)"
proof -
  have "audio_ok (next_gateway_id e) (a\<lparr>sources := AList.update ch s (sources a)\<rparr>)"
    if "audio e = Some a" and "inbox s = []" for a s
    using engine_ok_audio [OF assms that(1)] that(2) audio_ok_source [of "next_gateway_id e" a s ch]
    by simp
  then show ?thesis using assms engine_ok_audio [OF assms]
    by (auto simp: subscribe_def now_def Let_def split: option.split)
qed

lemma unsubscribe_ok [inv_intros]: "engine_ok e \<Longrightarrow> engine_ok (unsubscribe ch e)"
  using engine_ok_audio [of e]
  by (auto simp: unsubscribe_def audio_ok_def distinct_delete dest!: mem_delete split: option.split)

lemma poll_ok: "audio_ok n a \<Longrightarrow> map_of (sources a) i = Some s \<Longrightarrow>
    audio_ok n (a\<lparr>sources := AList.update i (s\<lparr>inbox := []\<rparr>) (sources a)\<rparr>)"
  by (rule audio_ok_source) simp_all


lemma engine_ok_map_audio:
  "engine_ok e \<Longrightarrow> (\<And>a. audio_ok (next_gateway_id e) a \<Longrightarrow> audio_ok (next_gateway_id e) (f a)) \<Longrightarrow>
    engine_ok (e\<lparr>audio := map_option f (audio e)\<rparr>)"
  by (rule engine_ok_set_audio) (auto simp: engine_ok_def audio_inv_def option.pred_map intro: option.pred_mono_strong)

lemma effects_next_gateway [simp]:
  "next_gateway_id (notify e) = next_gateway_id e" "next_gateway_id (send_all msgs e) = next_gateway_id e"
  by (rule quiet_fields; simp)+

lemma announce_ok [inv_intros]: "engine_ok e \<Longrightarrow> engine_ok (announce t e)"
  using engine_ok_audio [of e] by (auto simp: announce_def Let_def split: option.split)

lemma expire_requesters_ok: "sink_ok k \<Longrightarrow> sink_ok (expire_requesters t k)"
  by (simp add: expire_requesters_def sink_ok_def)

lemma audio_expire_ok [inv_intros]:
  assumes "engine_ok e"
  shows "engine_ok (snd (audio_expire t nx e))"
proof -
  have "audio_ok (next_gateway_id e) (a\<lparr>sinks := map (expire_requesters t) (sinks a), known := expire_known t (known a)\<rparr>)"
    if "audio e = Some a" for a
    using engine_ok_audio [OF assms that] expire_requesters_ok
    by (auto simp: audio_ok_def expire_known_def)
  then show ?thesis using assms by (auto simp: audio_expire_def Let_def split: option.split)
qed

lemma touch_requests_ok:
  "audio_ok n a \<Longrightarrow> audio_ok n (b\<lparr>sources := touch_requests t (sources a)\<rparr>) \<longleftrightarrow> audio_ok n (b\<lparr>sources := []\<rparr>)"
  by (auto simp: audio_ok_def touch_requests_def comp_def case_prod_unfold)

lemma audio_ok_no_sources: "audio_ok n a \<Longrightarrow> audio_ok n (a\<lparr>sources := []\<rparr>)"
  by (simp add: audio_ok_def)

lemma engine_ok_requests [simp]:
  "engine_ok (foldl (\<lambda>e i. send_request i stop e) e due) \<longleftrightarrow> engine_ok e"
  by (induction due arbitrary: e) simp_all

lemma announce_next_gateway [simp]: "next_gateway_id (announce t e) = next_gateway_id e"
  by (simp add: announce_def Let_def split: option.split)

lemma audio_housekeeping_ok [inv_intros]:
  assumes "engine_ok e"
  shows "engine_ok (snd (audio_housekeeping t e))"
proof (cases "audio e")
  case (Some a)
  have "engine_ok (e'\<lparr>audio := map_option (\<lambda>b. b\<lparr>sources := touch_requests t (sources a)\<rparr>) (audio e')\<rparr>)"
    if "engine_ok e'" and "next_gateway_id e' = next_gateway_id e" for e'
    using that engine_ok_audio [OF assms Some] touch_requests_ok audio_ok_no_sources
    by (intro engine_ok_map_audio) simp_all
  from this [of e] this [of "announce t e"] assms show ?thesis
    by (simp add: audio_housekeeping_def Let_def Some announce_ok audio_expire_ok)
qed (use assms in \<open>simp add: audio_housekeeping_def\<close>)

section \<open>Writing\<close>

lemma contiguous_Some:
  assumes "0 < uint rate" and "0 < sint tmpo"
  shows "\<exists>c. contiguous rate nc tmpo b sgs = Some c"
  using assms by (auto simp: contiguous_def frames_to_micro_beats_def round_div_pos Let_def)

lemma contiguous_last:
  "contiguous rate nc tmpo b sgs = Some True \<Longrightarrow> sgs \<noteq> [] \<and> sg_tempo (last sgs) = tmpo"
  by (auto simp: contiguous_def Let_def split: if_splits)

lemma append_material_tempos:
  assumes "contiguous rate nc tmpo b sgs = Some c" and "0 < sint tmpo" and "positive_tempos sgs"
  shows "positive_tempos (append_material c tmpo b samples sgs)"
  using assms contiguous_last [of rate nc tmpo b sgs]
  by (cases c) (auto simp: append_material_def positive_tempos_def dest: in_set_butlastD)

lemma reformat_ok: "sink_ok k \<Longrightarrow> sink_ok (reformat rate nc k)"
  by (simp add: reformat_def sink_ok_def)

lemma audio_ok_update_sink:
  "audio_ok n a \<Longrightarrow> sink_ok k \<Longrightarrow> audio_ok n (a\<lparr>sinks := update_first P (\<lambda>_. k) (sinks a)\<rparr>)"
  by (rule audio_ok_sinks, assumption, rule update_first_ok, erule audio_ok_sinksD, assumption)

lemma store_sink_ok [inv_intros]:
  "engine_ok e \<Longrightarrow> sink_ok k \<Longrightarrow> engine_ok (store_sink ch k e)"
  using engine_ok_audio [of e]
  by (simp add: store_sink_def engine_ok_set_Some audio_ok_update_sink split: option.split)

lemma write_sink_ok [inv_intros]:
  assumes "engine_ok e" and "rate \<noteq> 0"
  shows "engine_ok (write_sink ch samples rate nc b q e)"
proof (cases "\<exists>a k. audio e = Some a \<and> List.find (\<lambda>k. sk_id k = ch) (sinks a) = Some k")
  case True
  then obtain a k where a: "audio e = Some a" and k: "List.find (\<lambda>k. sk_id k = ch) (sinks a) = Some k"
    by blast
  have "sink_ok k"
    using engine_ok_audio [OF assms(1) a] k by (auto simp: find_Some_iff audio_ok_def)
  obtain delta where d: "session_offset (timeline e) q = Some delta"
    using session_offset_Some engine_ok_legal [OF assms(1)] by blast
  define k0 where "k0 = reformat rate nc k"
  have k0: "sink_ok k0" unfolding k0_def by (rule reformat_ok) fact
  define bw where "bw = f64_to_i64 (f64_round (f64_mul b (Fin 1000000))) - delta"
  have r: "0 < uint rate" using assms(2) unsigned_greater_eq [of rate]
    by (metis order_le_less unsigned_eq_0_iff)
  have t: "0 < sint (tempo (timeline e))" using engine_ok_legal [OF assms(1)] legal_tempo_pos by blast
  obtain c where c: "contiguous rate nc (tempo (timeline e)) bw (segments k0) = Some c"
    using contiguous_Some [OF r t] by blast
  define now_e where "now_e = env_clock (env e) (clock_reads e)"
  define k1 where "k1 = k0\<lparr>segments := append_material c (tempo (timeline e)) bw samples (segments k0),
     requesters := retain (\<lambda>_ expiry. now_e <s expiry) (requesters k0)\<rparr>"
  have p: "positive_tempos (segments k1)"
    using append_material_tempos [OF c t] k0 by (simp add: k1_def sink_ok_def positive_tempos_def)
  have k1: "sink_ok k1" using k0 p by (simp add: k1_def sink_ok_def positive_tempos_def)
  obtain k' bs where dr: "drain_datagrams k1 ch (session e) rate nc (fill_audio_datagrams (config e)) = Inr (k', bs)"
    and "positive_tempos (segments k')" "same_sink k1 k'"
    using drain_datagrams_spec [OF r p] unfolding drained_def by blast
  then have k': "sink_ok k'" using k1 by (simp add: sink_ok_def same_sink_def positive_tempos_def)
  have "sink_ok (k1\<lparr>segments := []\<rparr>)" using k1 by (simp add: sink_ok_def)
  then show ?thesis
    using assms(1) a k d c dr k'
    by (simp add: write_sink_def now_def Let_def store_sink_ok flip: k0_def bw_def now_e_def k1_def)
qed (use assms in \<open>auto simp: write_sink_def now_def Let_def split: option.split\<close>)

end
