(* ===== verification/Session.thy ===== *)
theory Session
  imports Audio_Inv
begin

text \<open>
  Session election and departure, \<^verbatim>\<open>crates/tactus/src/engine.rs\<close>: the join rule, founding a fresh
  session, the loss of the last member and the closing of a gateway.
\<close>

section \<open>The join rule\<close>

definition join_rule :: "i64 \<Rightarrow> session_id \<Rightarrow> session_id \<Rightarrow> bool" where
  "join_rule gap new cur \<longleftrightarrow> JOIN_EPSILON <s gap \<or> (sabs gap <s JOIN_EPSILON \<and> new < cur)"

definition clamped :: "timeline \<Rightarrow> timeline" where
  "clamped l = l\<lparr>tempo := clamp_tempo (tempo l)\<rparr>"

definition evaluate_join :: "session_id \<Rightarrow> i64 \<Rightarrow> engine \<Rightarrow> engine" where
  "evaluate_join sess offset e = (if sess = session e then e else
     if \<not> join_rule (offset - ghost_offset e) sess (session e) then e else
     let e = e\<lparr>measured := AList.update (session e) (ghost_offset e) (measured e)\<rparr>;
         e = e\<lparr>session := sess, ghost_offset := offset\<rparr>;
         e = (case map_of (foreign_timelines e) sess of None \<Rightarrow> e
              | Some l \<Rightarrow> e\<lparr>timeline := clamped l\<rparr>);
         e = e\<lparr>held_stst := default_start_stop, session_member_seen := True\<rparr>;
         (t, e) = now e
     in schedule_broadcast (e\<lparr>next_remeasure_at := Some (t + REMEASURE_PERIOD)\<rparr>))"

section \<open>A fresh session\<close>

definition reset_session :: "engine \<Rightarrow> engine" where
  "reset_session e = (let (t, e) = now e in
     case beats_at_ghost (timeline e) (t + ghost_offset e) of None \<Rightarrow> panic e
     | Some beats_now \<Rightarrow>
         let e = e\<lparr>measured := AList.update (session e) (ghost_offset e) (measured e)\<rparr> in
         case random_id e of (None, e) \<Rightarrow> panic e
         | (Some i, e) \<Rightarrow>
             let e = e\<lparr>node := i, session := i, ghost_offset := - t,
               timeline := \<lparr>tempo = tempo (timeline e), beat_origin = beats_now, time_origin = 0\<rparr>,
               held_stst := \<lparr>is_playing = is_playing (held_stst e), ss_beats = beats_now, timestamp = 0\<rparr>,
               session_member_seen := False, next_remeasure_at := None\<rparr>
             in schedule_broadcast e)"

definition has_member :: "engine \<Rightarrow> bool" where
  "has_member e \<longleftrightarrow> (\<exists>p \<in> set (peers e). ps_session (pe_state (snd p)) = Some (session e))"

definition check_session_loss :: "engine \<Rightarrow> engine" where
  "check_session_loss e = (if \<not> session_member_seen e then e
     else if \<not> has_member e then reset_session e else e)"

section \<open>Closing a gateway\<close>

text \<open>The nodes in \<open>lost\<close> that have no entry left on any gateway leave the audio state.\<close>

definition departed :: "node_id list \<Rightarrow> engine \<Rightarrow> engine" where
  "departed lost e = foldl (\<lambda>e n.
     if \<exists>p \<in> set (peers e). fst (fst p) = n then e else peer_left n e) e lost"

definition close_gateway :: "nat \<Rightarrow> engine \<Rightarrow> engine" where
  "close_gateway i e =
     (let e = (case map_of (gateways e) i of None \<Rightarrow> e
            | Some gw \<Rightarrow> transmit [Send_multicast (gw_id gw) (encode_disc (disc_bye_bye (node e)))]
                (e\<lparr>gateways := AList.delete i (gateways e)\<rparr>));
          lost = map (\<lambda>p. fst (fst p)) (filter (\<lambda>p. snd (fst p) = i) (peers e));
          e = e\<lparr>peers := retain (\<lambda>(_, g) _. g \<noteq> i) (peers e)\<rparr>;
          e = e\<lparr>pending := filter (\<lambda>t. mt_gateway t \<noteq> i) (pending e)\<rparr>;
          e = gateway_closed i e;
          e = departed lost e
      in and_then notify (check_session_loss e))"

section \<open>The operations keep the invariant\<close>

lemma legal_clamped [simp]: "legal_tempo (tempo (clamped l))"
  by (simp add: clamped_def)

lemma evaluate_join_ok [inv_intros]:
  assumes "engine_ok e"
  shows "engine_ok (evaluate_join sess offset e)"
proof -
  have "engine_ok (e\<lparr>measured := AList.update (session e) (ghost_offset e) (measured e), session := sess,
      ghost_offset := offset, timeline := l, held_stst := default_start_stop, session_member_seen := True,
      clock_reads := c, next_remeasure_at := r\<rparr>)"
    if "legal_tempo (tempo l)" for l c r
    using assms that by (simp add: engine_ok_def engine_invs distinct_update)
  from this [of "timeline e"] this [OF legal_clamped] show ?thesis
    using assms engine_ok_legal [OF assms]
    by (simp add: evaluate_join_def Let_def now_def split: option.split)
qed

lemma reset_session_ok [inv_intros]:
  assumes "engine_ok e"
  shows "engine_ok (reset_session e)"
proof -
  obtain b where b: "beats_at_ghost (timeline e) (fst (now e) + ghost_offset e) = Some b"
    using beats_at_ghost_Some engine_ok_legal [OF assms] by blast
  have "engine_ok (e\<lparr>clock_reads := c, measured := AList.update (session e) (ghost_offset e) (measured e),
      id_draws := d, node := i, session := i, ghost_offset := g,
      timeline := \<lparr>tempo = tempo (timeline e), beat_origin = bo, time_origin = 0\<rparr>,
      held_stst := h, session_member_seen := False, next_remeasure_at := None\<rparr>)" for c d i g bo h
    using assms by (simp add: engine_ok_def engine_invs distinct_update)
  moreover have "engine_ok (panic (e\<lparr>clock_reads := c, measured := AList.update (session e) (ghost_offset e) (measured e),
      id_draws := d\<rparr>))" if "env_ids (env e) n = None" for c d n
    by (rule engine_ok_no_randomness) (use assms that in \<open>simp_all add: engine_ok_def engine_invs distinct_update\<close>)
  ultimately show ?thesis using b by (simp add: reset_session_def now_def random_id_def Let_def split: option.split)
qed

lemma check_session_loss_ok [inv_intros]: "engine_ok e \<Longrightarrow> engine_ok (check_session_loss e)"
  by (simp add: check_session_loss_def reset_session_ok)

lemma and_then_ok [inv_intros]:
  "engine_ok e \<Longrightarrow> (engine_ok e \<Longrightarrow> engine_ok (f e)) \<Longrightarrow> engine_ok (and_then f e)"
  by (simp add: and_then_def)

lemma departed_ok [inv_intros]: "engine_ok e \<Longrightarrow> engine_ok (departed lost e)"
  unfolding departed_def by (induction lost arbitrary: e) (auto simp: peer_left_ok)

lemma delete_key: "fst ` set (AList.delete k m) = fst ` set m - {k}"
  by (force simp: AList.delete_eq)

lemma peer_gateways_retain:
  "\<forall>x \<in> set ps. snd (fst x) \<in> K \<Longrightarrow> ((n, g), p) \<in> set ps \<Longrightarrow> g \<in> K"
  by force

lemma close_gateway_ok [inv_intros]:
  assumes "engine_ok e"
  shows "engine_ok (close_gateway i e)"
proof -
  have k: "map_of (gateways e) i = None \<Longrightarrow> AList.delete i (gateways e) = gateways e"
    by (simp add: map_of_eq_None_iff)
  have "engine_ok (e'\<lparr>peers := retain (\<lambda>(_, g) _. g \<noteq> i) (peers e),
      pending := filter (\<lambda>t. mt_gateway t \<noteq> i) (pending e)\<rparr>)"
    if "e' = e\<lparr>gateways := AList.delete i (gateways e), sent := s\<rparr>" for e' s
    using assms unfolding that
    by (auto simp: engine_ok_def engine_invs delete_key distinct_delete distinct_map_filter running_ok_def
        dest!: mem_delete elim!: option.pred_mono_strong intro: peer_gateways_retain)
  from this [OF refl] this [of _ "sent e", OF refl] show ?thesis
    by (auto simp: close_gateway_def Let_def transmit_def k intro!: inv_intros split: option.split)
qed

end
