(* ===== verification/Median.thy ===== *)
theory Median
  imports Float64 "HOL-Library.Multiset"
begin

text \<open>
  The median of the offset samples, \<^verbatim>\<open>median_round\<close> of \<^verbatim>\<open>crates/tactus/src/engine.rs\<close>: a sort by
  \<open>partial_cmp\<close>, which panics on a NaN, the middle element or the mean of the two middle elements, and
  the rounding to an integer.
\<close>

section \<open>Definitions\<close>

text \<open>\<open>sort_by\<close> is a stable sort; insertion sort gives the same list.\<close>

primrec insert_sample :: "f64 \<Rightarrow> f64 list \<Rightarrow> f64 list" where
  "insert_sample x [] = [x]"
| "insert_sample x (y # ys) = (if f64_less y x then y # insert_sample x ys else x # y # ys)"

definition sort_samples :: "f64 list \<Rightarrow> f64 list" where
  "sort_samples xs = foldr insert_sample xs []"

definition median :: "f64 list \<Rightarrow> f64" where
  "median samples = (let xs = sort_samples samples; n = length xs in
     if odd n then xs ! (n div 2)
     else f64_div (f64_add (xs ! (n div 2 - 1)) (xs ! (n div 2))) (Fin 2))"

text \<open>The ways to panic: an empty list underflows the index, and a comparison with a NaN fails.\<close>

definition median_round :: "f64 list \<Rightarrow> i64 option" where
  "median_round samples =
     (if samples = [] \<or> (1 < length samples \<and> NaN \<in> set samples) then None
      else Some (f64_to_i64 (f64_round (median samples))))"

section \<open>The order without NaN\<close>

lemma f64_less_asym: "f64_less a b \<Longrightarrow> \<not> f64_less b a"
  by (cases a; cases b) auto

lemma f64_not_less_trans:
  "\<not> f64_less b a \<Longrightarrow> \<not> f64_less c b \<Longrightarrow> b \<noteq> NaN \<Longrightarrow> a \<noteq> NaN \<Longrightarrow> c \<noteq> NaN \<Longrightarrow> \<not> f64_less c a"
  by (cases a; cases b; cases c) auto

lemma f64_below: "f64_less x l \<Longrightarrow> \<not> f64_less x y \<Longrightarrow> y \<noteq> NaN \<Longrightarrow> f64_less y l"
  by (cases x; cases y; cases l) auto

lemma f64_above: "f64_less h x \<Longrightarrow> \<not> f64_less y x \<Longrightarrow> y \<noteq> NaN \<Longrightarrow> f64_less h y"
  by (cases x; cases y; cases h) auto

section \<open>Sorting\<close>

abbreviation ascending :: "f64 list \<Rightarrow> bool" where
  "ascending \<equiv> sorted_wrt (\<lambda>a b. \<not> f64_less b a)"

lemma mset_insert_sample: "mset (insert_sample x ys) = {#x#} + mset ys"
  by (induction ys) (auto simp: add_mset_commute)

lemma mset_sort_samples [simp]: "mset (sort_samples xs) = mset xs"
  by (induction xs) (simp_all add: sort_samples_def mset_insert_sample)

lemma set_insert_sample: "set (insert_sample x ys) = insert x (set ys)"
  by (metis mset_insert_sample set_mset_add_mset_insert set_mset_mset union_mset_add_mset_left empty_neutral(1))

lemma ascending_insert:
  "ascending ys \<Longrightarrow> NaN \<notin> set ys \<Longrightarrow> x \<noteq> NaN \<Longrightarrow> ascending (insert_sample x ys)"
  by (induction ys) (auto simp: set_insert_sample dest: f64_less_asym f64_not_less_trans)

lemma set_sort_samples [simp]: "set (sort_samples xs) = set xs"
  by (metis mset_sort_samples set_mset_mset)

lemma ascending_sort: "NaN \<notin> set xs \<Longrightarrow> ascending (sort_samples xs)"
proof (induction xs)
  case (Cons x xs)
  have "NaN \<notin> set (sort_samples xs)" using Cons.prems by simp
  then show ?case using Cons ascending_insert [of "sort_samples xs" x] by (auto simp: sort_samples_def)
qed (simp add: sort_samples_def)

lemma length_sort_samples [simp]: "length (sort_samples xs) = length xs"
  by (metis mset_sort_samples size_mset)

section \<open>The middle of a list with a majority in an interval\<close>

definition inside :: "f64 \<Rightarrow> f64 \<Rightarrow> f64 \<Rightarrow> bool" where
  "inside lo hi x \<longleftrightarrow> \<not> f64_less x lo \<and> \<not> f64_less hi x"

lemma inside_Fin: "x \<noteq> NaN \<Longrightarrow> inside (Fin a) (Fin b) x \<Longrightarrow> \<exists>r. x = Fin r \<and> a \<le> r \<and> r \<le> b"
  by (cases x) (auto simp: inside_def)

lemma majority_not_below:
  assumes "ascending xs" and "NaN \<notin> set xs" and "i < length xs"
    and "length xs < i + 1 + length (filter (inside lo hi) xs)"
  shows "\<not> f64_less (xs ! i) lo"
proof
  assume b: "f64_less (xs ! i) lo"
  have "f64_less (xs ! j) lo" if "j \<le> i" for j
  proof (cases "j = i")
    case False
    then have "j < i" using that by simp
    with assms(1,3) have "\<not> f64_less (xs ! i) (xs ! j)" by (simp add: sorted_wrt_iff_nth_less)
    moreover have "xs ! j \<noteq> NaN" using assms(2,3) that by (metis nth_mem le_less_trans)
    ultimately show ?thesis using b f64_below by blast
  qed (use b in simp)
  then have "filter (inside lo hi) (take (i + 1) xs) = []"
    using assms(3) by (auto simp: filter_empty_conv in_set_conv_nth inside_def)
  then have "filter (inside lo hi) xs = filter (inside lo hi) (drop (i + 1) xs)"
    by (metis append_Nil append_take_drop_id filter_append)
  then have "length (filter (inside lo hi) xs) \<le> length xs - (i + 1)"
    by (metis length_drop length_filter_le)
  with assms(3,4) show False by simp
qed

lemma majority_not_above:
  assumes "ascending xs" and "NaN \<notin> set xs" and "i < length xs"
    and "i < length (filter (inside lo hi) xs)"
  shows "\<not> f64_less hi (xs ! i)"
proof
  assume b: "f64_less hi (xs ! i)"
  have "f64_less hi (xs ! j)" if "i \<le> j" "j < length xs" for j
  proof (cases "j = i")
    case False
    then have "i < j" using that by simp
    with assms(1) that(2) have "\<not> f64_less (xs ! j) (xs ! i)" by (simp add: sorted_wrt_iff_nth_less)
    moreover have "xs ! j \<noteq> NaN" using assms(2) that by (metis nth_mem)
    ultimately show ?thesis using b f64_above by blast
  qed (use b in simp)
  then have "filter (inside lo hi) (drop i xs) = []"
    by (auto simp: filter_empty_conv in_set_conv_nth inside_def)
  then have "filter (inside lo hi) xs = filter (inside lo hi) (take i xs)"
    by (metis append_Nil2 append_take_drop_id filter_append)
  then have "length (filter (inside lo hi) xs) \<le> i"
    using assms(3) by (metis length_filter_le length_take min.absorb4)
  with assms(4) show False by simp
qed

lemma majority_within:
  assumes "ascending xs" and "NaN \<notin> set xs" and "length xs < 2 * length (filter (inside lo hi) xs)"
    and "length xs \<le> 2 * i + 2" and "2 * i \<le> length xs" and "i < length xs"
  shows "inside lo hi (xs ! i)"
  using majority_not_below [OF assms(1,2,6), of lo hi] majority_not_above [OF assms(1,2,6), of lo hi] assms
  by (simp add: inside_def)

lemma filter_within_sort: "length (filter P (sort_samples xs)) = length (filter P xs)"
  by (metis mset_filter mset_sort_samples size_mset)

section \<open>The mean of the two middle samples\<close>

lemma below_limit: "\<bar>i\<bar> \<le> 2 ^ 53 \<Longrightarrow> \<bar>of_int i :: rat\<bar> < f64_limit"
proof -
  assume "\<bar>i\<bar> \<le> 2 ^ 53"
  then have "\<bar>of_int i :: rat\<bar> \<le> of_int (2 ^ 53)" by (simp only: of_int_abs [symmetric] of_int_le_iff)
  also have "\<dots> < f64_limit" using f64_limit_big by simp
  finally show ?thesis .
qed

lemma rnd_between_ints:
  assumes "\<bar>lo\<bar> \<le> 2 ^ 53" and "\<bar>hi\<bar> \<le> 2 ^ 53" and "of_int lo \<le> x" and "x \<le> of_int hi"
  shows "\<exists>r. rnd x = Fin r \<and> of_int lo \<le> r \<and> r \<le> of_int hi"
  using rnd_Fin_between [OF representable_of_int representable_of_int] below_limit assms by blast

lemma mean_between:
  assumes "\<bar>lo\<bar> \<le> 2 ^ 52" and "\<bar>hi\<bar> \<le> 2 ^ 52"
    and "of_int lo \<le> a" "a \<le> of_int hi" and "of_int lo \<le> b" "b \<le> of_int hi"
  shows "\<exists>r. f64_div (f64_add (Fin a) (Fin b)) (Fin 2) = Fin r \<and> of_int lo \<le> r \<and> r \<le> of_int hi"
proof -
  have "of_int (2 * lo) \<le> a + b" "a + b \<le> of_int (2 * hi)" using assms(3-6) by simp_all
  then obtain s where s: "rnd (a + b) = Fin s" "of_int (2 * lo) \<le> s" "s \<le> of_int (2 * hi)"
    using rnd_between_ints [of "2 * lo" "2 * hi" "a + b"] assms(1,2) by (auto simp: abs_mult)
  then have "of_int lo \<le> s / 2" "s / 2 \<le> of_int hi" by simp_all
  then show ?thesis using rnd_between_ints [of lo hi "s / 2"] assms(1,2) s(1) by simp
qed

lemma rounded_between:
  assumes "of_int lo \<le> r" and "r \<le> of_int hi" and "- (2 ^ 63) \<le> lo" and "hi < 2 ^ 63"
  shows "lo \<le> sint (f64_to_i64 (f64_round (Fin r))) \<and> sint (f64_to_i64 (f64_round (Fin r))) \<le> hi"
proof -
  define m where "m = round_half_away r"
  have "round_half_away (of_int lo) \<le> m" "m \<le> round_half_away (of_int hi)"
    unfolding m_def by (rule round_half_away_mono, fact)+
  then have m: "lo \<le> m" "m \<le> hi" by simp_all
  have "f64_to_i64 (f64_round (Fin r)) = word_of_int m"
    using m assms(3,4) by (simp add: m_def [symmetric])
  then show ?thesis using m assms(3,4) by (simp add: sint_of_int_i64)
qed

section \<open>The median resists outliers\<close>

lemma median_round_between:
  assumes "NaN \<notin> set xs" and "\<bar>lo\<bar> \<le> 2 ^ 52" and "\<bar>hi\<bar> \<le> 2 ^ 52"
    and "length xs < 2 * length (filter (inside (Fin (of_int lo)) (Fin (of_int hi))) xs)"
  shows "\<exists>m. median_round xs = Some m \<and> lo \<le> sint m \<and> sint m \<le> hi"
proof -
  let ?in = "inside (Fin (of_int lo)) (Fin (of_int hi))" and ?ys = "sort_samples xs"
  have ne: "xs \<noteq> []" using assms(4) by auto
  have mid: "\<exists>r. ?ys ! i = Fin r \<and> of_int lo \<le> r \<and> r \<le> of_int hi"
    if "length xs \<le> 2 * i + 2" "2 * i \<le> length xs" "i < length xs" for i
  proof (rule inside_Fin)
    show "?ys ! i \<noteq> NaN" using assms(1) that(3) by (metis length_sort_samples nth_mem set_sort_samples)
    show "?in (?ys ! i)"
      by (rule majority_within) (use assms(1,4) that in \<open>simp_all add: ascending_sort filter_within_sort\<close>)
  qed
  have "\<exists>r. median xs = Fin r \<and> of_int lo \<le> r \<and> r \<le> of_int hi"
  proof (cases "odd (length xs)")
    case True
    then have "length xs \<le> 2 * (length xs div 2) + 2" by presburger
    then show ?thesis using mid [of "length xs div 2"] True ne by (simp add: median_def)
  next
    case False
    moreover have "0 < length xs" using ne by simp
    ultimately have e: "length xs = 2 * (length xs div 2)" "0 < length xs div 2" by presburger+
    obtain a where "?ys ! (length xs div 2 - 1) = Fin a" "of_int lo \<le> a" "a \<le> of_int hi"
      using mid [of "length xs div 2 - 1"] e by fastforce
    moreover obtain b where "?ys ! (length xs div 2) = Fin b" "of_int lo \<le> b" "b \<le> of_int hi"
      using mid [of "length xs div 2"] e by fastforce
    ultimately show ?thesis using mean_between [OF assms(2,3)] False by (simp add: median_def)
  qed
  then obtain r where "median xs = Fin r" "of_int lo \<le> r" "r \<le> of_int hi" by blast
  moreover have "- (2 ^ 63) \<le> lo" "hi < 2 ^ 63" using assms(2,3) by simp_all
  ultimately show ?thesis
    using rounded_between [of lo r hi] assms(1) ne by (simp add: median_round_def)
qed

text \<open>The estimate that a measurement settles on is decided by the majority of its samples: when
  more than half of them lie between two bounds, so does the rounded median, however far off the other
  samples are.\<close>

theorem median_round_majority:
  assumes "NaN \<notin> set xs" and "\<bar>lo\<bar> \<le> 2 ^ 52" and "\<bar>hi\<bar> \<le> 2 ^ 52"
    and "length xs < 2 * length (filter (inside (Fin (of_int lo)) (Fin (of_int hi))) xs)"
  shows "\<exists>m. median_round xs = Some m \<and> lo \<le> sint m \<and> sint m \<le> hi"
  using assms by (rule median_round_between)

lemma median_round_majority_witness:
  "\<exists>m. median_round [Fin 10, Fin 11, Fin 9, Fin (21 / 2), Fin 500000] = Some m \<and> 9 \<le> sint m \<and> sint m \<le> 11"
  by (rule median_round_majority) (simp_all add: inside_def)

end
