(* ===== verification/Measuring.thy ===== *)
theory Measuring
  imports Session Median
begin

text \<open>
  Clock measurement, \<^verbatim>\<open>crates/tactus/src/engine.rs\<close>: queueing a measurement, the ping exchange with its
  retry budget and the stateless responder.
\<close>

section \<open>Starting and queueing\<close>

definition send_ping :: "nat \<Rightarrow> socket_addr \<Rightarrow> bytes \<Rightarrow> engine \<Rightarrow> engine" where
  "send_ping gateway target bs e = (case map_of (gateways e) gateway of None \<Rightarrow> e
     | Some gw \<Rightarrow> transmit [Send_measurement (gw_id gw) bs target] e)"

definition start_next_measurement :: "engine \<Rightarrow> engine" where
  "start_next_measurement e = (if measurement e \<noteq> None then e else
     case pending e of [] \<Rightarrow> e
     | task # queue \<Rightarrow>
         let e = e\<lparr>pending := queue\<rparr> in
         case map_of (gateways e) (mt_gateway task) of None \<Rightarrow> e
         | Some gw \<Rightarrow>
             let (t, e) = now e;
                 e = transmit [Send_measurement (gw_id gw) (encode_ping t None) (mt_target task)] e
             in notify (e\<lparr>measurement := Some \<lparr>m_task = task, m_samples = [], m_timeouts = 0,
                  m_retry_deadline = t + MEASUREMENT_RETRY\<rparr>\<rparr>))"

definition measuring :: "session_id \<Rightarrow> engine \<Rightarrow> bool" where
  "measuring sess e \<longleftrightarrow>
     (case measurement e of None \<Rightarrow> False | Some m \<Rightarrow> mt_session (m_task m) = sess) \<or>
     (\<exists>t \<in> set (pending e). mt_session t = sess)"

text \<open>\<open>find_map\<close> over the peer table in its iteration order.\<close>

definition find_endpoint :: "(node_id \<Rightarrow> peer_state \<Rightarrow> bool) \<Rightarrow> engine \<Rightarrow> (socket_addr \<times> nat) option" where
  "find_endpoint P e = (case List.map_filter (\<lambda>((n, g), p). if P n (pe_state p)
       then map_option (\<lambda>m. (m, g)) (ps_measurement_endpoint (pe_state p)) else None)
       (iter_peers (env e) (peers e)) of
     [] \<Rightarrow> None | x # _ \<Rightarrow> Some x)"

definition or_else :: "'a option \<Rightarrow> 'a option \<Rightarrow> 'a option" where
  "or_else x y = (case x of None \<Rightarrow> y | Some _ \<Rightarrow> x)"

definition queue_measurement :: "nat \<Rightarrow> session_id \<Rightarrow> peer_state \<Rightarrow> purpose \<Rightarrow> engine \<Rightarrow> engine" where
  "queue_measurement gw_idx sess ps purpose e = (if measuring sess e then e else
     let founder = find_endpoint (\<lambda>n _. n = sess) e in
     case or_else founder (map_option (\<lambda>m. (m, gw_idx)) (ps_measurement_endpoint ps)) of
       None \<Rightarrow> e
     | Some (target, gateway) \<Rightarrow>
         start_next_measurement (e\<lparr>pending := pending e @ [\<lparr>mt_session = sess, mt_target = target,
           mt_gateway = gateway, mt_purpose = purpose\<rparr>]\<rparr>))"

definition queue_remeasure :: "engine \<Rightarrow> engine" where
  "queue_remeasure e = (if session e = node e then e else
     let sess = session e in
     if measuring sess e then e else
     case or_else (find_endpoint (\<lambda>n _. n = sess) e)
         (find_endpoint (\<lambda>_ ps. ps_session ps = Some sess) e) of
       None \<Rightarrow> e
     | Some (target, gateway) \<Rightarrow>
         e\<lparr>pending := pending e @ [\<lparr>mt_session = sess, mt_target = target, mt_gateway = gateway,
           mt_purpose = Remeasure\<rparr>]\<rparr>)"

section \<open>Outcomes\<close>

definition measurement_failed :: "measurement \<Rightarrow> engine \<Rightarrow> engine" where
  "measurement_failed failed e =
     start_next_measurement (case mt_purpose (m_task failed) of
         Join \<Rightarrow> e
       | Remeasure \<Rightarrow> (let (t, e) = now e in e\<lparr>next_remeasure_at := Some (t + REMEASURE_PERIOD)\<rparr>))"

definition measurement_succeeded :: "measurement \<Rightarrow> i64 \<Rightarrow> engine \<Rightarrow> engine" where
  "measurement_succeeded finished offset e =
     (let sess = mt_session (m_task finished);
          e = e\<lparr>measured := AList.update sess offset (measured e)\<rparr>
      in start_next_measurement (case mt_purpose (m_task finished) of
           Join \<Rightarrow> evaluate_join sess offset e
         | Remeasure \<Rightarrow>
             let e = (if session e = sess then e\<lparr>ghost_offset := offset\<rparr> else e);
                 (t, e) = now e
             in e\<lparr>next_remeasure_at := Some (t + REMEASURE_PERIOD)\<rparr>))"

section \<open>Pongs\<close>

definition nonzero :: "i64 option \<Rightarrow> i64 option" where
  "nonzero x = (case x of Some v \<Rightarrow> if v \<noteq> 0 then Some v else None | None \<Rightarrow> None)"

abbreviation f64_of_i64 :: "i64 \<Rightarrow> f64" where
  "f64_of_i64 x \<equiv> f64_of_int (sint x)"

text \<open>The offset samples one pong gives: \<open>t\<close> is the time of its receipt.\<close>

definition pong_samples :: "i64 \<Rightarrow> i64 \<Rightarrow> i64 option \<Rightarrow> i64 option \<Rightarrow> f64 list" where
  "pong_samples t gt pht pgt = (if gt = 0 then [] else
     case nonzero pht of None \<Rightarrow> []
     | Some h \<Rightarrow>
         f64_sub (f64_of_i64 gt) (f64_div (f64_add (f64_of_i64 t) (f64_of_i64 h)) (Fin 2))
         # (case nonzero pgt of None \<Rightarrow> []
            | Some p \<Rightarrow>
                [f64_sub (f64_div (f64_add (f64_of_i64 gt) (f64_of_i64 p)) (Fin 2)) (f64_of_i64 h)]))"

definition echo_times :: "bytes \<Rightarrow> i64 option \<times> i64 option" where
  "echo_times echo = (case parse_echo echo of Inl _ \<Rightarrow> (None, None) | Inr r \<Rightarrow> r)"

definition take_samples :: "i64 \<Rightarrow> pong \<Rightarrow> measurement \<Rightarrow> measurement" where
  "take_samples t pong m = (let (pht, pgt) = echo_times (pong_echo pong) in
     m\<lparr>m_samples := m_samples m @ pong_samples t (pong_ghost_time pong) pht pgt\<rparr>)"

definition finish_or_chain :: "i64 \<Rightarrow> i64 \<Rightarrow> measurement \<Rightarrow> engine \<Rightarrow> engine" where
  "finish_or_chain t gt m e = (if SAMPLES_REQUIRED < length (m_samples m)
     then (case median_round (m_samples m) of None \<Rightarrow> panic (e\<lparr>measurement := None\<rparr>)
       | Some offset \<Rightarrow> measurement_succeeded m offset (e\<lparr>measurement := None\<rparr>))
     else notify (send_ping (mt_gateway (m_task m)) (mt_target (m_task m)) (encode_ping t (Some gt))
       (e\<lparr>measurement := Some (m\<lparr>m_retry_deadline := t + MEASUREMENT_RETRY\<rparr>)\<rparr>)))"

definition handle_pong :: "nat \<Rightarrow> socket_addr \<Rightarrow> pong \<Rightarrow> engine \<Rightarrow> engine" where
  "handle_pong gw_idx src pong e = (let (t, e) = now e in
     case measurement e of None \<Rightarrow> e
     | Some m \<Rightarrow>
         if mt_gateway (m_task m) \<noteq> gw_idx \<or> mt_target (m_task m) \<noteq> src then e else
         if pong_session pong \<noteq> mt_session (m_task m)
         then measurement_failed m (e\<lparr>measurement := None\<rparr>)
         else finish_or_chain t (pong_ghost_time pong) (take_samples t pong m) e)"

definition handle_measurement_datagram :: "nat \<Rightarrow> socket_addr \<Rightarrow> bytes \<Rightarrow> engine \<Rightarrow> engine" where
  "handle_measurement_datagram gw_idx src buf e = (if \<not> enabled e then e else
     case decode_sync buf of Inl _ \<Rightarrow> e
     | Inr (Ping ping) \<Rightarrow>
         if MAX_PING_PAYLOAD < length (ping_payload ping) then e else
         let (t, e) = now e;
             ghost = t + ghost_offset e
         in send_ping gw_idx src (encode_pong (session e) ghost (ping_payload ping)) e
     | Inr (Pong pong) \<Rightarrow> handle_pong gw_idx src pong e)"

section \<open>The operations keep the invariant\<close>

lemma iter_peers_set [simp]: "engine_ok e \<Longrightarrow> set (iter_peers (env e) (peers e)) = set (peers e)"
  by (simp add: engine_ok_def fair_inv_def fair_iteration_def)

lemma find_endpoint_open:
  assumes "engine_ok e" and "find_endpoint P e = Some (m, g)"
  shows "g \<in> fst ` set (gateways e)"
proof -
  obtain xs where "List.map_filter (\<lambda>((n, g), p). if P n (pe_state p)
      then map_option (\<lambda>m. (m, g)) (ps_measurement_endpoint (pe_state p)) else None)
      (iter_peers (env e) (peers e)) = (m, g) # xs"
    using assms(2) by (auto simp: find_endpoint_def split: list.splits)
  then have "(m, g) \<in> set (List.map_filter (\<lambda>((n, g), p). if P n (pe_state p)
      then map_option (\<lambda>m. (m, g)) (ps_measurement_endpoint (pe_state p)) else None)
      (iter_peers (env e) (peers e)))" by simp
  then obtain n p where "((n, g), p) \<in> set (peers e)"
    using assms(1) by (auto simp: List.map_filter_def split: if_splits)
  then show ?thesis using assms(1) by (force simp: engine_ok_def peers_inv_def)
qed

lemma enqueue_ok:
  assumes "engine_ok e" and "enabled e" and "\<not> measuring (mt_session t) e"
    and "mt_gateway t \<in> fst ` set (gateways e)"
  shows "engine_ok (e\<lparr>pending := pending e @ [t]\<rparr>)"
  using assms by (cases "measurement e") (auto simp: engine_ok_def engine_invs measuring_def running_ok_def)

lemma open_gateway_known: "engine_ok e \<Longrightarrow> g \<in> fst ` set (gateways e) \<Longrightarrow> g < next_gateway_id e"
  by (auto simp: engine_ok_def gateway_inv_def)

lemma start_next_measurement_ok [inv_intros]:
  assumes "engine_ok e"
  shows "engine_ok (start_next_measurement e)"
proof (cases "pending e")
  case (Cons t ts)
  have q: "engine_ok (e\<lparr>pending := ts\<rparr>)"
    using assms Cons by (auto simp: engine_ok_def engine_invs running_ok_def elim!: option.pred_mono_strong)
  have "engine_ok (e\<lparr>pending := ts, clock_reads := c, sent := s,
      measurement := Some \<lparr>m_task = t, m_samples = [], m_timeouts = 0, m_retry_deadline = d\<rparr>\<rparr>)" for c s d
    using assms Cons open_gateway_known [OF assms, of "mt_gateway t"]
    by (auto simp: engine_ok_def engine_invs running_ok_def)
  with q assms Cons show ?thesis
    by (simp add: start_next_measurement_def now_def transmit_def Let_def split: option.split)
qed (use assms in \<open>simp add: start_next_measurement_def\<close>)

lemma send_ping_ok [simp]: "engine_ok (send_ping g dst bs e) \<longleftrightarrow> engine_ok e"
  by (simp add: send_ping_def split: option.split)

lemma queue_measurement_ok [inv_intros]:
  assumes "engine_ok e" and "enabled e" and "g \<in> fst ` set (gateways e)"
  shows "engine_ok (queue_measurement g sess ps pur e)"
  using assms find_endpoint_open [OF assms(1)]
  by (simp add: queue_measurement_def or_else_def Let_def start_next_measurement_ok enqueue_ok
      split: option.split)

lemma queue_remeasure_ok [inv_intros]:
  assumes "engine_ok e" and "enabled e"
  shows "engine_ok (queue_remeasure e)"
  using assms find_endpoint_open [OF assms(1)]
  by (auto simp: queue_remeasure_def or_else_def Let_def intro!: enqueue_ok split: option.split)

lemma engine_ok_measured: "engine_ok e \<Longrightarrow> engine_ok (e\<lparr>measured := AList.update s r (measured e)\<rparr>)"
  by (simp add: engine_ok_def engine_invs distinct_update)

lemma engine_ok_stop: "engine_ok e \<Longrightarrow> engine_ok (e\<lparr>measurement := None\<rparr>)"
  by (simp add: engine_ok_def engine_invs)

lemma measurement_failed_ok [inv_intros]: "engine_ok e \<Longrightarrow> engine_ok (measurement_failed m e)"
  by (auto simp: measurement_failed_def now_def intro!: start_next_measurement_ok split: purpose.split)

lemma measurement_succeeded_ok [inv_intros]:
  "engine_ok e \<Longrightarrow> engine_ok (measurement_succeeded m r e)"
  by (auto simp: measurement_succeeded_def now_def Let_def
      intro!: start_next_measurement_ok evaluate_join_ok engine_ok_measured split: purpose.split)

text \<open>The samples are finite: their inputs are integers of 64 bits.\<close>

lemma representable_powi: "\<exists>m j. (2 :: rat) ^ k = of_int m * 2 powi j \<and> \<bar>m\<bar> \<le> 2 ^ 53 \<and> - 1074 \<le> j"
  "\<exists>m j. - (2 ^ k) = of_int m * (2 :: rat) powi j \<and> \<bar>m\<bar> \<le> 2 ^ 53 \<and> - 1074 \<le> j"
  by (rule exI [of _ 1], rule exI [of _ "int k"], simp)
    (rule exI [of _ "- 1"], rule exI [of _ "int k"], simp)

lemma rnd_bounded:
  assumes "\<bar>x\<bar> \<le> 2 ^ k" and "k \<le> 100"
  shows "\<exists>r. rnd x = Fin r \<and> \<bar>r\<bar> \<le> 2 ^ k"
proof -
  have "representable (2 ^ k)" "representable (- (2 ^ k))"
    using representable_powi by (simp_all add: representable_def)
  moreover have "(2 :: rat) ^ k < f64_limit"
    using power_increasing [OF assms(2), of "2 :: rat"] f64_limit_big by simp
  ultimately show ?thesis using rnd_Fin_between [of "- (2 ^ k)" "2 ^ k" x] assms(1) by (auto simp: abs_le_iff)
qed

lemma f64_of_i64_bounded: "\<exists>r. f64_of_i64 x = Fin r \<and> \<bar>r\<bar> \<le> 2 ^ 63"
proof -
  have "\<bar>sint x\<bar> \<le> 2 ^ 63" using i64_range [of x] by linarith
  then have "\<bar>of_int (sint x) :: rat\<bar> \<le> of_int (2 ^ 63)"
    by (simp only: of_int_abs [symmetric] of_int_le_iff)
  then show ?thesis using rnd_bounded [of "of_int (sint x)" 63] by (simp add: f64_of_int_def)
qed

lemma mid_bounded:
  assumes "\<bar>a\<bar> \<le> 2 ^ 63" and "\<bar>b\<bar> \<le> 2 ^ 63"
  shows "\<exists>r. f64_div (f64_add (Fin a) (Fin b)) (Fin 2) = Fin r \<and> \<bar>r\<bar> \<le> 2 ^ 63"
proof -
  have "\<bar>a + b\<bar> \<le> 2 ^ 64" using assms by (simp add: abs_le_iff)
  then obtain s where "rnd (a + b) = Fin s" "\<bar>s\<bar> \<le> 2 ^ 64" using rnd_bounded [of "a + b" 64] by auto
  then show ?thesis using rnd_bounded [of "s / 2" 63] by simp
qed

lemma sub_bounded:
  assumes "\<bar>a\<bar> \<le> 2 ^ 63" and "\<bar>b\<bar> \<le> 2 ^ 63"
  shows "f64_sub (Fin a) (Fin b) \<noteq> NaN"
proof -
  have "\<bar>a - b\<bar> \<le> 2 ^ 64" using assms by (simp add: abs_le_iff)
  then show ?thesis using rnd_bounded [of "a - b" 64] by (auto simp: f64_sub_def)
qed

lemma pong_samples_no_NaN: "NaN \<notin> set (pong_samples t gt pht pgt)"
proof -
  have "NaN \<noteq> f64_sub (f64_of_i64 a) (f64_div (f64_add (f64_of_i64 b) (f64_of_i64 c)) (Fin 2))"
    "NaN \<noteq> f64_sub (f64_div (f64_add (f64_of_i64 a) (f64_of_i64 b)) (Fin 2)) (f64_of_i64 c)" for a b c
    using f64_of_i64_bounded [of a] f64_of_i64_bounded [of b] f64_of_i64_bounded [of c] mid_bounded sub_bounded
    by metis+
  then show ?thesis by (simp add: pong_samples_def split: option.split)
qed

lemma take_samples_task [simp]: "m_task (take_samples t pong m) = m_task m"
  "m_timeouts (take_samples t pong m) = m_timeouts m"
  by (simp_all add: take_samples_def split: prod.split)

lemma take_samples_no_NaN: "NaN \<notin> set (m_samples m) \<Longrightarrow> NaN \<notin> set (m_samples (take_samples t pong m))"
  by (simp add: take_samples_def pong_samples_no_NaN split: prod.split)

lemma finish_or_chain_ok:
  assumes "engine_ok e" and "measurement e = Some m0" and "m_task m = m_task m0"
    and "m_timeouts m = m_timeouts m0" and "NaN \<notin> set (m_samples m)"
  shows "engine_ok (finish_or_chain t gt m e)"
proof (cases "SAMPLES_REQUIRED < length (m_samples m)")
  case True
  then have "m_samples m \<noteq> []" by auto
  then obtain r where "median_round (m_samples m) = Some r" using assms(5) by (auto simp: median_round_def)
  with True show ?thesis
    by (simp add: finish_or_chain_def measurement_succeeded_ok engine_ok_stop assms(1))
next
  case False
  then have "engine_ok (e\<lparr>measurement := Some (m\<lparr>m_retry_deadline := d\<rparr>)\<rparr>)" for d
    using assms by (simp add: engine_ok_def engine_invs running_ok_def)
  with False show ?thesis by (simp add: finish_or_chain_def)
qed

lemma handle_pong_ok [inv_intros]:
  assumes "engine_ok e"
  shows "engine_ok (handle_pong g src pong e)"
proof (cases "measurement e")
  case (Some m)
  then have "NaN \<notin> set (m_samples m)" using assms by (simp add: engine_ok_def tasks_inv_def running_ok_def)
  with assms Some show ?thesis
    by (simp add: handle_pong_def now_def measurement_failed_ok engine_ok_stop
        finish_or_chain_ok [OF _ _ take_samples_task] take_samples_no_NaN)
qed (use assms in \<open>simp add: handle_pong_def now_def\<close>)

lemma handle_measurement_ok [inv_intros]:
  "engine_ok e \<Longrightarrow> engine_ok (handle_measurement_datagram g src buf e)"
  by (simp add: handle_measurement_datagram_def now_def Let_def handle_pong_ok split: sum.split sync_message.split)

end
