(* ===== verification/Gossip.thy ===== *)
theory Gossip
  imports Measuring
begin

text \<open>
  The discovery handler, \<^verbatim>\<open>handle_discovery_datagram\<close> and \<^verbatim>\<open>process_peer_state\<close> of
  \<^verbatim>\<open>crates/tactus/src/engine.rs\<close>: admission, the answer to an Alive, the peer table and the
  propagation of timelines and transport states.
\<close>

section \<open>Definitions\<close>

definition adopt_timeline :: "timeline option \<Rightarrow> engine \<Rightarrow> engine" where
  "adopt_timeline tml e = (case tml of None \<Rightarrow> e | Some l \<Rightarrow>
     if beat_origin (timeline e) <s beat_origin l
     then schedule_broadcast (e\<lparr>timeline := clamped l\<rparr>) else e)"

definition adopt_start_stop :: "start_stop_state option \<Rightarrow> engine \<Rightarrow> engine" where
  "adopt_start_stop stst e = (case stst of None \<Rightarrow> e | Some s \<Rightarrow>
     if timestamp (held_stst e) <s timestamp s then
       let e = e\<lparr>held_stst := s\<rparr>;
           e = (if sst_sync e \<and> s \<noteq> default_start_stop then e\<lparr>app_playing := is_playing s\<rparr> else e)
       in schedule_broadcast e
     else e)"

definition cache_timeline :: "session_id \<Rightarrow> timeline option \<Rightarrow> engine \<Rightarrow> engine" where
  "cache_timeline sess tml e = (case tml of None \<Rightarrow> e | Some l \<Rightarrow>
     e\<lparr>foreign_timelines := (case map_of (foreign_timelines e) sess of
         None \<Rightarrow> AList.update sess l (foreign_timelines e)
       | Some cur \<Rightarrow> if beat_origin cur <s beat_origin l
           then AList.update sess l (foreign_timelines e) else foreign_timelines e)\<rparr>)"

definition record_peer :: "nat \<Rightarrow> node_id \<Rightarrow> u8 \<Rightarrow> peer_state \<Rightarrow> engine \<Rightarrow> engine" where
  "record_peer gw_idx n ttl ps e = (let (t, e) = now e in
     notify (e\<lparr>peers := AList.update (n, gw_idx)
       \<lparr>pe_state = ps, pe_deadline = t + ttl_micros ttl\<rparr> (peers e)\<rparr>))"

definition follow_session :: "nat \<Rightarrow> peer_state \<Rightarrow> session_id \<Rightarrow> engine \<Rightarrow> engine" where
  "follow_session gw_idx ps sess e =
     (if sess = session e then
        adopt_start_stop (ps_start_stop ps)
          (adopt_timeline (ps_timeline ps) (e\<lparr>session_member_seen := True\<rparr>))
      else
        let e = cache_timeline sess (ps_timeline ps) e in
        case map_of (measured e) sess of
          Some offset \<Rightarrow> evaluate_join sess offset e
        | None \<Rightarrow> queue_measurement gw_idx sess ps Join e)"

definition process_peer_state :: "nat \<Rightarrow> node_id \<Rightarrow> u8 \<Rightarrow> peer_state \<Rightarrow> engine \<Rightarrow> engine" where
  "process_peer_state gw_idx n ttl ps e =
     (let e = record_peer gw_idx n ttl ps e in
      case ps_session ps of None \<Rightarrow> e | Some sess \<Rightarrow> follow_session gw_idx ps sess e)"

definition handle_bye :: "node_id \<Rightarrow> nat \<Rightarrow> engine \<Rightarrow> engine" where
  "handle_bye n gw_idx e =
     and_then notify (check_session_loss (peer_left n
       (e\<lparr>peers := AList.delete (n, gw_idx) (peers e)\<rparr>)))"

definition respond :: "nat \<Rightarrow> socket_addr \<Rightarrow> engine \<Rightarrow> engine" where
  "respond gw_idx src e = (case map_of (gateways e) gw_idx of None \<Rightarrow> e
     | Some gw \<Rightarrow> transmit [Send_unicast (gw_id gw)
         (encode_disc (disc_response (node e) (build_state e gw))) src] e)"

definition handle_discovery_datagram :: "nat \<Rightarrow> socket_addr \<Rightarrow> bytes \<Rightarrow> engine \<Rightarrow> engine" where
  "handle_discovery_datagram gw_idx src buf e = (if \<not> enabled e then e else
     case decode_header buf of Inl _ \<Rightarrow> e
     | Inr header \<Rightarrow>
         if h_node header = node e \<or> h_group_id header \<noteq> 0 then e else
         let e = (if is_alive header then respond gw_idx src e else e) in
         case decode_disc buf of Inl _ \<Rightarrow> e
         | Inr frame \<Rightarrow> (case df_message frame of
               Alive ps \<Rightarrow> process_peer_state gw_idx (df_node frame) (df_ttl frame) ps e
             | Response ps \<Rightarrow> process_peer_state gw_idx (df_node frame) (df_ttl frame) ps e
             | ByeBye \<Rightarrow> handle_bye (df_node frame) gw_idx e))"

section \<open>The operations keep the invariant\<close>

lemma adopt_timeline_ok [inv_intros]: "engine_ok e \<Longrightarrow> engine_ok (adopt_timeline l e)"
  by (simp add: adopt_timeline_def engine_ok_timeline split: option.split)

lemma adopt_start_stop_ok [inv_intros]: "engine_ok e \<Longrightarrow> engine_ok (adopt_start_stop s e)"
  by (simp add: adopt_start_stop_def Let_def split: option.split)

lemma cache_timeline_ok [inv_intros]: "engine_ok e \<Longrightarrow> engine_ok (cache_timeline s l e)"
  by (auto simp: cache_timeline_def engine_ok_def engine_invs distinct_update split: option.split)

lemma cache_timeline_fields [simp]:
  "enabled (cache_timeline s l e) = enabled e" "gateways (cache_timeline s l e) = gateways e"
  by (simp_all add: cache_timeline_def split: option.split)

lemma ball_update_gateway:
  "\<forall>x \<in> set m. snd (fst x) \<in> K \<Longrightarrow> g \<in> K \<Longrightarrow> \<forall>x \<in> set (AList.update (n, g) p m). snd (fst x) \<in> K"
  by (auto dest!: mem_update)

lemma record_peer_ok [inv_intros]:
  "engine_ok e \<Longrightarrow> enabled e \<Longrightarrow> g \<in> fst ` set (gateways e) \<Longrightarrow> engine_ok (record_peer g n ttl ps e)"
  by (simp add: record_peer_def now_def)
    (simp add: engine_ok_def engine_invs distinct_update, elim conjE, erule (1) ball_update_gateway)

lemma record_peer_fields [simp]:
  "enabled (record_peer g n ttl ps e) = enabled e" "gateways (record_peer g n ttl ps e) = gateways e"
  by (simp_all add: record_peer_def now_def notify_def)

lemma engine_ok_seen: "engine_ok e \<Longrightarrow> engine_ok (e\<lparr>session_member_seen := True\<rparr>)"
  by (simp add: engine_ok_def engine_invs)

lemma follow_session_ok [inv_intros]:
  "engine_ok e \<Longrightarrow> enabled e \<Longrightarrow> g \<in> fst ` set (gateways e) \<Longrightarrow> engine_ok (follow_session g ps sess e)"
  by (simp add: follow_session_def Let_def engine_ok_seen adopt_start_stop_ok adopt_timeline_ok
      evaluate_join_ok cache_timeline_ok queue_measurement_ok split: option.split)

lemma process_peer_state_ok [inv_intros]:
  "engine_ok e \<Longrightarrow> enabled e \<Longrightarrow> g \<in> fst ` set (gateways e) \<Longrightarrow>
    engine_ok (process_peer_state g n ttl ps e)"
  by (simp add: process_peer_state_def Let_def follow_session_ok record_peer_ok split: option.split)

lemma handle_bye_ok [inv_intros]: "engine_ok e \<Longrightarrow> engine_ok (handle_bye n g e)"
proof -
  assume "engine_ok e"
  then have "engine_ok (e\<lparr>peers := AList.delete (n, g) (peers e)\<rparr>)"
    by (auto simp: engine_ok_def engine_invs distinct_delete dest!: mem_delete)
  then show ?thesis by (simp add: handle_bye_def and_then_ok check_session_loss_ok peer_left_ok)
qed

lemma respond_ok [simp]: "engine_ok (respond g src e) \<longleftrightarrow> engine_ok e"
  by (simp add: respond_def split: option.split)

lemma respond_fields [simp]:
  "enabled (respond g src e) = enabled e" "gateways (respond g src e) = gateways e"
  by (simp_all add: respond_def transmit_def split: option.split)

lemma handle_discovery_ok [inv_intros]:
  assumes "engine_ok e" and "g \<in> fst ` set (gateways e)"
  shows "engine_ok (handle_discovery_datagram g src buf e)"
  using assms
  by (simp add: handle_discovery_datagram_def Let_def handle_bye_ok process_peer_state_ok
      split: sum.split disc_message.split)

end
