(* ===== verification/Housekeeping.thy ===== *)
theory Housekeeping
  imports Gossip
begin

text \<open>
  The housekeeping pass of \<^verbatim>\<open>crates/tactus/src/engine.rs\<close>, in the order the code takes its steps: the
  periodic Alive, the delayed broadcast, peer pruning, the measurement retry timer, the periodic
  re-measurement and the audio housekeeping. Each step returns the next deadline with the state.
\<close>

section \<open>Definitions\<close>

definition alive_step :: "i64 \<Rightarrow> engine \<Rightarrow> engine" where
  "alive_step t e = (if last_alive_at e + ALIVE_PERIOD \<le>s t then send_alive t e else e)"

definition broadcast_step :: "i64 \<Rightarrow> i64 \<times> engine \<Rightarrow> i64 \<times> engine" where
  "broadcast_step t = (\<lambda>(next, e). case broadcast_due e of None \<Rightarrow> (next, e)
     | Some d \<Rightarrow> if d \<le>s t then (next, send_alive t e) else (smin next d, e))"

definition peer_deadlines :: "engine \<Rightarrow> i64 list" where
  "peer_deadlines e = map (\<lambda>(_, p). pe_deadline p) (peers e)"

definition prune_peers :: "i64 \<Rightarrow> engine \<Rightarrow> engine" where
  "prune_peers t e =
     (let expired = map (\<lambda>p. fst (fst p)) (filter (\<lambda>p. pe_deadline (snd p) \<le>s t) (peers e));
          e = e\<lparr>peers := retain (\<lambda>_ p. t <s pe_deadline p) (peers e)\<rparr>
      in check_session_loss (departed expired e))"

definition prune_step :: "i64 \<Rightarrow> i64 \<times> engine \<Rightarrow> i64 \<times> engine" where
  "prune_step t = (\<lambda>(next, e). if peers e = [] then (next, e) else
     let e = (if prune_due t (peer_deadlines e) then prune_peers t e else e)
     in (next_prune (peer_deadlines e) next, e))"

definition retry_step :: "i64 \<Rightarrow> i64 \<times> engine \<Rightarrow> i64 \<times> engine" where
  "retry_step t = (\<lambda>(next, e). case measurement e of None \<Rightarrow> (next, e)
     | Some m \<Rightarrow>
         if m_retry_deadline m \<le>s t then
           if MAX_MEASUREMENT_RETRIES \<le> m_timeouts m
           then (next, measurement_failed m (e\<lparr>measurement := None\<rparr>))
           else
             let m = m\<lparr>m_timeouts := m_timeouts m + 1, m_retry_deadline := t + MEASUREMENT_RETRY\<rparr>;
                 e = send_ping (mt_gateway (m_task m)) (mt_target (m_task m)) (encode_ping t None)
                   (e\<lparr>measurement := Some m\<rparr>)
             in (smin next (t + MEASUREMENT_RETRY), e)
         else (smin next (m_retry_deadline m), e))"

definition remeasure_step :: "i64 \<Rightarrow> i64 \<times> engine \<Rightarrow> i64 \<times> engine" where
  "remeasure_step t = (\<lambda>(next, e). case next_remeasure_at e of None \<Rightarrow> (next, e)
     | Some d \<Rightarrow>
         if d \<le>s t
         then (smin next (t + REMEASURE_PERIOD),
           (queue_remeasure e)\<lparr>next_remeasure_at := Some (t + REMEASURE_PERIOD)\<rparr>)
         else (smin next d, e))"

text \<open>A panic in the pruning step ends the pass.\<close>

definition housekeeping_pass :: "engine \<Rightarrow> i64 \<times> engine" where
  "housekeeping_pass e = (let (t, e) = now e; next = t + ALIVE_PERIOD in
     if \<not> enabled e then (next, e) else
     let e = alive_step t e;
         next = smin next (last_alive_at e + ALIVE_PERIOD);
         (next, e) = prune_step t (broadcast_step t (next, e))
     in if panicked e then (next, e) else
     let (next, e) = remeasure_step t (retry_step t (next, e));
         e = start_next_measurement e;
         (audio_next, e) = audio_housekeeping t e
     in (smin next audio_next, e))"

section \<open>The operations keep the invariant\<close>

lemma enabled_quiet [simp]:
  "enabled (notify e) = enabled e" "enabled (schedule_broadcast e) = enabled e"
  "enabled (send_alive t e) = enabled e" "enabled (transmit msgs e) = enabled e"
  by (rule quiet_fields; simp)+

lemma enabled_peer_left [simp]: "enabled (peer_left n e) = enabled e"
  by (rule sans_audio_fields) simp

lemma enabled_departed [simp]: "enabled (departed lost e) = enabled e"
  unfolding departed_def by (induction lost arbitrary: e) simp_all

lemma enabled_check_session_loss [simp]: "enabled (check_session_loss e) = enabled e"
  by (simp add: check_session_loss_def reset_session_def now_def random_id_def panic_def Let_def
      split: option.split)

lemma enabled_start_next [simp]: "enabled (start_next_measurement e) = enabled e"
  by (simp add: start_next_measurement_def now_def Let_def split: list.split option.split)

lemma enabled_measurement_failed [simp]: "enabled (measurement_failed m e) = enabled e"
  by (simp add: measurement_failed_def now_def Let_def split: purpose.split)

lemma enabled_send_ping [simp]: "enabled (send_ping g dst bs e) = enabled e"
  by (simp add: send_ping_def split: option.split)

lemma alive_step_ok [simp]: "engine_ok (alive_step t e) \<longleftrightarrow> engine_ok e"
  "enabled (alive_step t e) = enabled e"
  by (simp_all add: alive_step_def)

lemma broadcast_step_ok [simp]: "engine_ok (snd (broadcast_step t x)) \<longleftrightarrow> engine_ok (snd x)"
  "enabled (snd (broadcast_step t x)) = enabled (snd x)"
  by (cases x; simp add: broadcast_step_def split: option.split)+

lemma prune_peers_ok [inv_intros]:
  assumes "engine_ok e"
  shows "engine_ok (prune_peers t e)"
proof -
  have "engine_ok (e\<lparr>peers := retain (\<lambda>_ p. t <s pe_deadline p) (peers e)\<rparr>)"
    using assms by (auto simp: engine_ok_def engine_invs intro: peer_gateways_retain)
  then show ?thesis by (simp add: prune_peers_def Let_def check_session_loss_ok departed_ok)
qed

lemma prune_step_ok [inv_intros]:
  "engine_ok (snd x) \<Longrightarrow> engine_ok (snd (prune_step t x))"
  by (cases x) (simp add: prune_step_def prune_peers_ok Let_def)

lemma enabled_prune_step [simp]: "enabled (snd (prune_step t x)) = enabled (snd x)"
  by (cases x) (simp add: prune_step_def prune_peers_def Let_def)

lemma retry_step_ok [inv_intros]:
  assumes "engine_ok (snd x)"
  shows "engine_ok (snd (retry_step t x))"
proof -
  obtain nx e where x: "x = (nx, e)" by (cases x)
  show ?thesis
  proof (cases "measurement e")
    case (Some m)
    have "engine_ok (e\<lparr>measurement := Some (m\<lparr>m_timeouts := m_timeouts m + 1, m_retry_deadline := d\<rparr>)\<rparr>)"
      if "m_timeouts m < MAX_MEASUREMENT_RETRIES" for d
      using assms Some that by (simp add: x engine_ok_def engine_invs running_ok_def)
    with assms Some show ?thesis
      by (simp add: x retry_step_def Let_def measurement_failed_ok engine_ok_stop)
  qed (use assms in \<open>simp add: x retry_step_def\<close>)
qed

lemma enabled_retry_step [simp]: "enabled (snd (retry_step t x)) = enabled (snd x)"
  by (cases x) (simp add: retry_step_def Let_def split: option.split)

lemma remeasure_step_ok [inv_intros]:
  "engine_ok (snd x) \<Longrightarrow> enabled (snd x) \<Longrightarrow> engine_ok (snd (remeasure_step t x))"
  by (cases x) (simp add: remeasure_step_def queue_remeasure_ok split: option.split)

lemma enabled_clock [simp]: "enabled (e\<lparr>clock_reads := c\<rparr>) = enabled e"
  by simp

lemma housekeeping_pass_ok [inv_intros]: "engine_ok e \<Longrightarrow> engine_ok (snd (housekeeping_pass e))"
  by (simp add: housekeeping_pass_def Let_def case_prod_unfold now_def start_next_measurement_ok
      audio_housekeeping_ok remeasure_step_ok retry_step_ok prune_step_ok)

end
