(* ===== verification/Runtime.thy ===== *)
theory Runtime
  imports Housekeeping
begin

text \<open>
  \<^verbatim>\<open>crates/tactus/src/runtime.rs\<close>: opening gateways, handing datagrams to the handlers, the interface
  rescan, and joining and leaving the network. The threads of the code become the operations they
  perform while they hold the engine lock: a receiver's datagram, a housekeeping pass, one scan.
\<close>

section \<open>Receivers\<close>

datatype role = McastDiscovery | UnicastDiscovery | Measurement | Audio

definition gateway_live :: "nat \<Rightarrow> u64 \<Rightarrow> engine \<Rightarrow> bool" where
  "gateway_live gw ep e \<longleftrightarrow> enabled e \<and> epoch e = ep \<and> map_of (gateways e) gw \<noteq> None"

definition dispatch :: "nat \<Rightarrow> socket_addr \<Rightarrow> bytes \<Rightarrow> role \<Rightarrow> engine \<Rightarrow> engine" where
  "dispatch gw src buf r e = (case r of
      McastDiscovery \<Rightarrow> handle_discovery_datagram gw src buf e
    | UnicastDiscovery \<Rightarrow> handle_discovery_datagram gw src buf e
    | Measurement \<Rightarrow> handle_measurement_datagram gw src buf e
    | Audio \<Rightarrow> handle_audio_datagram gw src buf e)"

text \<open>What a receiver thread of a gateway opened in epoch \<open>ep\<close> does with one datagram; it ends without
  effect when its gateway is gone.\<close>

definition receive :: "nat \<Rightarrow> u64 \<Rightarrow> socket_addr \<Rightarrow> bytes \<Rightarrow> role \<Rightarrow> engine \<Rightarrow> engine" where
  "receive gw ep src buf r e = (if gateway_live gw ep e then dispatch gw src buf r e else e)"

section \<open>Gateways\<close>

definition open_gateway :: "ipv4 \<Rightarrow> engine \<Rightarrow> gateway option \<times> engine" where
  "open_gateway addr e =
     (let attempt = open_calls e; e = e\<lparr>open_calls := attempt + 1\<rparr> in
      case env_open (env e) attempt addr of None \<Rightarrow> (None, e)
      | Some (mep, aep) \<Rightarrow>
          let gw = \<lparr>gw_id = next_gateway_id e, gw_addr = addr, gw_measurement = mep, gw_audio = aep\<rparr>
          in (Some gw, e\<lparr>next_gateway_id := next_gateway_id e + 1,
               gateways := AList.update (gw_id gw) gw (gateways e)\<rparr>))"

text \<open>The scan: its plan is made without the lock, from the gateway addresses at that time.\<close>

definition gateway_addrs :: "engine \<Rightarrow> ipv4 set" where
  "gateway_addrs e = set (map (\<lambda>(_, g). gw_addr g) (gateways e))"

definition scan :: "engine \<Rightarrow> gateway_diff \<times> engine" where
  "scan e = (plan (env_interfaces (env e) (scan_calls e)) (gateway_addrs e),
     e\<lparr>scan_calls := scan_calls e + 1\<rparr>)"

definition close_address :: "ipv4 \<Rightarrow> engine \<Rightarrow> engine" where
  "close_address addr e =
     (let ids = map (\<lambda>(_, g). gw_id g) (filter (\<lambda>(_, g). gw_addr g = addr) (gateways e))
      in foldl (\<lambda>e i. and_then (close_gateway i) e) e ids)"

definition open_and_announce :: "ipv4 \<Rightarrow> engine \<Rightarrow> engine" where
  "open_and_announce addr e = (let (gw, e) = open_gateway addr e in
     case gw of None \<Rightarrow> e | Some gw \<Rightarrow> send_alive_on gw e)"

definition apply_plan :: "gateway_diff \<Rightarrow> u64 \<Rightarrow> engine \<Rightarrow> engine" where
  "apply_plan pl ep e = (if diff_is_empty pl then e
     else if \<not> enabled e \<or> epoch e \<noteq> ep then e else
     let e = foldl (\<lambda>e addr. and_then (close_address addr) e) e (removed pl)
     in and_then (\<lambda>e. notify (foldl (\<lambda>e addr. open_and_announce addr e) e (added pl))) e)"

definition rescan :: "u64 \<Rightarrow> engine \<Rightarrow> engine" where
  "rescan ep e = (if \<not> enabled e \<or> epoch e \<noteq> ep then e else
     let (pl, e) = scan e in apply_plan pl ep e)"

section \<open>Joining and leaving the network\<close>

text \<open>An explicit list keeps the first of each repeated address.\<close>

fun first_occurrences :: "'a list \<Rightarrow> 'a list \<Rightarrow> 'a list" where
  "first_occurrences seen [] = []"
| "first_occurrences seen (x # xs) = (if x \<in> set seen then first_occurrences seen xs
     else x # first_occurrences (x # seen) xs)"

definition initial_addrs :: "engine \<Rightarrow> ipv4 list \<times> engine" where
  "initial_addrs e = (case cf_gateways (config e) of
      Auto \<Rightarrow> (sorted_list_of_set (initial (env_interfaces (env e) (scan_calls e))),
        e\<lparr>scan_calls := scan_calls e + 1\<rparr>)
    | Explicit addrs \<Rightarrow> (first_occurrences [] addrs, e))"

definition found_session :: "engine \<Rightarrow> i64 option \<times> engine" where
  "found_session e =
     (let e = e\<lparr>epoch := epoch e + 1, enabled := True\<rparr> in
      case random_id e of (None, e) \<Rightarrow> (None, panic e)
      | (Some i, e) \<Rightarrow> let (t, e) = now (e\<lparr>node := i, session := i\<rparr>)
      in (Some t, e\<lparr>ghost_offset := - t,
           timeline := \<lparr>tempo = tempo (timeline e), beat_origin = 0, time_origin = 0\<rparr>,
           held_stst := default_start_stop, session_member_seen := False, foreign_timelines := [],
           measured := [], measurement := None, pending := [], peers := [], broadcast_due := None,
           next_remeasure_at := None\<rparr>))"

definition enable :: "engine \<Rightarrow> engine" where
  "enable e = (if enabled e then e else
     case found_session e of (None, e) \<Rightarrow> e
     | (Some t, e) \<Rightarrow>
         let (addrs, e) = initial_addrs e;
             e = foldl (\<lambda>e addr. snd (open_gateway addr e)) e addrs
         in notify (send_alive t e))"

definition disable :: "engine \<Rightarrow> engine" where
  "disable e = (if \<not> enabled e then e else
     let e = audio_shutdown e;
         bye = encode_disc (disc_bye_bye (node e));
         e = transmit (map (\<lambda>(_, gw). Send_multicast (gw_id gw) bye) (gateways e)) e
     in notify (e\<lparr>enabled := False, epoch := epoch e + 1, gateways := [], peers := [],
          measurement := None, pending := [], broadcast_due := None, session_member_seen := False,
          next_remeasure_at := None\<rparr>))"

section \<open>The operations keep the invariant\<close>

lemma gateway_live_open: "gateway_live gw ep e \<Longrightarrow> gw \<in> fst ` set (gateways e)"
  by (force simp: gateway_live_def dest: map_of_SomeD)

lemma receive_ok [inv_intros]:
  assumes "engine_ok e"
  shows "engine_ok (receive gw ep src buf r e)"
  using assms gateway_live_open [of gw ep e] open_gateway_known [OF assms, of gw]
  by (cases r) (simp_all add: receive_def dispatch_def handle_discovery_ok handle_measurement_ok
      handle_audio_ok)

lemma audio_ok_mono: "audio_ok n a \<Longrightarrow> n \<le> m \<Longrightarrow> audio_ok m a"
  by (auto simp: audio_ok_def dest: less_le_trans)

lemma running_ok_mono: "running_ok q n t \<Longrightarrow> n \<le> m \<Longrightarrow> running_ok q m t"
  by (simp add: running_ok_def)

lemma open_gateway_enabled [simp]: "enabled (snd (open_gateway addr e)) = enabled e"
  by (simp add: open_gateway_def Let_def split: option.split)

lemma update_keys: "fst ` set (AList.update k v m) = insert k (fst ` set m)"
  by (induction m) auto

lemma open_gateway_ok [inv_intros]:
  assumes "engine_ok e" and "enabled e"
  shows "engine_ok (snd (open_gateway addr e))"
proof -
  let ?n = "next_gateway_id e"
  have "engine_ok (e\<lparr>open_calls := c, next_gateway_id := ?n + 1, gateways := AList.update ?n g (gateways e)\<rparr>)"
    if "gw_id g = ?n" for c g
  proof -
    have "gateway_inv (e\<lparr>open_calls := c, next_gateway_id := ?n + 1, gateways := AList.update ?n g (gateways e)\<rparr>)"
      using assms(1) that by (auto simp: engine_ok_def gateway_inv_def distinct_update dest!: mem_update)
    moreover have "pred_option (audio_ok (Suc ?n)) (audio e)"
      using assms(1) by (auto simp: engine_ok_def audio_inv_def intro: audio_ok_mono elim!: option.pred_mono_strong)
    moreover have "pred_option (running_ok (map mt_session (pending e)) (Suc ?n)) (measurement e)"
      using assms(1) by (auto simp: engine_ok_def tasks_inv_def intro: running_ok_mono elim!: option.pred_mono_strong)
    ultimately show ?thesis
      using assms by (simp add: engine_ok_def engine_invs update_keys)
  qed
  then show ?thesis using assms(1) by (simp add: open_gateway_def Let_def split: option.split)
qed

lemma foldl_ok:
  "engine_ok e \<Longrightarrow> (\<And>e x. engine_ok e \<Longrightarrow> engine_ok (f e x)) \<Longrightarrow> engine_ok (foldl f e xs)"
  by (induction xs arbitrary: e) simp_all

lemma close_address_ok [inv_intros]: "engine_ok e \<Longrightarrow> engine_ok (close_address addr e)"
  by (simp add: close_address_def Let_def foldl_ok and_then_ok close_gateway_ok)

lemma open_and_announce_ok [inv_intros]:
  "engine_ok e \<Longrightarrow> enabled e \<Longrightarrow> engine_ok (open_and_announce addr e)"
  "enabled (open_and_announce addr e) = enabled e"
  using open_gateway_ok [of e addr] open_gateway_enabled [of addr e]
  by (cases "open_gateway addr e"; simp add: open_and_announce_def send_alive_on_def split: option.split)+

lemma enabled_gateway_closed [simp]: "enabled (gateway_closed g e) = enabled e"
  by (rule sans_audio_fields) simp

lemma enabled_close_gateway [simp]: "enabled (close_gateway i e) = enabled e"
  by (simp add: close_gateway_def and_then_def Let_def split: option.split)

lemma enabled_close_address [simp]: "enabled (close_address addr e) = enabled e"
proof -
  have "enabled (foldl (\<lambda>e i. and_then (close_gateway i) e) e ids) = enabled e" for e ids
    by (induction ids arbitrary: e) (simp_all add: and_then_def)
  then show ?thesis by (simp add: close_address_def Let_def)
qed

lemma openings_ok:
  "engine_ok e \<Longrightarrow> enabled e \<Longrightarrow> engine_ok (foldl (\<lambda>e a. open_and_announce a e) e as)"
  by (induction as arbitrary: e) (simp_all add: open_and_announce_ok)

lemma enabled_closures [simp]:
  "enabled (foldl (\<lambda>e a. and_then (close_address a) e) e as) = enabled e"
  by (induction as arbitrary: e) (simp_all add: and_then_def)

lemma apply_plan_ok [inv_intros]: "engine_ok e \<Longrightarrow> engine_ok (apply_plan pl ep e)"
  by (simp add: apply_plan_def Let_def) (intro impI and_then_ok foldl_ok; simp add: openings_ok close_address_ok)

lemma rescan_ok [inv_intros]: "engine_ok e \<Longrightarrow> engine_ok (rescan ep e)"
  by (simp add: rescan_def scan_def apply_plan_ok)

lemma initial_addrs_ok: "engine_ok (snd (initial_addrs e)) \<longleftrightarrow> engine_ok e"
  "enabled (snd (initial_addrs e)) = enabled e"
  by (simp_all add: initial_addrs_def split: gateways_config.split)

lemma openings_quiet_ok:
  "engine_ok e \<Longrightarrow> enabled e \<Longrightarrow> engine_ok (foldl (\<lambda>e a. snd (open_gateway a e)) e as)"
  by (induction as arbitrary: e) (simp_all add: open_gateway_ok)

lemma found_session_ok:
  "engine_ok e \<Longrightarrow> \<not> enabled e \<Longrightarrow> engine_ok (snd (found_session e))"
  by (auto simp: found_session_def random_id_def now_def gives_randomness_def panic_def engine_ok_def engine_invs
      Let_def split: option.split)

lemma found_session_fields:
  "enabled (snd (found_session e))" "epoch (snd (found_session e)) = epoch e + 1"
  "gateways (snd (found_session e)) = gateways e" "config (snd (found_session e)) = config e"
  "next_gateway_id (snd (found_session e)) = next_gateway_id e" "env (snd (found_session e)) = env e"
  by (simp_all add: found_session_def random_id_def now_def panic_def Let_def split: option.split)

text \<open>Enabling: a session is founded, the gateways are opened, and the first Alive is sent.\<close>

definition opened_up :: "engine \<Rightarrow> engine" where
  "opened_up e = foldl (\<lambda>e a. snd (open_gateway a e)) (snd (initial_addrs e)) (fst (initial_addrs e))"

lemma enable_cases:
  obtains "enabled e" "enable e = e"
  | "\<not> enabled e" "fst (found_session e) = None" "enable e = snd (found_session e)"
  | t where "\<not> enabled e" "fst (found_session e) = Some t"
      "enable e = notify (send_alive t (opened_up (snd (found_session e))))"
  by (cases "enabled e"; cases "fst (found_session e)")
    (auto simp: enable_def opened_up_def case_prod_unfold Let_def)

lemma enabled_opened_up [simp]: "enabled (opened_up e) = enabled e"
proof -
  have "enabled (foldl (\<lambda>e a. snd (open_gateway a e)) e as) = enabled e" for e as
    by (induction as arbitrary: e) simp_all
  then show ?thesis by (simp add: opened_up_def initial_addrs_ok)
qed

lemma enable_enables: "enabled (enable e)"
proof (cases e rule: enable_cases)
  case 3
  then show ?thesis using quiet_fields(1) [of "opened_up (snd (found_session e))"] found_session_fields(1) [of e]
    by (metis enabled_opened_up quiet_fields(1) quiet_notify quiet_send_alive)
qed (simp_all add: found_session_fields)

lemma enable_ok [inv_intros]:
  assumes "engine_ok e"
  shows "engine_ok (enable e)"
  using assms found_session_ok [of e] found_session_fields(1) [of e]
  by (auto simp: enable_def case_prod_unfold openings_quiet_ok initial_addrs_ok Let_def split: option.split)

lemma disable_ok [inv_intros]:
  assumes "engine_ok e"
  shows "engine_ok (disable e)"
proof -
  have "engine_ok (e'\<lparr>sent := s, enabled := False, epoch := ep, gateways := [], peers := [],
    measurement := None, pending := [], broadcast_due := None, session_member_seen := False,
    next_remeasure_at := None\<rparr>)" if "engine_ok e'" for s e' ep
    using that by (simp add: engine_ok_def engine_invs)
  with audio_shutdown_ok [OF assms] assms show ?thesis
    by (simp add: disable_def transmit_def Let_def)
qed

end
