(* ===== verification/Link.thy ===== *)
theory Link
  imports Runtime
begin

text \<open>
  The application's interface, \<^verbatim>\<open>crates/tactus/src/lib.rs\<close>: the tempo and transport setters, the beat
  queries, the session snapshot and the calls that pass on to the runtime and the audio operations.
  A query that would panic is \<open>None\<close>.
\<close>

section \<open>Queries\<close>

definition quantum_micro_beats :: "f64 \<Rightarrow> i64" where
  "quantum_micro_beats quantum = (if f64_le quantum (Fin 0) then 0
     else f64_to_i64 (f64_round (f64_mul quantum (Fin 1000000))))"

definition micro_to_beats :: "i64 \<Rightarrow> f64" where
  "micro_to_beats b = f64_div (f64_of_int (sint b)) (Fin 1000000)"

text \<open>Sorting and removing repeats leaves the distinct nodes.\<close>

definition count_peers :: "engine \<Rightarrow> nat" where
  "count_peers e = (if \<not> enabled e then 0 else
     length (remdups (map (\<lambda>p. fst (fst p))
       (filter (\<lambda>p. ps_session (pe_state (snd p)) = Some (session e)) (peers e)))))"

record session_snapshot =
  at_micros :: i64
  sn_quantum :: f64
  tempo_bpm :: f64
  sn_beat :: f64
  sn_phase :: f64
  sn_is_playing :: bool
  sn_enabled :: bool
  sn_num_peers :: nat
  session_id :: session_id

definition capture_session :: "f64 \<Rightarrow> engine \<Rightarrow> session_snapshot option \<times> engine" where
  "capture_session quantum e =
     (let (t, e) = now e; q = quantum_micro_beats quantum in
      (map_option (\<lambda>b. \<lparr>at_micros = t, sn_quantum = quantum, tempo_bpm = tempo_to_bpm (tempo (timeline e)),
         sn_beat = micro_to_beats b, sn_phase = micro_to_beats (phase b q),
         sn_is_playing = app_playing e, sn_enabled = enabled e, sn_num_peers = count_peers e,
         session_id = session e\<rparr>)
       (app_beat_at_ghost (timeline e) (t + ghost_offset e) q), e))"

definition beat_at :: "session_snapshot \<Rightarrow> i64 \<Rightarrow> f64" where
  "beat_at s micros = f64_add (sn_beat s)
     (f64_div (f64_mul (f64_of_int (sint (micros - at_micros s))) (tempo_bpm s)) (Fin 60000000))"

definition phase_at :: "session_snapshot \<Rightarrow> i64 \<Rightarrow> f64" where
  "phase_at s micros = (if f64_le (sn_quantum s) (Fin 0) then Fin 0
     else f64_rem_euclid (beat_at s micros) (sn_quantum s))"

definition beat_at_time :: "i64 \<Rightarrow> f64 \<Rightarrow> engine \<Rightarrow> f64 option" where
  "beat_at_time micros quantum e = map_option micro_to_beats
     (app_beat_at_ghost (timeline e) (micros + ghost_offset e) (quantum_micro_beats quantum))"

definition phase_at_time :: "i64 \<Rightarrow> f64 \<Rightarrow> engine \<Rightarrow> f64 option" where
  "phase_at_time micros quantum e = (let q = quantum_micro_beats quantum in
     map_option (\<lambda>b. micro_to_beats (phase b q))
       (app_beat_at_ghost (timeline e) (micros + ghost_offset e) q))"

definition time_at_beat :: "f64 \<Rightarrow> f64 \<Rightarrow> engine \<Rightarrow> i64" where
  "time_at_beat beat quantum e = (let q = quantum_micro_beats quantum;
      b = f64_to_i64 (f64_round (f64_mul beat (Fin 1000000)))
    in ghost_at_app_beat (timeline e) b q - ghost_offset e)"

section \<open>Setters\<close>

definition set_tempo :: "f64 \<Rightarrow> engine \<Rightarrow> engine" where
  "set_tempo bpm e = (let (t, e) = now e in
     case beats_at_ghost (timeline e) (t + ghost_offset e) of None \<Rightarrow> panic e
     | Some beats_now \<Rightarrow>
         let bo = smax beats_now (beat_origin (timeline e) + 1);
             to = ghost_at_beats (timeline e) bo
         in schedule_broadcast (e\<lparr>timeline :=
              \<lparr>tempo = bpm_to_tempo bpm, beat_origin = bo, time_origin = to\<rparr>\<rparr>))"

definition set_is_playing :: "bool \<Rightarrow> engine \<Rightarrow> engine" where
  "set_is_playing playing e = (let e = e\<lparr>app_playing := playing\<rparr> in
     if \<not> sst_sync e then e else
     let (t, e) = now e; ghost = t + ghost_offset e in
     case beats_at_ghost (timeline e) ghost of None \<Rightarrow> panic e
     | Some b \<Rightarrow> schedule_broadcast (e\<lparr>held_stst := \<lparr>is_playing = playing, ss_beats = b,
         timestamp = smax ghost (timestamp (held_stst e) + 1)\<rparr>\<rparr>))"

definition enable_start_stop_sync :: "bool \<Rightarrow> engine \<Rightarrow> engine" where
  "enable_start_stop_sync on e = (let e = e\<lparr>sst_sync := on\<rparr> in
     if on \<and> held_stst e \<noteq> default_start_stop then e\<lparr>app_playing := is_playing (held_stst e)\<rparr> else e)"

definition simulate_crash :: "engine \<Rightarrow> engine" where
  "simulate_crash e = (if \<not> enabled e then e else
     notify (e\<lparr>enabled := False, epoch := epoch e + 1, gateways := [], peers := [],
       measurement := None, pending := [], broadcast_due := None\<rparr>))"

section \<open>Audio\<close>

definition subscribe_channel :: "channel_id \<Rightarrow> f64 \<Rightarrow> engine \<Rightarrow> engine" where
  "subscribe_channel i quantum e = subscribe i (quantum_micro_beats quantum) e"

definition write_channel :: "channel_id \<Rightarrow> i16 list \<Rightarrow> u32 \<Rightarrow> u8 \<Rightarrow> f64 \<Rightarrow> f64 \<Rightarrow> engine \<Rightarrow> engine" where
  "write_channel i samples rate nc begin_app_beat quantum e =
     write_sink i samples rate nc begin_app_beat (quantum_micro_beats quantum) e"

definition poll_channel :: "channel_id \<Rightarrow> engine \<Rightarrow> received_chunk list \<times> engine" where
  "poll_channel i e = (case audio e of None \<Rightarrow> ([], e) | Some a \<Rightarrow>
     case map_of (sources a) i of None \<Rightarrow> ([], e)
     | Some s \<Rightarrow> (inbox s, e\<lparr>audio := Some (a\<lparr>sources :=
         AList.update i (s\<lparr>inbox := []\<rparr>) (sources a)\<rparr>)\<rparr>))"

definition channel_lost_chunks :: "channel_id \<Rightarrow> engine \<Rightarrow> u64" where
  "channel_lost_chunks i e = (case audio e of None \<Rightarrow> 0 | Some a \<Rightarrow>
     case map_of (sources a) i of None \<Rightarrow> 0 | Some s \<Rightarrow> lost_chunks s)"

definition has_requesters :: "channel_id \<Rightarrow> engine \<Rightarrow> bool \<times> engine" where
  "has_requesters i e = (let (t, e) = now e in
     (case audio e of None \<Rightarrow> False | Some a \<Rightarrow>
       case List.find (\<lambda>k. sk_id k = i) (sinks a) of None \<Rightarrow> False
       | Some k \<Rightarrow> (\<exists>r \<in> set (requesters k). t <s snd r), e))"

section \<open>The operations keep the invariant\<close>

lemma set_tempo_ok [inv_intros]:
  assumes "engine_ok e"
  shows "engine_ok (set_tempo bpm e)"
  using assms beats_at_ghost_Some [OF engine_ok_legal [OF assms], of "fst (now e) + ghost_offset e"]
  by (auto simp: set_tempo_def now_def Let_def engine_ok_timeline)

lemma set_is_playing_ok [inv_intros]:
  assumes "engine_ok e"
  shows "engine_ok (set_is_playing p e)"
  using assms beats_at_ghost_Some [OF engine_ok_legal [OF assms], of "fst (now e) + ghost_offset e"]
  by (auto simp: set_is_playing_def now_def Let_def)

lemma enable_start_stop_sync_ok [inv_intros]:
  "engine_ok e \<Longrightarrow> engine_ok (enable_start_stop_sync on e)"
  by (simp add: enable_start_stop_sync_def Let_def)

lemma simulate_crash_ok [inv_intros]: "engine_ok e \<Longrightarrow> engine_ok (simulate_crash e)"
  by (simp add: simulate_crash_def) (simp add: engine_ok_def engine_invs)

lemma channel_calls_ok [inv_intros]:
  assumes "engine_ok e"
  shows "engine_ok (subscribe_channel i q e)"
    and "rate \<noteq> 0 \<Longrightarrow> engine_ok (write_channel i samples rate nc b q e)"
    and "engine_ok (snd (poll_channel i e))" and "engine_ok (snd (has_requesters i e))"
    and "engine_ok (snd (capture_session q e))"
  using assms engine_ok_audio [OF assms]
  by (auto simp: subscribe_channel_def write_channel_def poll_channel_def has_requesters_def
      capture_session_def now_def Let_def subscribe_ok write_sink_ok poll_ok split: option.split)

end
