(* ===== verification/Gateway_Frame.thy ===== *)
theory Gateway_Frame
  imports Link
begin

text \<open>
  The set of open gateways, the epoch and the configuration change only when a gateway is opened or
  closed and when the peer joins or leaves the network: every other operation of the peer leaves them
  alone.
\<close>

section \<open>The network side of the state\<close>

definition network :: "engine \<Rightarrow> gateway_map \<times> nat \<times> bool \<times> u64 \<times> config \<times> env" where
  "network e = (gateways e, next_gateway_id e, enabled e, epoch e, config e, env e)"

lemma network_fields:
  assumes "network e' = network e"
  shows "gateways e' = gateways e" "next_gateway_id e' = next_gateway_id e" "enabled e' = enabled e"
    "epoch e' = epoch e" "config e' = config e" "env e' = env e"
  using assms by (simp_all add: network_def)

lemma network_update [simp]:
  "network (e\<lparr>node := i\<rparr>) = network e" "network (e\<lparr>session := i\<rparr>) = network e"
  "network (e\<lparr>timeline := l\<rparr>) = network e" "network (e\<lparr>ghost_offset := o'\<rparr>) = network e"
  "network (e\<lparr>held_stst := h\<rparr>) = network e" "network (e\<lparr>app_playing := b\<rparr>) = network e"
  "network (e\<lparr>sst_sync := b\<rparr>) = network e" "network (e\<lparr>peers := ps\<rparr>) = network e"
  "network (e\<lparr>session_member_seen := b\<rparr>) = network e" "network (e\<lparr>foreign_timelines := f\<rparr>) = network e"
  "network (e\<lparr>measured := ms\<rparr>) = network e" "network (e\<lparr>measurement := m\<rparr>) = network e"
  "network (e\<lparr>pending := ts\<rparr>) = network e" "network (e\<lparr>next_remeasure_at := r\<rparr>) = network e"
  "network (e\<lparr>audio := a\<rparr>) = network e" "network (e\<lparr>clock_reads := c\<rparr>) = network e"
  "network (e\<lparr>id_draws := c\<rparr>) = network e" "network (e\<lparr>open_calls := c\<rparr>) = network e"
  "network (e\<lparr>scan_calls := c\<rparr>) = network e" "network (panic e) = network e"
  "network (e\<lparr>broadcast_due := d\<rparr>) = network e"
  by (simp_all add: network_def panic_def)

lemma network_quiet:
  assumes "quiet e e'"
  shows "network e' = network e"
  by (simp add: network_def quiet_fields [OF assms])

lemma network_sans_audio:
  assumes "sans_audio e' = sans_audio e"
  shows "network e' = network e"
  by (simp add: network_def sans_audio_fields [OF assms])

lemma network_effects [simp]:
  "network (transmit msgs e) = network e" "network (notify e) = network e"
  "network (send_alive t e) = network e" "network (send_alive_on gw e) = network e"
  "network (schedule_broadcast e) = network e"
  by (rule network_quiet; simp)+

lemma network_audio [simp]:
  "network (handle_audio_datagram gw src buf e) = network e"
  "network (write_sink ch samples rate nc b q e) = network e"
  "network (peer_left n e) = network e" "network (gateway_closed g e) = network e"
  "network (snd (audio_housekeeping t e)) = network e"
  "network (audio_shutdown e) = network e" "network (enable_audio name e) = network e"
  "network (disable_audio e) = network e" "network (snd (publish name e)) = network e"
  "network (unpublish ch e) = network e" "network (subscribe ch q e) = network e"
  "network (unsubscribe ch e) = network e"
  by (rule network_sans_audio; simp add: frame_simps)+

section \<open>Session and measurement\<close>

lemma network_evaluate_join [simp]: "network (evaluate_join s o' e) = network e"
  by (simp add: evaluate_join_def now_def Let_def split: option.split)

lemma network_check_session_loss [simp]: "network (check_session_loss e) = network e"
  by (simp add: check_session_loss_def reset_session_def now_def random_id_def Let_def split: option.split)

lemma network_departed [simp]: "network (departed lost e) = network e"
  unfolding departed_def by (induction lost arbitrary: e) simp_all

lemma network_and_then:
  "(network (f e) = network e) \<Longrightarrow> network (and_then f e) = network e"
  by (simp add: and_then_def)

lemma network_start_next [simp]: "network (start_next_measurement e) = network e"
  by (simp add: start_next_measurement_def now_def Let_def split: list.split option.split)

lemma network_send_ping [simp]: "network (send_ping g dst bs e) = network e"
  by (simp add: send_ping_def split: option.split)

lemma network_queue [simp]:
  "network (queue_measurement g s ps pur e) = network e" "network (queue_remeasure e) = network e"
  by (simp_all add: queue_measurement_def queue_remeasure_def Let_def split: option.split)

lemma network_outcome [simp]:
  "network (measurement_failed m e) = network e" "network (measurement_succeeded m r e) = network e"
  by (simp_all add: measurement_failed_def measurement_succeeded_def now_def Let_def split: purpose.split)

lemma network_measurement [simp]: "network (handle_measurement_datagram g src buf e) = network e"
proof -
  have "network (handle_pong g src p e) = network e" for p
    by (simp add: handle_pong_def finish_or_chain_def now_def split: option.split)
  then show ?thesis
    by (simp add: handle_measurement_datagram_def now_def Let_def split: sum.split sync_message.split)
qed

section \<open>Discovery and housekeeping\<close>

lemma network_gossip [simp]:
  "network (adopt_timeline l e) = network e" "network (adopt_start_stop s e) = network e"
  "network (cache_timeline sess l e) = network e" "network (respond g src e) = network e"
  by (simp_all add: adopt_timeline_def adopt_start_stop_def cache_timeline_def respond_def Let_def
      split: option.split)

lemma network_discovery [simp]: "network (handle_discovery_datagram g src buf e) = network e"
proof -
  have b: "network (handle_bye n g e) = network e" for n e
    by (simp add: handle_bye_def and_then_def)
  have f: "network (follow_session g ps s e) = network e" for ps s e
    by (simp add: follow_session_def Let_def split: option.split)
  have r: "network (record_peer g n ttl ps e) = network e" for n ttl ps e
    by (simp add: record_peer_def now_def)
  show ?thesis
    by (simp add: handle_discovery_datagram_def process_peer_state_def Let_def b f r
        split: sum.split disc_message.split option.split)
qed

lemma network_steps [simp]:
  "network (alive_step t e) = network e"
  "network (snd (broadcast_step t x)) = network (snd x)" "network (snd (prune_step t x)) = network (snd x)"
  "network (snd (retry_step t x)) = network (snd x)" "network (snd (remeasure_step t x)) = network (snd x)"
  by (simp add: alive_step_def)
    (cases x; simp add: broadcast_step_def prune_step_def prune_peers_def retry_step_def remeasure_step_def
      Let_def split: option.split)+

lemma network_housekeeping [simp]: "network (snd (housekeeping_pass e)) = network e"
  by (simp add: housekeeping_pass_def now_def Let_def case_prod_unfold)

lemma network_receive [simp]: "network (receive gw ep src buf r e) = network e"
  by (simp add: receive_def dispatch_def split: role.split)

section \<open>Application calls\<close>

lemma network_calls [simp]:
  "network (set_tempo bpm e) = network e" "network (set_is_playing p e) = network e"
  "network (enable_start_stop_sync on e) = network e" "network (subscribe_channel i q e) = network e"
  "network (write_channel i samples rate nc b q e) = network e" "network (snd (poll_channel i e)) = network e"
  "network (snd (has_requesters i e)) = network e" "network (snd (capture_session q e)) = network e"
  by (simp_all add: set_tempo_def set_is_playing_def enable_start_stop_sync_def subscribe_channel_def
      write_channel_def poll_channel_def has_requesters_def capture_session_def now_def Let_def
      split: option.split)

end
