(* ===== verification/System.thy ===== *)
theory System
  imports Gateway_Frame
begin

text \<open>
  A peer as a transition system. The threads of the code share one mutex; what each does while it holds
  the lock is one step: a receiver's datagram, a housekeeping pass, a call of the application. The
  rescan thread of an epoch takes the lock twice, once for the addresses its plan is made from and once
  to carry the plan out, and anything may happen in between.
\<close>

section \<open>Steps\<close>

datatype call =
    Set_tempo f64 | Set_is_playing bool | Enable_start_stop_sync bool
  | Capture_session f64 | Beat_at_time i64 f64 | Phase_at_time i64 f64
  | Enable_audio bytes | Disable_audio | Publish bytes | Unpublish channel_id
  | Subscribe channel_id f64 | Unsubscribe channel_id | Poll channel_id | Has_requesters channel_id
  | Write channel_id "i16 list" u32 u8 f64 f64

text \<open>A query that has no answer has panicked.\<close>

definition or_panic :: "'a option \<times> engine \<Rightarrow> engine" where
  "or_panic x = (case x of (None, e) \<Rightarrow> panic e | (Some _, e) \<Rightarrow> e)"

primrec perform :: "call \<Rightarrow> engine \<Rightarrow> engine" where
  "perform (Set_tempo bpm) = set_tempo bpm"
| "perform (Set_is_playing p) = set_is_playing p"
| "perform (Enable_start_stop_sync b) = enable_start_stop_sync b"
| "perform (Capture_session q) = or_panic \<circ> capture_session q"
| "perform (Beat_at_time t q) = (\<lambda>e. or_panic (beat_at_time t q e, e))"
| "perform (Phase_at_time t q) = (\<lambda>e. or_panic (phase_at_time t q e, e))"
| "perform (Enable_audio name) = enable_audio name"
| "perform Disable_audio = disable_audio"
| "perform (Publish name) = snd \<circ> publish name"
| "perform (Unpublish i) = unpublish i"
| "perform (Subscribe i q) = subscribe_channel i q"
| "perform (Unsubscribe i) = unsubscribe i"
| "perform (Poll i) = snd \<circ> poll_channel i"
| "perform (Has_requesters i) = snd \<circ> has_requesters i"
| "perform (Write i samples rate nc b q) = write_channel i samples rate nc b q"

text \<open>A sample rate of zero makes the code divide by zero.\<close>

primrec positive_rate :: "call \<Rightarrow> bool" where
  "positive_rate (Set_tempo bpm) = True"
| "positive_rate (Set_is_playing p) = True"
| "positive_rate (Enable_start_stop_sync b) = True"
| "positive_rate (Capture_session q) = True"
| "positive_rate (Beat_at_time t q) = True"
| "positive_rate (Phase_at_time t q) = True"
| "positive_rate (Enable_audio name) = True"
| "positive_rate Disable_audio = True"
| "positive_rate (Publish name) = True"
| "positive_rate (Unpublish i) = True"
| "positive_rate (Subscribe i q) = True"
| "positive_rate (Unsubscribe i) = True"
| "positive_rate (Poll i) = True"
| "positive_rate (Has_requesters i) = True"
| "positive_rate (Write i samples rate nc b q) = (rate \<noteq> 0)"

text \<open>Where the rescan thread of an epoch is: asleep (no entry), past its waiting, or holding a plan.\<close>

datatype scan_state = Woken | Planned gateway_diff

record system =
  eng :: engine
  scans :: "u64 \<Rightarrow> scan_state option"

text \<open>An epoch number comes round again after \<open>2 ^ 64\<close> changes; no rescan thread sleeps that long.\<close>

definition fresh_epoch :: "system \<Rightarrow> bool" where
  "fresh_epoch s \<longleftrightarrow> scans s (epoch (eng s) + 1) = None"

inductive step :: "system \<Rightarrow> system \<Rightarrow> bool" where
  receive: "step s (s\<lparr>eng := receive gw ep src buf r (eng s)\<rparr>)"
| housekeeping: "step s (s\<lparr>eng := snd (housekeeping_pass (eng s))\<rparr>)"
| call: "positive_rate c \<Longrightarrow> step s (s\<lparr>eng := perform c (eng s)\<rparr>)"
| enable: "fresh_epoch s \<Longrightarrow> step s (s\<lparr>eng := enable (eng s)\<rparr>)"
| disable: "fresh_epoch s \<Longrightarrow> step s (s\<lparr>eng := disable (eng s)\<rparr>)"
| crash: "fresh_epoch s \<Longrightarrow> step s (s\<lparr>eng := simulate_crash (eng s)\<rparr>)"
| wake: "enabled (eng s) \<Longrightarrow> epoch (eng s) = ep \<Longrightarrow> cf_gateways (config (eng s)) = Auto \<Longrightarrow>
    scans s ep = None \<Longrightarrow> step s (s\<lparr>scans := (scans s)(ep \<mapsto> Woken)\<rparr>)"
| plan: "scans s ep = Some Woken \<Longrightarrow> scan (eng s) = (pl, e) \<Longrightarrow>
    step s (s\<lparr>eng := e, scans := (scans s)(ep \<mapsto> Planned pl)\<rparr>)"
| rescan: "scans s ep = Some (Planned pl) \<Longrightarrow>
    step s (s\<lparr>eng := apply_plan pl ep (eng s), scans := (scans s)(ep := None)\<rparr>)"

text \<open>The account of a peer ends with a panic.\<close>

inductive reachable :: "f64 \<Rightarrow> config \<Rightarrow> env \<Rightarrow> system \<Rightarrow> bool" for bpm c v where
  start: "reachable bpm c v \<lparr>eng = new_engine bpm c v, scans = Map.empty\<rparr>"
| step: "reachable bpm c v s \<Longrightarrow> \<not> panicked (eng s) \<Longrightarrow> step s s' \<Longrightarrow> reachable bpm c v s'"

inductive_cases stepE: "step s s'"

section \<open>The invariant of reachable states\<close>

lemma app_beat_at_ghost_Some: "legal_tempo (tempo l) \<Longrightarrow> \<exists>b. app_beat_at_ghost l g q = Some b"
  using beats_at_ghost_Some [of l g] session_offset_Some [of l q] by (auto simp: app_beat_at_ghost_def)

lemma queries_answered:
  assumes "legal_tempo (tempo (timeline e))"
  shows "\<exists>s. capture_session q e = (Some s, snd (now e))" "\<exists>b. beat_at_time t q e = Some b"
    "\<exists>b. phase_at_time t q e = Some b"
  using app_beat_at_ghost_Some [OF assms]
  by (auto simp: capture_session_def beat_at_time_def phase_at_time_def now_def Let_def)

lemma or_panic_query:
  "legal_tempo (tempo (timeline e)) \<Longrightarrow> or_panic (capture_session q e) = snd (now e)"
  "legal_tempo (tempo (timeline e)) \<Longrightarrow> or_panic (beat_at_time t q e, e) = e"
  "legal_tempo (tempo (timeline e)) \<Longrightarrow> or_panic (phase_at_time t q e, e) = e"
  using queries_answered(1) [of e q] queries_answered(2,3) [of e t q] by (auto simp: or_panic_def)

lemma perform_ok: "engine_ok e \<Longrightarrow> positive_rate c \<Longrightarrow> engine_ok (perform c e)"
  by (cases c) (simp_all add: inv_intros or_panic_query engine_ok_legal)

lemma step_ok: "step s s' \<Longrightarrow> engine_ok (eng s) \<Longrightarrow> engine_ok (eng s')"
  by (erule stepE) (auto simp: inv_intros perform_ok scan_def)

lemma new_engine_ok: "fair_iteration v \<Longrightarrow> engine_ok (new_engine bpm c v)"
  by (auto simp: new_engine_def Let_def engine_ok_def engine_invs gives_randomness_def)

lemma reachable_ok: "reachable bpm c v s \<Longrightarrow> fair_iteration v \<Longrightarrow> engine_ok (eng s)"
  by (induction rule: reachable.induct) (auto intro: new_engine_ok step_ok)

section \<open>Gateways\<close>

lemma network_perform [simp]: "network (perform c e) = network e"
  by (cases c) (simp_all add: or_panic_def capture_session_def now_def Let_def split: option.split)

definition addrs :: "engine \<Rightarrow> ipv4 list" where
  "addrs e = map (\<lambda>(_, g). gw_addr g) (gateways e)"

lemma set_addrs [simp]: "set (addrs e) = gateway_addrs e"
  by (simp add: addrs_def gateway_addrs_def)

lemma addrs_network: "network e' = network e \<Longrightarrow> addrs e' = addrs e"
  by (simp add: addrs_def network_def)

text \<open>Closing a gateway removes its entry and nothing else.\<close>

lemma close_gateway_network:
  "gateways (close_gateway i e) = AList.delete i (gateways e)"
  "next_gateway_id (close_gateway i e) = next_gateway_id e"
  "epoch (close_gateway i e) = epoch e" "config (close_gateway i e) = config e" "env (close_gateway i e) = env e"
proof -
  let ?e1 = "case map_of (gateways e) i of None \<Rightarrow> e
    | Some gw \<Rightarrow> transmit [Send_multicast (gw_id gw) (encode_disc (disc_bye_bye (node e)))]
        (e\<lparr>gateways := AList.delete i (gateways e)\<rparr>)"
  have k: "map_of (gateways e) i = None \<Longrightarrow> AList.delete i (gateways e) = gateways e"
    by (simp add: map_of_eq_None_iff)
  have "network (close_gateway i e) = network ?e1"
    by (simp add: close_gateway_def Let_def network_and_then)
  moreover have "network ?e1 = network (e\<lparr>gateways := AList.delete i (gateways e)\<rparr>)"
    by (simp add: network_def transmit_def k split: option.split)
  ultimately have n: "network (close_gateway i e) = network (e\<lparr>gateways := AList.delete i (gateways e)\<rparr>)"
    by simp
  show "gateways (close_gateway i e) = AList.delete i (gateways e)"
    "next_gateway_id (close_gateway i e) = next_gateway_id e"
    "epoch (close_gateway i e) = epoch e" "config (close_gateway i e) = config e" "env (close_gateway i e) = env e"
    using network_fields [OF n] by simp_all
qed

text \<open>What closing and opening may do to the gateways: \<open>narrows\<close> keeps some of them, \<open>widens\<close> adds new
  ones under fresh identifiers, with the endpoints the environment gave their sockets.\<close>

definition narrows :: "engine \<Rightarrow> engine \<Rightarrow> bool" where
  "narrows e e' \<longleftrightarrow> (\<exists>P. gateways e' = filter P (gateways e)) \<and> next_gateway_id e' = next_gateway_id e \<and>
     epoch e' = epoch e \<and> enabled e' = enabled e \<and> env e' = env e"

lemma narrows_refl [simp]: "narrows e e"
  by (auto simp: narrows_def intro: exI [of _ "\<lambda>_. True"])

lemma narrows_trans: "narrows e e' \<Longrightarrow> narrows e' e'' \<Longrightarrow> narrows e e''"
  by (auto simp: narrows_def)

lemma narrows_close_gateway [simp]: "narrows e (close_gateway i e)"
  by (auto simp: narrows_def close_gateway_network AList.delete_eq)

lemma narrows_foldl: "(\<And>e x. narrows e (f e x)) \<Longrightarrow> narrows e (foldl f e xs)"
  by (induction xs arbitrary: e) (auto intro: narrows_trans)

lemma narrows_closures [simp]: "narrows e (foldl (\<lambda>e a. and_then (close_address a) e) e as)"
  by (rule narrows_foldl) (simp add: and_then_def close_address_def Let_def narrows_foldl)

lemma narrows_addrs: "narrows e e' \<Longrightarrow> set (addrs e') \<subseteq> set (addrs e) \<and> (distinct (addrs e) \<longrightarrow> distinct (addrs e'))"
  by (auto simp: narrows_def addrs_def gateway_addrs_def distinct_map_filter)

definition opened_in :: "env \<Rightarrow> gateway \<Rightarrow> bool" where
  "opened_in v g \<longleftrightarrow> (\<exists>n. env_open v n (gw_addr g) = Some (gw_measurement g, gw_audio g))"

definition widens :: "engine \<Rightarrow> engine \<Rightarrow> bool" where
  "widens e e' \<longleftrightarrow> next_gateway_id e \<le> next_gateway_id e' \<and>
     (\<forall>i \<in> set (keys_of (gateways e')). i \<in> set (keys_of (gateways e)) \<or> next_gateway_id e \<le> i) \<and>
     env e' = env e \<and> (\<forall>g \<in> snd ` set (gateways e'). g \<in> snd ` set (gateways e) \<or> opened_in (env e) g)"

lemma widens_refl [simp]: "widens e e"
  by (simp add: widens_def)

lemma widens_trans [trans]:
  assumes "widens e e'" and "widens e' e''"
  shows "widens e e''"
proof -
  note a = assms [unfolded widens_def]
  have "i \<in> set (keys_of (gateways e)) \<or> next_gateway_id e \<le> i" if "i \<in> set (keys_of (gateways e''))" for i
    using that a by (meson le_trans)
  moreover have "g \<in> snd ` set (gateways e) \<or> opened_in (env e) g" if "g \<in> snd ` set (gateways e'')" for g
    using that a by metis
  moreover have "next_gateway_id e \<le> next_gateway_id e''" "env e'' = env e" using a by simp_all
  ultimately show ?thesis unfolding widens_def by blast
qed

lemma widens_network: "network e' = network e \<Longrightarrow> widens e e'"
  by (auto simp: widens_def network_def)

lemma narrows_widens: "narrows e e' \<Longrightarrow> widens e e'"
  by (auto simp: widens_def narrows_def)

lemma widens_open_gateway: "widens e (snd (open_gateway addr e))"
  by (auto simp: widens_def open_gateway_def Let_def opened_in_def dest!: mem_update split: option.split)

lemma widens_foldl: "(\<And>e x. widens e (f e x)) \<Longrightarrow> widens e (foldl f e xs)"
  by (induction xs arbitrary: e) (auto intro: widens_trans)

lemma open_and_announce_network: "network (open_and_announce addr e) = network (snd (open_gateway addr e))"
  by (simp add: open_and_announce_def split: prod.split option.split)

lemma widens_openings: "widens e (foldl (\<lambda>e a. open_and_announce a e) e as)"
  by (rule widens_foldl) (metis open_and_announce_network widens_network widens_open_gateway widens_trans)

lemma widens_apply_plan: "widens e (apply_plan pl ep e)"
proof -
  let ?c = "foldl (\<lambda>e a. and_then (close_address a) e) e (removed pl)"
  have c: "widens e ?c" by (rule narrows_widens) simp
  have "widens ?c (notify (foldl (\<lambda>e a. open_and_announce a e) ?c (added pl)))"
    by (rule widens_trans [OF widens_openings widens_network]) simp
  with c have "widens e (notify (foldl (\<lambda>e a. open_and_announce a e) ?c (added pl)))"
    by (rule widens_trans)
  with c show ?thesis by (simp add: apply_plan_def Let_def and_then_def [where e = ?c])
qed

lemma widens_opened_up: "widens e (opened_up e)"
proof -
  have "widens e (snd (initial_addrs e))"
    by (rule widens_network) (simp add: initial_addrs_def split: gateways_config.split)
  also have "widens (snd (initial_addrs e)) (opened_up e)"
    unfolding opened_up_def by (rule widens_foldl) (rule widens_open_gateway)
  finally show ?thesis .
qed

lemma widens_enable: "widens e (enable e)"
proof -
  have f: "widens e (snd (found_session e))" by (simp add: widens_def found_session_fields)
  from f widens_opened_up have "widens e (opened_up (snd (found_session e)))" by (rule widens_trans)
  then have "widens e (notify (send_alive t (opened_up (snd (found_session e)))))" for t
    by (rule widens_trans) (rule widens_network, simp)
  with f show ?thesis by (cases e rule: enable_cases) simp_all
qed

lemma leave_network:
  "gateways (disable e) = (if enabled e then [] else gateways e)" "next_gateway_id (disable e) = next_gateway_id e"
  "gateways (simulate_crash e) = (if enabled e then [] else gateways e)"
  "next_gateway_id (simulate_crash e) = next_gateway_id e"
  "env (disable e) = env e" "env (simulate_crash e) = env e"
proof -
  have "next_gateway_id (audio_shutdown e) = next_gateway_id e" "env (audio_shutdown e) = env e"
    by (rule network_fields; simp)+
  then show "next_gateway_id (disable e) = next_gateway_id e" "env (disable e) = env e"
    by (simp_all add: disable_def Let_def notify_def transmit_def)
qed (simp_all add: disable_def simulate_crash_def Let_def notify_def)

lemma widens_leave: "widens e (disable e)" "widens e (simulate_crash e)"
  by (simp_all add: widens_def leave_network)

lemma widens_scan: "scan e = (pl, e') \<Longrightarrow> widens e e'"
  by (auto simp: scan_def widens_def)

lemma widens_step: "step s s' \<Longrightarrow> widens (eng s) (eng s')"
  by (erule stepE) (auto intro: widens_network widens_enable widens_apply_plan widens_leave widens_scan)

lemma reachable_env: "reachable bpm c v s \<Longrightarrow> env (eng s) = v"
proof (induction rule: reachable.induct)
  case start
  then show ?case by (simp add: new_engine_def Let_def)
next
  case (step s s')
  with widens_step [of s s'] show ?case by (simp add: widens_def)
qed

section \<open>One gateway per address\<close>

fun plan_fits :: "scan_state option \<Rightarrow> ipv4 set \<Rightarrow> bool" where
  "plan_fits (Some (Planned pl)) current \<longleftrightarrow> distinct (added pl) \<and> set (added pl) \<inter> current = {}"
| "plan_fits _ current \<longleftrightarrow> True"

definition scan_inv :: "system \<Rightarrow> bool" where
  "scan_inv s \<longleftrightarrow> distinct (addrs (eng s)) \<and>
     (enabled (eng s) \<longrightarrow> plan_fits (scans s (epoch (eng s))) (set (addrs (eng s))))"

lemma scan_inv_network:
  assumes "network e' = network (eng s)"
  shows "scan_inv (s\<lparr>eng := e'\<rparr>) \<longleftrightarrow> scan_inv s"
  by (simp add: scan_inv_def network_fields [OF assms] addrs_network [OF assms] del: set_addrs)

lemma open_gateway_addrs:
  assumes "engine_ok e"
  shows "addrs (snd (open_gateway a e)) = addrs e \<or> addrs (snd (open_gateway a e)) = addrs e @ [a]"
proof -
  have "next_gateway_id e \<notin> set (keys_of (gateways e))"
    using assms by (force simp: engine_ok_def gateway_inv_def)
  then show ?thesis
    by (auto simp: open_gateway_def Let_def addrs_def update_fresh split: option.split)
qed

lemma openings_addrs:
  assumes "engine_ok e" and "enabled e" and "distinct (addrs e)" and "distinct as"
    and "set as \<inter> set (addrs e) = {}"
    and "\<And>a e. engine_ok e \<Longrightarrow> enabled e \<Longrightarrow> network (f e a) = network (snd (open_gateway a e)) \<and>
      engine_ok (f e a)"
  shows "distinct (addrs (foldl f e as))"
  using assms(1-5)
proof (induction as arbitrary: e)
  case (Cons a as)
  have f: "network (f e a) = network (snd (open_gateway a e))" "engine_ok (f e a)"
    using assms(6) Cons.prems(1,2) by blast+
  have "addrs (f e a) = addrs e \<or> addrs (f e a) = addrs e @ [a]"
    using open_gateway_addrs [OF Cons.prems(1)] addrs_network [OF f(1)] by metis
  moreover have "enabled (f e a)" using Cons.prems(2) network_fields(3) [OF f(1)] by simp
  ultimately have "distinct (addrs (foldl f (f e a) as))"
    using Cons.prems f(2) by (intro Cons.IH) (auto simp del: set_addrs)
  then show ?case by simp
qed simp

lemma apply_plan_addrs:
  assumes "engine_ok e" and "distinct (addrs e)"
    and "enabled e \<and> epoch e = ep \<longrightarrow> distinct (added pl) \<and> set (added pl) \<inter> set (addrs e) = {}"
  shows "distinct (addrs (apply_plan pl ep e))"
proof -
  let ?c = "foldl (\<lambda>e a. and_then (close_address a) e) e (removed pl)"
  let ?o = "foldl (\<lambda>e a. open_and_announce a e) ?c (added pl)"
  have c: "engine_ok ?c" "narrows e ?c"
    using assms(1) by (simp_all add: foldl_ok and_then_ok close_address_ok)
  note d = narrows_addrs [OF c(2)]
  have "distinct (addrs ?o)" if "enabled e" "epoch e = ep"
  proof (rule openings_addrs [OF c(1)])
    show "enabled ?c" "distinct (addrs ?c)" "distinct (added pl)" "set (added pl) \<inter> set (addrs ?c) = {}"
      using that d assms(2,3) by auto
  qed (simp add: open_and_announce_network open_and_announce_ok)
  moreover have "addrs (notify ?o) = addrs ?o" by (rule addrs_network) simp
  ultimately show ?thesis
    using assms(2) d by (simp add: apply_plan_def Let_def and_then_def [where e = ?c])
qed

lemma first_occurrences_distinct:
  "distinct (first_occurrences seen xs) \<and> set (first_occurrences seen xs) \<inter> set seen = {}"
  by (induction seen xs rule: first_occurrences.induct) auto

lemma initial_addrs_distinct: "distinct (fst (initial_addrs e))"
  by (simp add: initial_addrs_def first_occurrences_distinct split: gateways_config.split)

lemma enable_addrs:
  assumes "engine_ok e" and "\<not> enabled e"
  shows "distinct (addrs (enable e))" and "epoch (enable e) = epoch e + 1"
proof -
  let ?e0 = "snd (found_session e)"
  let ?e1 = "snd (initial_addrs ?e0)"
  let ?as = "fst (initial_addrs ?e0)"
  have n: "network ?e1 = network ?e0" by (simp add: initial_addrs_def split: gateways_config.split)
  have e0: "addrs ?e0 = []" using assms by (simp add: addrs_def found_session_fields engine_ok_def idle_inv_def)
  then have a: "addrs ?e1 = []" using addrs_network [OF n] by simp
  have "distinct (addrs (opened_up ?e0))"
    unfolding opened_up_def
    by (rule openings_addrs)
      (use a assms in \<open>simp_all add: initial_addrs_ok found_session_ok found_session_fields open_gateway_ok
        initial_addrs_distinct del: set_addrs\<close>)
  then have "distinct (addrs (notify (send_alive t (opened_up ?e0))))" for t
    using addrs_network [of "notify (send_alive t (opened_up ?e0))" "opened_up ?e0"] by simp
  with e0 assms(2) show "distinct (addrs (enable e))" by (cases e rule: enable_cases) simp_all
  have "epoch (foldl (\<lambda>e a. snd (open_gateway a e)) e' as) = epoch e'" for e' as
    by (induction as arbitrary: e') (simp_all add: open_gateway_def Let_def split: option.split)
  then have "epoch (opened_up ?e0) = epoch e + 1"
    by (simp add: opened_up_def network_fields(4) [OF n] found_session_fields)
  then have "epoch (notify (send_alive t (opened_up ?e0))) = epoch e + 1" for t
    using network_fields(4) [of "notify (send_alive t (opened_up ?e0))" "opened_up ?e0"] by simp
  with assms(2) show "epoch (enable e) = epoch e + 1"
    by (cases e rule: enable_cases) (simp_all add: found_session_fields)
qed

lemma leave_fields:
  "enabled e \<Longrightarrow> addrs (disable e) = [] \<and> \<not> enabled (disable e)"
  "enabled e \<Longrightarrow> addrs (simulate_crash e) = [] \<and> \<not> enabled (simulate_crash e)"
  by (simp_all add: addrs_def leave_network) (simp_all add: disable_def simulate_crash_def Let_def)

lemma diff_fits: "plan_fits (Some (Planned (plan found (set (addrs e))))) (set (addrs e))"
  by (cases found) (auto simp: plan_def empty_diff_def diff_def finite_admit simp del: set_addrs)

lemma apply_plan_stale: "\<not> (enabled e \<and> epoch e = ep) \<Longrightarrow> apply_plan pl ep e = e"
  by (auto simp: apply_plan_def)

lemma apply_plan_epoch: "epoch (apply_plan pl ep e) = epoch e"
proof -
  have o: "epoch (foldl (\<lambda>e a. open_and_announce a e) e as) = epoch e" for e as
  proof (induction as arbitrary: e)
    case (Cons a as)
    have "epoch (open_and_announce a e) = epoch (snd (open_gateway a e))"
      by (rule network_fields(4) [OF open_and_announce_network])
    also have "\<dots> = epoch e" by (simp add: open_gateway_def Let_def split: option.split)
    finally show ?case using Cons by simp
  qed simp
  have "epoch (foldl (\<lambda>e a. and_then (close_address a) e) e as) = epoch e" for as
    using narrows_closures [of e as] by (simp add: narrows_def)
  moreover have "epoch (notify e) = epoch e" for e by (rule network_fields) simp
  ultimately show ?thesis by (simp add: apply_plan_def Let_def and_then_def o)
qed

lemma scan_inv_step:
  assumes "step s s'" and "engine_ok (eng s)" and "scan_inv s"
  shows "scan_inv s'"
  using assms(1)
proof (cases rule: step.cases)
  case (call c)
  then show ?thesis using assms(3) by (simp add: scan_inv_network)
next
  case enable
  then show ?thesis
    using assms(2,3) enable_addrs [OF assms(2)]
    by (cases "enabled (eng s)") (simp_all add: scan_inv_def fresh_epoch_def enable_def [of "eng s"])
next
  case disable
  then show ?thesis using assms(3) leave_fields(1) [of "eng s"]
    by (cases "enabled (eng s)") (simp_all add: scan_inv_def disable_def [of "eng s"])
next
  case crash
  then show ?thesis using assms(3) leave_fields(2) [of "eng s"]
    by (cases "enabled (eng s)") (simp_all add: scan_inv_def simulate_crash_def [of "eng s"])
next
  case (plan ep pl e)
  have n: "network e = network (eng s)" using plan(3) by (auto simp: scan_def)
  have "pl = Iface.plan (env_interfaces (env (eng s)) (scan_calls (eng s))) (set (addrs (eng s)))"
    using plan(3) by (simp add: scan_def)
  then show ?thesis using assms(3) plan(1) diff_fits network_fields [OF n] addrs_network [OF n]
    by (simp add: scan_inv_def del: set_addrs plan_fits.simps)
next
  case (rescan ep pl)
  show ?thesis
  proof (cases "enabled (eng s) \<and> epoch (eng s) = ep")
    case True
    then have "distinct (addrs (apply_plan pl ep (eng s)))"
      using apply_plan_addrs [OF assms(2), of ep pl] assms(3) rescan(2) by (simp add: scan_inv_def)
    then show ?thesis using True by (simp add: rescan(1) scan_inv_def apply_plan_epoch)
  next
    case False
    then show ?thesis using assms(3) by (auto simp: rescan(1) scan_inv_def apply_plan_stale)
  qed
next
  case (wake ep)
  with assms(3) show ?thesis by (simp add: scan_inv_def)
qed (use assms(3) in \<open>simp_all add: scan_inv_network\<close>)

lemma reachable_scan: "reachable bpm c v s \<Longrightarrow> fair_iteration v \<Longrightarrow> scan_inv s"
proof (induction rule: reachable.induct)
  case start
  then show ?case by (simp add: scan_inv_def addrs_def new_engine_def Let_def)
next
  case (step s s')
  then show ?case using scan_inv_step reachable_ok by blast
qed

section \<open>Properties of every reachable state\<close>

text \<open>A concrete environment for the witnesses: a clock that advances by a second with every reading,
  identifiers that count up, sockets that always open, no interface list, maps iterated as stored.\<close>

definition example_env :: env where
  "example_env = \<lparr>env_clock = (\<lambda>n. 1000000 * (word_of_nat n + 1)), env_ids = (\<lambda>n. Some (Id (word_of_nat n + 1))),
     env_open = (\<lambda>n a. Some (V4 a (word_of_nat n), V4 a (word_of_nat n + 1))),
     env_interfaces = (\<lambda>n. None), iter_peers = (\<lambda>m. m), iter_known = (\<lambda>m. m),
     iter_requesters = (\<lambda>m. m), iter_sources = (\<lambda>m. m)\<rparr>"

definition example_config :: config where
  "example_config = \<lparr>cf_gateways = Auto, fill_audio_datagrams = False\<rparr>"

lemma fair_example [simp]: "fair_iteration example_env"
  by (simp add: fair_iteration_def example_env_def)

lemma random_example [simp]: "gives_randomness example_env"
  by (simp add: gives_randomness_def example_env_def)

definition example_start :: system where
  "example_start = \<lparr>eng = new_engine (Fin 120) example_config example_env, scans = Map.empty\<rparr>"

definition example_joined :: system where
  "example_joined = example_start\<lparr>eng := enable (eng example_start)\<rparr>"

lemma reachable_example: "reachable (Fin 120) example_config example_env example_joined"
proof -
  have "reachable (Fin 120) example_config example_env example_start"
    unfolding example_start_def by (rule reachable.start)
  moreover have "step example_start example_joined"
    unfolding example_joined_def by (rule step.enable) (simp add: fresh_epoch_def example_start_def)
  moreover have "\<not> panicked (eng example_start)" by (simp add: example_start_def new_engine_def example_env_def Let_def)
  ultimately show ?thesis using reachable.step by blast
qed

text \<open>C1: In a release build, on a system that gives randomness, no sequence of datagrams, housekeeping passes,
  rescans and application calls makes a peer panic, as long as no audio is written with a sample rate of
  zero: no division by zero, no failed \<open>expect\<close> or index, whatever arrives from the network, whatever the clock
  reads, and wherever the integers wrap around. Overflow checks and debug assertions, which a release build
  does not have, are not in the model; that threads can be created, memory allocated and the standard error written
  (where addresses that do not open are reported) is presumed.\<close>

theorem reachable_never_panics:
  assumes "gives_randomness v" and "fair_iteration v" and "reachable bpm c v s"
  shows "\<not> panicked (eng s)"
  using reachable_ok [OF assms(3,2)] reachable_env [OF assms(3)] assms(1) by (simp add: engine_ok_alive)

lemma reachable_never_panics_witness: "\<not> panicked (eng example_joined)"
  by (rule reachable_never_panics [OF random_example fair_example reachable_example])

text \<open>Without randomness it does: the engine's first identifier cannot be drawn.\<close>

lemma no_randomness_panics: "env_ids v 0 = None \<Longrightarrow> panicked (new_engine bpm c v)"
  by (simp add: new_engine_def Let_def)

text \<open>The tempo of a peer is always between 60060 and 3000000 microseconds per beat (20 to 999
  beats per minute), whatever tempo other peers announce and the application asks for.\<close>

theorem reachable_tempo_legal:
  assumes "fair_iteration v" and "reachable bpm c v s"
  shows "sint TEMPO_MIN_MICROS_PER_BEAT \<le> sint (tempo (timeline (eng s))) \<and>
    sint (tempo (timeline (eng s))) \<le> sint TEMPO_MAX_MICROS_PER_BEAT"
  using reachable_ok [OF assms(2,1)] engine_ok_legal
  by (auto simp: legal_tempo_def TEMPO_MIN_MICROS_PER_BEAT_def TEMPO_MAX_MICROS_PER_BEAT_def)

lemma reachable_tempo_legal_witness:
  "sint TEMPO_MIN_MICROS_PER_BEAT \<le> sint (tempo (timeline (eng example_joined))) \<and>
    sint (tempo (timeline (eng example_joined))) \<le> sint TEMPO_MAX_MICROS_PER_BEAT"
  by (rule reachable_tempo_legal [OF fair_example reachable_example])

text \<open>C19: What a peer keeps under a gateway's identifier belongs to that gateway. The gateways are stored
  under their own, pairwise different identifiers, which are below the next one to be given; every peer
  entry and every queued measurement names an open gateway; every channel and path entry and the
  running measurement name a gateway that has been opened; and no key occurs twice in a table.\<close>

theorem reachable_gateway_keys:
  assumes "fair_iteration v" and "reachable bpm c v s"
  shows "well_keyed (gateways (eng s)) \<and> list_all (\<lambda>(i, g). gw_id g = i \<and> i < next_gateway_id (eng s)) (gateways (eng s)) \<and>
    well_keyed (peers (eng s)) \<and>
    list_all (\<lambda>((n, i), p). i \<in> set (keys_of (gateways (eng s)))) (peers (eng s)) \<and>
    list_all (\<lambda>t. mt_gateway t \<in> set (keys_of (gateways (eng s)))) (pending (eng s)) \<and>
    pred_option (\<lambda>m. mt_gateway (m_task m) < next_gateway_id (eng s)) (measurement (eng s)) \<and>
    pred_option (\<lambda>a. well_keyed (known a) \<and> list_all (\<lambda>((ch, i), k). i < next_gateway_id (eng s)) (known a) \<and>
      well_keyed (paths a) \<and> list_all (\<lambda>((n, i), p). i < next_gateway_id (eng s)) (paths a)) (audio (eng s))"
proof (intro conjI)
  let ?e = "eng s"
  have ok: "gateway_inv ?e" "peers_inv ?e" "tasks_inv ?e" "audio_inv ?e"
    using reachable_ok [OF assms(2,1)] by (simp_all add: engine_ok_def)
  show "well_keyed (gateways ?e)"
    and "list_all (\<lambda>(i, g). gw_id g = i \<and> i < next_gateway_id ?e) (gateways ?e)"
    using ok(1) by (simp_all add: gateway_inv_def list_all_iff case_prod_unfold)
  show "well_keyed (peers ?e)" and "list_all (\<lambda>((n, i), p). i \<in> set (keys_of (gateways ?e))) (peers ?e)"
    using ok(2) by (simp_all add: peers_inv_def list_all_iff case_prod_unfold)
  show "list_all (\<lambda>t. mt_gateway t \<in> set (keys_of (gateways ?e))) (pending ?e)"
    and "pred_option (\<lambda>m. mt_gateway (m_task m) < next_gateway_id ?e) (measurement ?e)"
    using ok(3) by (auto simp: tasks_inv_def list_all_iff running_ok_def elim!: option.pred_mono_strong)
  show "pred_option (\<lambda>a. well_keyed (known a) \<and> list_all (\<lambda>((ch, i), k). i < next_gateway_id ?e) (known a) \<and>
      well_keyed (paths a) \<and> list_all (\<lambda>((n, i), p). i < next_gateway_id ?e) (paths a)) (audio ?e)"
    using ok(4) unfolding audio_inv_def
    by (rule option.pred_mono_strong) (simp add: audio_ok_def list_all_iff case_prod_unfold)
qed

lemma reachable_gateway_keys_witness:
  "well_keyed (gateways (eng example_joined)) \<and>
    list_all (\<lambda>(i, g). gw_id g = i \<and> i < next_gateway_id (eng example_joined)) (gateways (eng example_joined))"
  using reachable_gateway_keys [OF fair_example reachable_example] by blast

text \<open>The identifier of a closed gateway is never given to another one: once an identifier has been
  used and its gateway is closed, no later state has a gateway under it, so that what a peer still keeps
  under it cannot be taken for something learned through a newer gateway.\<close>

theorem gateway_ids_never_reused:
  assumes "step\<^sup>*\<^sup>* s s'" and "i < next_gateway_id (eng s)" and "i \<notin> set (keys_of (gateways (eng s)))"
  shows "i \<notin> set (keys_of (gateways (eng s')))"
proof -
  have "widens (eng s) (eng s')"
    using assms(1) by (induction rule: rtranclp_induct) (auto intro: widens_step widens_trans)
  with assms(2,3) show ?thesis by (force simp: widens_def)
qed

lemma example_gateway: "keys_of (gateways (eng example_joined)) = [0] \<and> next_gateway_id (eng example_joined) = 1"
proof -
  have "initial None = {LOCALHOST}" by (simp add: initial_def admit_def)
  then show ?thesis
    by (simp add: example_joined_def example_start_def new_engine_def example_env_def example_config_def
        enable_def found_session_def random_id_def now_def initial_addrs_def open_gateway_def Let_def
        notify_def send_alive_def transmit_def)
qed

lemma gateway_ids_never_reused_witness:
  "\<exists>s. step\<^sup>*\<^sup>* (example_joined\<lparr>eng := disable (eng example_joined)\<rparr>) s \<and>
    enabled (eng s) \<and> 0 \<notin> set (keys_of (gateways (eng s)))"
proof -
  let ?s = "example_joined\<lparr>eng := disable (eng example_joined)\<rparr>"
  let ?t = "?s\<lparr>eng := enable (eng ?s)\<rparr>"
  have e: "enabled (eng example_joined)"
    by (simp add: example_joined_def enable_enables)
  have st: "step\<^sup>*\<^sup>* ?s ?t"
    by (rule r_into_rtranclp, rule step.enable)
      (simp add: fresh_epoch_def example_joined_def example_start_def)
  have "0 < next_gateway_id (eng ?s)" "0 \<notin> set (keys_of (gateways (eng ?s)))"
    using example_gateway e by (simp_all add: leave_network)
  from gateway_ids_never_reused [OF st this] have "0 \<notin> set (keys_of (gateways (eng ?t)))" .
  moreover have "enabled (eng ?t)" by (simp add: enable_enables)
  ultimately show ?thesis using st by blast
qed

text \<open>C20: A peer runs at most one gateway per address, also when addresses come and go between the moment
  a rescan takes its list of open gateways and the moment it carries its plan out, while the peer may
  have left and joined the network again.\<close>

theorem reachable_one_gateway_per_address:
  assumes "fair_iteration v" and "reachable bpm c v s"
  shows "distinct (map (\<lambda>(i, g). gw_addr g) (gateways (eng s)))"
  using reachable_scan [OF assms(2,1)] by (simp add: scan_inv_def addrs_def)

lemma reachable_one_gateway_per_address_witness:
  "distinct (map (\<lambda>(i, g). gw_addr g) (gateways (eng example_joined)))"
  by (rule reachable_one_gateway_per_address [OF fair_example reachable_example])

text \<open>C23: A peer measures at most one session at a time and never queues a session it is already
  measuring or has queued; a running measurement has used at most its five retries, holds at most 100
  samples and no NaN; and a peer that is not enabled has no gateway, no peers and no measurement.\<close>

theorem reachable_measurement_bounds:
  assumes "fair_iteration v" and "reachable bpm c v s"
  shows "distinct (map (mt_session \<circ> m_task) (case measurement (eng s) of None \<Rightarrow> [] | Some m \<Rightarrow> [m])
      @ map mt_session (pending (eng s))) \<and>
    pred_option (\<lambda>m. m_timeouts m \<le> MAX_MEASUREMENT_RETRIES \<and> length (m_samples m) \<le> SAMPLES_REQUIRED \<and>
      NaN \<notin> set (m_samples m)) (measurement (eng s)) \<and>
    (enabled (eng s) \<or> (gateways (eng s) = [] \<and> peers (eng s) = [] \<and>
      measurement (eng s) = None \<and> pending (eng s) = []))"
proof -
  have "tasks_inv (eng s)" "idle_inv (eng s)"
    using reachable_ok [OF assms(2,1)] by (simp_all add: engine_ok_def)
  then show ?thesis
    by (auto simp: tasks_inv_def idle_inv_def running_ok_def elim!: option.pred_mono_strong split: option.split)
qed

lemma reachable_measurement_bounds_witness:
  "distinct (map mt_session (pending (eng example_joined)))"
  using reachable_measurement_bounds [OF fair_example reachable_example] by (auto split: option.splits)

text \<open>C24: Bounds that LinkAudio keeps whatever the network sends: the names of the peer and of its channels have
  at most 256 bytes, a subscription holds at most 256 undelivered chunks, a path at most 10 round-trip times,
  no node has two requester entries in one sink and no channel two subscriptions, and what a sink has
  pending carries a positive tempo. The number of requesters and of known channels is not bounded.\<close>

theorem reachable_audio_bounds:
  assumes "fair_iteration v" and "reachable bpm c v s"
  shows "pred_option (\<lambda>a. length (au_peer_name a) \<le> 256 \<and>
      list_all (\<lambda>k. length (sk_name k) \<le> 256 \<and> well_keyed (requesters k) \<and>
        list_all (\<lambda>sg. 0 <s sg_tempo sg) (segments k)) (sinks a) \<and>
      well_keyed (sources a) \<and> list_all (\<lambda>(i, so). length (inbox so) \<le> 256) (sources a) \<and>
      list_all (\<lambda>(i, p). length (rtts p) \<le> 10) (paths a)) (audio (eng s))"
proof -
  have "audio_inv (eng s)" using reachable_ok [OF assms(2,1)] by (simp add: engine_ok_def)
  then show ?thesis unfolding audio_inv_def
    by (rule option.pred_mono_strong)
      (simp add: audio_ok_def sink_ok_def MAX_NAME_def list_all_iff case_prod_unfold word_sless_alt)
qed

lemma example_runs: "\<not> panicked (eng example_joined)"
  using reachable_ok [OF reachable_example fair_example] reachable_env [OF reachable_example]
  by (simp add: engine_ok_alive)

definition example_audio_on :: system where
  "example_audio_on = example_joined\<lparr>eng := enable_audio [109, 101] (eng example_joined)\<rparr>"

lemma reachable_audio_on: "reachable (Fin 120) example_config example_env example_audio_on"
  using reachable.step [OF reachable_example _ step.call [where c = "Enable_audio [109, 101]"]] example_runs
  by (simp add: example_audio_on_def)

lemma reachable_audio_bounds_witness:
  "pred_option (\<lambda>a. length (au_peer_name a) \<le> 256) (audio (eng example_audio_on))"
  by (rule option.pred_mono_strong [OF reachable_audio_bounds [OF fair_example reachable_audio_on]]) simp

end
