(* ===== verification/Session_Spec.thy ===== *)
theory Session_Spec
  imports System
begin

text \<open>
  What a peer is to the others, in the abstract: who it is, the session it is in, the timeline and the transport
  state of that session, and how its clock lies to the session's. Five events change it, and every step of every
  thread of the implementation is one of them, or founds sessions, or changes nothing. What holds of the events holds of the
  peer: within a session, timeline and transport only move forward.
\<close>

section \<open>The specification\<close>

record stand =
  st_node :: node_id
  st_session :: session_id
  st_offset :: i64
  st_timeline :: timeline
  st_transport :: start_stop_state
  st_ids :: "nat \<Rightarrow> id option"

definition newer_timeline :: "timeline \<Rightarrow> timeline \<Rightarrow> bool" where
  "newer_timeline l l' \<longleftrightarrow> l' = l \<or> (sint (beat_origin l) < sint (beat_origin l') \<and> legal_tempo (tempo l'))"

definition newer_transport :: "start_stop_state \<Rightarrow> start_stop_state \<Rightarrow> bool" where
  "newer_transport x x' \<longleftrightarrow> x' = x \<or> sint (timestamp x) < sint (timestamp x')"

text \<open>News of the session, by the network or by the application; a new estimate of the session's clock; another session, whose
  clock leads or which wins the tie; an identifier drawn for a channel.\<close>

inductive event :: "stand \<Rightarrow> stand \<Rightarrow> bool" where
  news: "newer_timeline (st_timeline s) l \<Longrightarrow> newer_transport (st_transport s) x \<Longrightarrow>
    event s (s\<lparr>st_timeline := l, st_transport := x\<rparr>)"
| clock: "event s (s\<lparr>st_offset := d\<rparr>)"
| join: "sess \<noteq> st_session s \<Longrightarrow> join_rule (d - st_offset s) sess (st_session s) \<Longrightarrow>
    l = st_timeline s \<or> legal_tempo (tempo l) \<Longrightarrow>
    event s (s\<lparr>st_session := sess, st_offset := d, st_timeline := l, st_transport := default_start_stop\<rparr>)"
| draw: "event s (s\<lparr>st_ids := \<lambda>n. st_ids s (Suc n)\<rparr>)"

text \<open>A session of one's own, named by a fresh identifier that is also the node's, in the tempo of the old one; or,
  where the system gives no randomness, nothing (the implementation panics).\<close>

inductive founded :: "stand \<Rightarrow> stand \<Rightarrow> bool" where
  found: "st_ids s 0 = Some i \<Longrightarrow> tempo l = tempo (st_timeline s) \<Longrightarrow> time_origin l = 0 \<Longrightarrow>
    founded s \<lparr>st_node = i, st_session = i, st_offset = d, st_timeline = l, st_transport = x,
      st_ids = \<lambda>n. st_ids s (Suc n)\<rparr>"
| fail: "st_ids s 0 = None \<Longrightarrow> founded s (s\<lparr>st_ids := \<lambda>n. st_ids s (Suc n)\<rparr>)"

definition evolves :: "stand \<Rightarrow> stand \<Rightarrow> bool" where
  "evolves s s' \<longleftrightarrow> event s s' \<or> founded\<^sup>*\<^sup>* s s'"

inductive_cases eventE: "event s s'"
inductive_cases foundedE: "founded s s'"

lemma evolves_refl [simp]: "evolves s s"
  by (simp add: evolves_def)

lemma evolves_event: "event\<^sup>=\<^sup>= s s' \<Longrightarrow> evolves s s'"
  by (auto simp: evolves_def)

lemma evolves_founded: "founded\<^sup>=\<^sup>= s s' \<Longrightarrow> evolves s s'"
  by (auto simp: evolves_def)

section \<open>The peer as the others see it\<close>

definition stand_of :: "engine \<Rightarrow> stand" where
  "stand_of e = \<lparr>st_node = node e, st_session = session e, st_offset = ghost_offset e, st_timeline = timeline e,
     st_transport = held_stst e, st_ids = \<lambda>n. env_ids (env e) (id_draws e + n)\<rparr>"

lemma stand_update [simp]:
  "stand_of (e\<lparr>app_playing := b\<rparr>) = stand_of e" "stand_of (e\<lparr>sst_sync := b\<rparr>) = stand_of e"
  "stand_of (e\<lparr>gateways := gs\<rparr>) = stand_of e" "stand_of (e\<lparr>peers := ps\<rparr>) = stand_of e"
  "stand_of (e\<lparr>session_member_seen := b\<rparr>) = stand_of e" "stand_of (e\<lparr>foreign_timelines := f\<rparr>) = stand_of e"
  "stand_of (e\<lparr>measured := ms\<rparr>) = stand_of e" "stand_of (e\<lparr>measurement := m\<rparr>) = stand_of e"
  "stand_of (e\<lparr>pending := ts\<rparr>) = stand_of e" "stand_of (e\<lparr>next_remeasure_at := r\<rparr>) = stand_of e"
  "stand_of (e\<lparr>audio := a\<rparr>) = stand_of e" "stand_of (e\<lparr>clock_reads := c\<rparr>) = stand_of e"
  "stand_of (e\<lparr>open_calls := c\<rparr>) = stand_of e" "stand_of (e\<lparr>scan_calls := c\<rparr>) = stand_of e"
  "stand_of (panic e) = stand_of e" "stand_of (e\<lparr>broadcast_due := d\<rparr>) = stand_of e"
  "stand_of (e\<lparr>next_gateway_id := i\<rparr>) = stand_of e" "stand_of (e\<lparr>enabled := b\<rparr>) = stand_of e"
  "stand_of (e\<lparr>epoch := ep\<rparr>) = stand_of e"
  by (simp_all add: stand_of_def panic_def)

lemma stand_set [simp]:
  "stand_of (e\<lparr>node := i\<rparr>) = (stand_of e)\<lparr>st_node := i\<rparr>"
  "stand_of (e\<lparr>session := i\<rparr>) = (stand_of e)\<lparr>st_session := i\<rparr>"
  "stand_of (e\<lparr>ghost_offset := d\<rparr>) = (stand_of e)\<lparr>st_offset := d\<rparr>"
  "stand_of (e\<lparr>timeline := l\<rparr>) = (stand_of e)\<lparr>st_timeline := l\<rparr>"
  "stand_of (e\<lparr>held_stst := x\<rparr>) = (stand_of e)\<lparr>st_transport := x\<rparr>"
  "stand_of (e\<lparr>id_draws := Suc (id_draws e)\<rparr>) = (stand_of e)\<lparr>st_ids := \<lambda>n. st_ids (stand_of e) (Suc n)\<rparr>"
  by (simp_all add: stand_of_def)

lemma stand_ids: "st_ids (stand_of e) 0 = env_ids (env e) (id_draws e)"
  by (simp add: stand_of_def)

lemma stand_fields [simp]:
  "st_node (stand_of e) = node e" "st_session (stand_of e) = session e" "st_offset (stand_of e) = ghost_offset e"
  "st_timeline (stand_of e) = timeline e" "st_transport (stand_of e) = held_stst e"
  by (simp_all add: stand_of_def)

lemma stand_quiet: "quiet e e' \<Longrightarrow> stand_of e' = stand_of e"
  by (simp add: stand_of_def quiet_fields)

lemma stand_effects [simp]:
  "stand_of (transmit msgs e) = stand_of e" "stand_of (notify e) = stand_of e" "stand_of (snd (now e)) = stand_of e"
  "stand_of (send_alive t e) = stand_of e" "stand_of (send_alive_on gw e) = stand_of e"
  "stand_of (schedule_broadcast e) = stand_of e" "stand_of (send_via g bs dst e) = stand_of e"
  "stand_of (send_all ms e) = stand_of e" "stand_of (send_request ch stop e) = stand_of e"
  "stand_of (send_byes chs e) = stand_of e" "stand_of (send_datagrams ds ns e) = stand_of e"
  by (rule stand_quiet; simp)+

lemma stand_and_then: "stand_of (f e) = stand_of e \<Longrightarrow> stand_of (and_then f e) = stand_of e"
  by (simp add: and_then_def)

section \<open>Operations that leave it alone\<close>

lemma stand_audio [simp]:
  "stand_of (handle_audio_datagram gw src buf e) = stand_of e" "stand_of (store_sink ch k e) = stand_of e"
  "stand_of (peer_left n e) = stand_of e" "stand_of (gateway_closed g e) = stand_of e"
  "stand_of (audio_shutdown e) = stand_of e" "stand_of (enable_audio name e) = stand_of e"
  "stand_of (disable_audio e) = stand_of e" "stand_of (unpublish ch e) = stand_of e"
  "stand_of (subscribe ch q e) = stand_of e" "stand_of (unsubscribe ch e) = stand_of e"
proof -
  show "stand_of (handle_audio_datagram gw src buf e) = stand_of e"
    by (simp add: handle_audio_datagram_def handle_audio_message_def handle_announcement_def now_def Let_def
        split: option.split sum.split audio_message.split)
  have sh: "stand_of (audio_shutdown e) = stand_of e" for e
    by (simp add: audio_shutdown_def split: option.split)
  then show "stand_of (audio_shutdown e) = stand_of e" "stand_of (disable_audio e) = stand_of e"
    by (simp_all add: disable_audio_def)
qed (simp_all add: store_sink_def peer_left_def gateway_closed_def enable_audio_def unpublish_def subscribe_def
    unsubscribe_def now_def Let_def split: option.split)

lemma stand_write [simp]: "stand_of (write_sink ch samples rate nc b q e) = stand_of e"
  by (simp add: write_sink_def now_def Let_def split: option.split sum.split)

lemma stand_audio_housekeeping [simp]: "stand_of (snd (audio_housekeeping t e)) = stand_of e"
proof -
  have f: "stand_of (foldl (\<lambda>e i. send_request i False e) e due) = stand_of e" for e due
    by (induction due arbitrary: e) simp_all
  have a: "stand_of (announce t e) = stand_of e" for e
    by (simp add: announce_def Let_def split: option.split)
  have x: "stand_of (snd (audio_expire t nx e)) = stand_of e" for nx e
    by (simp add: audio_expire_def Let_def split: option.split)
  show ?thesis by (simp add: audio_housekeeping_def Let_def f a x split: option.split)
qed

lemma stand_measuring [simp]:
  "stand_of (start_next_measurement e) = stand_of e" "stand_of (send_ping g dst bs e) = stand_of e"
  "stand_of (queue_measurement g s ps pur e) = stand_of e" "stand_of (queue_remeasure e) = stand_of e"
  "stand_of (measurement_failed m e) = stand_of e"
proof -
  show s: "stand_of (start_next_measurement e) = stand_of e" for e
    by (simp add: start_next_measurement_def now_def Let_def split: list.split option.split)
  show "stand_of (send_ping g dst bs e) = stand_of e" by (simp add: send_ping_def split: option.split)
  show "stand_of (queue_measurement g s ps pur e) = stand_of e" "stand_of (queue_remeasure e) = stand_of e"
    by (simp_all add: queue_measurement_def queue_remeasure_def Let_def s split: option.split)
  show "stand_of (measurement_failed m e) = stand_of e"
    by (simp add: measurement_failed_def now_def Let_def s split: purpose.split)
qed

lemma stand_discovery [simp]:
  "stand_of (departed lost e) = stand_of e" "stand_of (cache_timeline sess l e) = stand_of e"
  "stand_of (record_peer g n ttl ps e) = stand_of e" "stand_of (respond g src e) = stand_of e"
  unfolding departed_def
  by (induction lost arbitrary: e)
    (simp_all add: cache_timeline_def record_peer_def respond_def now_def split: option.split)

section \<open>Operations that change it\<close>

lemma check_session_loss_evolves: "founded\<^sup>=\<^sup>= (stand_of e) (stand_of (check_session_loss e))"
proof -
  have "founded\<^sup>=\<^sup>= (stand_of e) (stand_of (reset_session e))"
  proof (cases "beats_at_ghost (timeline e) (fst (now e) + ghost_offset e)")
    case (Some b)
    show ?thesis
    proof (cases "env_ids (env e) (id_draws e)")
      case None
      have "stand_of (reset_session e) = (stand_of e)\<lparr>st_ids := \<lambda>n. st_ids (stand_of e) (Suc n)\<rparr>"
        using Some None by (simp add: reset_session_def now_def random_id_def Let_def) (simp add: stand_of_def)
      then show ?thesis using fail [of "stand_of e"] None by (simp add: stand_ids)
    next
      case i: (Some i)
      let ?l = "\<lparr>tempo = tempo (timeline e), beat_origin = b, time_origin = 0\<rparr>"
        and ?x = "\<lparr>is_playing = is_playing (held_stst e), ss_beats = b, timestamp = 0\<rparr>"
      have "founded (stand_of e) \<lparr>st_node = i, st_session = i, st_offset = - fst (now e),
          st_timeline = ?l, st_transport = ?x, st_ids = \<lambda>n. st_ids (stand_of e) (Suc n)\<rparr>"
        by (rule found) (simp_all add: stand_ids i)
      moreover have "stand_of (reset_session e) = \<lparr>st_node = i, st_session = i,
          st_offset = - fst (now e), st_timeline = ?l, st_transport = ?x, st_ids = \<lambda>n. st_ids (stand_of e) (Suc n)\<rparr>"
        using Some i by (simp add: reset_session_def now_def random_id_def Let_def) (simp add: stand_of_def)
      ultimately show ?thesis by simp
    qed
  qed (simp add: reset_session_def now_def)
  then show ?thesis by (simp add: check_session_loss_def)
qed

lemma evaluate_join_evolves: "event\<^sup>=\<^sup>= (stand_of e) (stand_of (evaluate_join sess d e))"
proof (cases "sess \<noteq> session e \<and> join_rule (d - ghost_offset e) sess (session e)")
  case True
  define l where "l = (case map_of (foreign_timelines e) sess of None \<Rightarrow> timeline e | Some l \<Rightarrow> clamped l)"
  have "l = timeline e \<or> legal_tempo (tempo l)" by (simp add: l_def clamped_def split: option.split)
  then have "event (stand_of e) ((stand_of e)\<lparr>st_session := sess, st_offset := d, st_timeline := l,
      st_transport := default_start_stop\<rparr>)"
    using True by (intro join) simp_all
  moreover have "stand_of (evaluate_join sess d e) = (stand_of e)\<lparr>st_session := sess, st_offset := d, st_timeline := l,
      st_transport := default_start_stop\<rparr>"
    using True by (auto simp: evaluate_join_def now_def Let_def l_def split: option.split)
  ultimately show ?thesis by simp
qed (auto simp: evaluate_join_def)

lemma gossip_evolves: "event (stand_of e) (stand_of (adopt_start_stop x (adopt_timeline l e)))"
proof -
  have "newer_timeline (timeline e) (timeline (adopt_timeline l e))" "held_stst (adopt_timeline l e) = held_stst e"
    "stand_of (adopt_timeline l e) = (stand_of e)\<lparr>st_timeline := timeline (adopt_timeline l e)\<rparr>"
    by (auto simp: adopt_timeline_def newer_timeline_def clamped_def word_sless_alt split: option.split)
  moreover have "newer_transport (held_stst e) (held_stst (adopt_start_stop x e))"
    "stand_of (adopt_start_stop x e) = (stand_of e)\<lparr>st_transport := held_stst (adopt_start_stop x e)\<rparr>" for e
    by (auto simp: adopt_start_stop_def newer_transport_def word_sless_alt Let_def split: option.split)
  ultimately show ?thesis
    using news [of "stand_of e"] by (metis stand_fields(4,5))
qed

lemma follow_session_evolves: "event\<^sup>=\<^sup>= (stand_of e) (stand_of (follow_session g ps sess e))"
proof -
  have "event (stand_of e) (stand_of (adopt_start_stop x (adopt_timeline l (e\<lparr>session_member_seen := True\<rparr>))))" for x l
    using gossip_evolves [of "e\<lparr>session_member_seen := True\<rparr>" x l] by simp
  moreover have "event\<^sup>=\<^sup>= (stand_of e) (stand_of (evaluate_join sess d (cache_timeline sess l e)))" for d l
    using evaluate_join_evolves [of "cache_timeline sess l e" sess d] by simp
  ultimately show ?thesis by (simp add: follow_session_def Let_def split: option.split)
qed

lemma discovery_evolves: "evolves (stand_of e) (stand_of (handle_discovery_datagram g src buf e))"
proof -
  have p: "evolves (stand_of e) (stand_of (process_peer_state g n ttl ps (if b then respond g src e else e)))" for n ttl ps b
    using evolves_event [OF follow_session_evolves [of "record_peer g n ttl ps (if b then respond g src e else e)" g ps]]
    by (cases b) (simp_all add: process_peer_state_def Let_def split: option.split)
  have h: "evolves (stand_of e) (stand_of (handle_bye n g (if b then respond g src e else e)))" for n b
    using evolves_founded [OF check_session_loss_evolves [of "peer_left n ((if b then respond g src e else e)\<lparr>peers :=
      AList.delete (n, g) (peers (if b then respond g src e else e))\<rparr>)"]]
    by (cases b) (simp_all add: handle_bye_def and_then_def)
  show ?thesis
    using p [where b = True] p [where b = False] h [where b = True] h [where b = False]
    by (simp add: handle_discovery_datagram_def Let_def split: sum.split disc_message.split)
qed

lemma measurement_evolves: "evolves (stand_of e) (stand_of (handle_measurement_datagram g src buf e))"
proof -
  have s: "evolves (stand_of e) (stand_of (measurement_succeeded m d e))" for m d e
  proof (cases "mt_purpose (m_task m)")
    case Join
    then show ?thesis
      using evolves_event [OF evaluate_join_evolves [of "e\<lparr>measured := AList.update (mt_session (m_task m)) d (measured e)\<rparr>"
        "mt_session (m_task m)" d]]
      by (simp add: measurement_succeeded_def Let_def)
  next
    case Remeasure
    with evolves_event [of "stand_of e" "(stand_of e)\<lparr>st_offset := d\<rparr>"] clock [of "stand_of e" d] show ?thesis
      by (simp add: measurement_succeeded_def Let_def now_def)
  qed
  have "evolves (stand_of e) (stand_of (handle_pong g src p e))" for p e
    using s [of "e\<lparr>clock_reads := Suc (clock_reads e), measurement := None\<rparr>"]
    by (simp add: handle_pong_def finish_or_chain_def now_def Let_def split: option.split)
  then show ?thesis
    by (simp add: handle_measurement_datagram_def now_def Let_def split: sum.split sync_message.split)
qed

lemma housekeeping_evolves: "evolves (stand_of e) (stand_of (snd (housekeeping_pass e)))"
proof -
  have [simp]: "stand_of (alive_step t e) = stand_of e" "stand_of (snd (broadcast_step t x)) = stand_of (snd x)"
    "stand_of (snd (retry_step t x)) = stand_of (snd x)" "stand_of (snd (remeasure_step t x)) = stand_of (snd x)" for t e x
    by (simp add: alive_step_def)
      (cases x; simp add: broadcast_step_def retry_step_def remeasure_step_def Let_def split: option.split)+
  have p: "evolves (stand_of (snd x)) (stand_of (snd (prune_step t x)))" for t x
  proof -
    have "evolves (stand_of e) (stand_of (prune_peers t e))" for e
      unfolding prune_peers_def Let_def
      using evolves_founded [OF check_session_loss_evolves [of "departed ns (e\<lparr>peers := ps\<rparr>)" for ns ps]] by simp
    then show ?thesis by (cases x) (simp add: prune_step_def Let_def)
  qed
  show ?thesis
    using p [of "broadcast_step t (nx, alive_step t (snd (now e)))" t for t nx]
    by (simp add: housekeeping_pass_def now_def Let_def case_prod_unfold)
qed

lemma close_address_evolves: "founded\<^sup>*\<^sup>* (stand_of e) (stand_of (close_address addr e))"
proof -
  have c: "founded\<^sup>*\<^sup>* (stand_of e) (stand_of (and_then (close_gateway i) e))" for i e
  proof -
    have loss: "founded\<^sup>*\<^sup>* (stand_of e) (stand_of (check_session_loss x))" if "stand_of x = stand_of e" for x
      using check_session_loss_evolves [of x] that by auto
    show ?thesis
      by (auto simp: and_then_def close_gateway_def Let_def intro!: loss split: option.split)
  qed
  have "founded\<^sup>*\<^sup>* (stand_of e) (stand_of (foldl (\<lambda>e i. and_then (close_gateway i) e) e ids))" for ids
  proof (induction ids arbitrary: e)
    case (Cons i ids)
    from rtranclp_trans [OF c [of e i] Cons.IH] show ?case by simp
  qed simp
  then show ?thesis by (simp add: close_address_def Let_def)
qed

lemma stand_opening [simp]:
  "stand_of (snd (open_gateway addr e)) = stand_of e" "stand_of (open_and_announce addr e) = stand_of e"
proof -
  show o: "stand_of (snd (open_gateway addr e)) = stand_of e" for e
    by (simp add: open_gateway_def Let_def split: option.split)
  show "stand_of (open_and_announce addr e) = stand_of e"
    using o [of e] by (cases "open_gateway addr e") (simp add: open_and_announce_def split: option.split)
qed

lemma stand_foldl: "(\<And>e x. stand_of (f e x) = stand_of e) \<Longrightarrow> stand_of (foldl f e xs) = stand_of e"
  by (induction xs arbitrary: e) simp_all

lemma rescan_evolves: "founded\<^sup>*\<^sup>* (stand_of e) (stand_of (apply_plan pl ep e))"
proof -
  have "founded\<^sup>*\<^sup>* (stand_of e) (stand_of (foldl (\<lambda>e addr. and_then (close_address addr) e) e as))" for as
  proof (induction as arbitrary: e)
    case (Cons a as)
    have "founded\<^sup>*\<^sup>* (stand_of e) (stand_of (and_then (close_address a) e))"
      using close_address_evolves by (simp add: and_then_def)
    from rtranclp_trans [OF this Cons.IH] show ?case by simp
  qed simp
  moreover have "stand_of (notify (foldl (\<lambda>e addr. open_and_announce addr e) e as)) = stand_of e" for as e
    by (simp add: stand_foldl)
  ultimately show ?thesis by (simp add: apply_plan_def Let_def and_then_def)
qed

lemma stand_opened_up [simp]: "stand_of (opened_up e) = stand_of e"
  by (simp add: opened_up_def stand_foldl) (simp add: initial_addrs_def split: gateways_config.split)

lemma found_session_evolves: "founded (stand_of e) (stand_of (snd (found_session e)))"
proof (cases "env_ids (env e) (id_draws e)")
  case None
  have "stand_of (snd (found_session e)) = (stand_of e)\<lparr>st_ids := \<lambda>n. st_ids (stand_of e) (Suc n)\<rparr>"
    using None by (simp add: found_session_def random_id_def Let_def) (simp add: stand_of_def panic_def)
  then show ?thesis using fail [of "stand_of e"] None by (simp add: stand_ids)
next
  case (Some i)
  let ?l = "\<lparr>tempo = tempo (timeline e), beat_origin = 0, time_origin = 0\<rparr>"
  have "founded (stand_of e) \<lparr>st_node = i, st_session = i, st_offset = - fst (now e),
      st_timeline = ?l, st_transport = default_start_stop, st_ids = \<lambda>n. st_ids (stand_of e) (Suc n)\<rparr>"
    by (rule found) (simp_all add: stand_ids Some)
  moreover have "stand_of (snd (found_session e)) = \<lparr>st_node = i, st_session = i, st_offset = - fst (now e),
      st_timeline = ?l, st_transport = default_start_stop, st_ids = \<lambda>n. st_ids (stand_of e) (Suc n)\<rparr>"
    using Some by (auto simp: found_session_def random_id_def now_def Let_def stand_of_def)
  ultimately show ?thesis by simp
qed

lemma enable_evolves: "evolves (stand_of e) (stand_of (enable e))"
  using evolves_founded [of "stand_of e" "stand_of (snd (found_session e))"] found_session_evolves [of e]
  by (cases e rule: enable_cases) simp_all

section \<open>Every step is an event\<close>

text \<open>Neither the origin of the timeline nor the time stamp of the transport state is at the end of its range.\<close>

definition roomy_state :: "engine \<Rightarrow> bool" where
  "roomy_state e \<longleftrightarrow> sint (beat_origin (timeline e)) < 2 ^ 63 - 1 \<and> sint (timestamp (held_stst e)) < 2 ^ 63 - 1"

lemma smax_above: "sint x < 2 ^ 63 - 1 \<Longrightarrow> sint x < sint (smax b (x + 1))" for b x :: i64
proof -
  assume "sint x < 2 ^ 63 - 1"
  then have "sint (x + 1) = sint x + 1" using i64_range [of x] by (subst sint_add_i64) simp_all
  then show ?thesis by simp
qed

lemma stand_or_panic [simp]: "stand_of (or_panic (r, e)) = stand_of e"
  by (simp add: or_panic_def split: option.split)

lemma call_evolves:
  assumes "roomy_state e"
  shows "evolves (stand_of e) (stand_of (perform c e))"
proof -
  have same: "newer_timeline l l" "newer_transport x x" for l x by (simp_all add: newer_timeline_def newer_transport_def)
  have t: "event (stand_of e) ((stand_of e)\<lparr>st_timeline := l\<rparr>)" if "newer_timeline (timeline e) l" for l
    using news [of "stand_of e" l "held_stst e"] that same by (simp add: stand_of_def)
  have x: "event (stand_of e) ((stand_of e)\<lparr>st_transport := x\<rparr>)" if "newer_transport (held_stst e) x" for x
    using news [of "stand_of e" "timeline e" x] that same by (simp add: stand_of_def)
  show ?thesis
  proof (cases c)
    case (Set_tempo bpm)
    show ?thesis
    proof (cases "beats_at_ghost (timeline e) (fst (now e) + ghost_offset e)")
      case (Some b)
      define l where "l = timeline (set_tempo bpm e)"
      have "stand_of (set_tempo bpm e) = (stand_of e)\<lparr>st_timeline := l\<rparr>" "newer_timeline (timeline e) l"
        using Some assms smax_above [of "beat_origin (timeline e)" b]
        by (simp_all add: l_def set_tempo_def now_def Let_def newer_timeline_def roomy_state_def)
      then show ?thesis using Set_tempo t evolves_event by auto
    qed (simp add: Set_tempo set_tempo_def now_def)
  next
    case (Set_is_playing p)
    show ?thesis
    proof (cases "sst_sync e \<and> beats_at_ghost (timeline e) (fst (now e) + ghost_offset e) \<noteq> None")
      case True
      define y where "y = held_stst (set_is_playing p e)"
      have "stand_of (set_is_playing p e) = (stand_of e)\<lparr>st_transport := y\<rparr>" "newer_transport (held_stst e) y"
        using True assms smax_above [of "timestamp (held_stst e)" "fst (now e) + ghost_offset e"]
        by (auto simp: y_def set_is_playing_def now_def Let_def newer_transport_def roomy_state_def)
      then show ?thesis using Set_is_playing x evolves_event by auto
    qed (auto simp: Set_is_playing set_is_playing_def now_def Let_def)
  next
    case (Publish name)
    have "stand_of (snd (publish name e)) = (stand_of e)\<lparr>st_ids := \<lambda>n. st_ids (stand_of e) (Suc n)\<rparr>" if "audio e \<noteq> None"
      using that by (auto simp: publish_def random_id_def Let_def split: option.split)
    moreover have "snd (publish name e) = e" if "audio e = None" using that by (simp add: publish_def)
    ultimately show ?thesis using draw [of "stand_of e"] Publish evolves_event by (cases "audio e") auto
  qed (simp_all add: enable_start_stop_sync_def capture_session_def subscribe_channel_def poll_channel_def
      has_requesters_def write_channel_def now_def Let_def split: option.split)
qed

lemma step_evolves:
  assumes "step s s'" and "roomy_state (eng s)"
  shows "evolves (stand_of (eng s)) (stand_of (eng s'))"
  using assms(1)
proof cases
  case (receive gw ep src buf r)
  then show ?thesis
    using discovery_evolves measurement_evolves
    by (simp add: receive_def dispatch_def split: role.split)
next
  case (plan ep pl e)
  then show ?thesis by (auto simp: scan_def)
next
  case (rescan ep pl)
  then show ?thesis using rescan_evolves by (simp add: evolves_def)
qed (use assms(2) housekeeping_evolves call_evolves enable_evolves in
    \<open>simp_all add: disable_def simulate_crash_def Let_def\<close>)

text \<open>C5: Every step of every thread of a peer (a datagram, a pass of the timers, a call of the application, joining and leaving
  the network, a rescan) is one event of the specification, or founds sessions, or changes nothing of what the peer is
  to the others, provided that, before the step, neither the beat origin of the timeline nor the time stamp of
  the transport state is the greatest \<^verbatim>\<open>i64\<close>. (A datagram can bring either there; then the next change of
  the tempo or of the transport wraps around.)\<close>

theorem step_refines:
  assumes "step s s'" and "roomy_state (eng s)"
  shows "evolves (stand_of (eng s)) (stand_of (eng s'))"
  using assms by (rule step_evolves)

lemma step_refines_witness:
  "evolves (stand_of (new_engine (Fin 120) example_config example_env))
     (stand_of (enable (new_engine (Fin 120) example_config example_env)))"
proof -
  let ?s = "\<lparr>eng = new_engine (Fin 120) example_config example_env, scans = Map.empty\<rparr>"
  have "step ?s (?s\<lparr>eng := enable (eng ?s)\<rparr>)" by (rule step.enable) (simp add: fresh_epoch_def)
  moreover have "roomy_state (eng ?s)"
    by (simp add: roomy_state_def new_engine_def Let_def default_start_stop_def)
  ultimately show ?thesis using step_refines [of ?s "?s\<lparr>eng := enable (eng ?s)\<rparr>"] by simp
qed

section \<open>Within a session\<close>

lemma newer_timeline_trans: "newer_timeline l m \<Longrightarrow> newer_timeline m k \<Longrightarrow> newer_timeline l k"
  unfolding newer_timeline_def by (elim disjE conjE) simp_all

lemma newer_transport_trans: "newer_transport x y \<Longrightarrow> newer_transport y z \<Longrightarrow> newer_transport x z"
  unfolding newer_transport_def by (elim disjE) simp_all

definition forward :: "stand \<Rightarrow> stand \<Rightarrow> bool" where
  "forward s s' \<longleftrightarrow> st_node s' = st_node s \<and> st_session s' = st_session s \<and>
     newer_timeline (st_timeline s) (st_timeline s') \<and> newer_transport (st_transport s) (st_transport s') \<and>
     range (st_ids s') \<subseteq> range (st_ids s)"

lemma forward_trans: "forward s s' \<Longrightarrow> forward s' s'' \<Longrightarrow> forward s s''"
  unfolding forward_def
  using newer_timeline_trans [of "st_timeline s" "st_timeline s'" "st_timeline s''"]
    newer_transport_trans [of "st_transport s" "st_transport s'" "st_transport s''"]
    subset_trans [of "range (st_ids s'')" "range (st_ids s')" "range (st_ids s)"]
  by simp

lemma forward_refl [simp]: "forward s s"
  by (simp add: forward_def newer_timeline_def newer_transport_def)

lemma founded_anew: "founded\<^sup>*\<^sup>* s s' \<Longrightarrow> forward s s' \<or>
    (Some (st_session s') \<in> range (st_ids s) \<and> range (st_ids s') \<subseteq> range (st_ids s))"
proof (induction rule: rtranclp_induct)
  case (step t u)
  have t: "range (st_ids t) \<subseteq> range (st_ids s)" using step.IH by (auto simp: forward_def)
  from step.hyps(2) show ?case
  proof cases
    case (found i l d x)
    then have "Some (st_session u) = st_ids t 0" "range (st_ids u) \<subseteq> range (st_ids t)" by auto
    then show ?thesis using t by (metis rangeI subset_iff)
  next
    case fail
    then have "forward t u" "st_session u = st_session t" "range (st_ids u) \<subseteq> range (st_ids s)"
      using t by (auto simp: forward_def newer_timeline_def newer_transport_def)
    with step.IH show ?thesis using forward_trans [of s t u] by auto
  qed
qed simp

text \<open>An evolution that does not leave a session moves forward in it: a session that is left is found again
  only by joining it.\<close>

lemma evolves_forward:
  assumes "evolves s s'" and "st_session s' = st_session s" and "Some (st_session s) \<notin> range (st_ids s)"
  shows "forward s s'"
  using assms(1) unfolding evolves_def
proof
  assume "event s s'"
  then show ?thesis
    using assms(2) by cases (auto simp: forward_def newer_timeline_def newer_transport_def)
next
  assume "founded\<^sup>*\<^sup>* s s'"
  from founded_anew [OF this] show ?thesis using assms(2,3) by auto
qed

text \<open>The runs of a peer while it is in one session.\<close>

inductive stays :: "system \<Rightarrow> system \<Rightarrow> bool" for s where
  here: "stays s s"
| onward: "stays s s' \<Longrightarrow> roomy_state (eng s') \<Longrightarrow> step s' s'' \<Longrightarrow> session (eng s'') = session (eng s) \<Longrightarrow> stays s s''"

text \<open>C6: Within a session time only moves forward. As long as a peer is in one session, and at each step the beat
  origin of its timeline and the time stamp of its transport state are less than the greatest \<^verbatim>\<open>i64\<close>, whatever
  else it receives and whatever its application and its timers do, it keeps its node identifier, its timeline is
  replaced only by one with a greater beat origin and a legal tempo, and its transport state only by one with
  a later time stamp. The identifiers that it draws are fresh: none of them is the session's.\<close>

theorem session_moves_forward:
  assumes "stays s s'" and "\<And>n. env_ids (env (eng s)) (id_draws (eng s) + n) \<noteq> Some (session (eng s))"
  shows "node (eng s') = node (eng s) \<and>
    (timeline (eng s') = timeline (eng s) \<or>
      sint (beat_origin (timeline (eng s))) < sint (beat_origin (timeline (eng s'))) \<and> legal_tempo (tempo (timeline (eng s')))) \<and>
    (held_stst (eng s') = held_stst (eng s) \<or>
      sint (timestamp (held_stst (eng s))) < sint (timestamp (held_stst (eng s'))))"
proof -
  have fresh: "Some (session (eng s)) \<notin> range (st_ids (stand_of (eng s)))"
    using assms(2) by (metis (no_types, lifting) rangeE stand.select_convs(6) stand_of_def)
  have "forward (stand_of (eng s)) (stand_of (eng s'))"
    using assms(1)
  proof induction
    case (onward s1 s2)
    have "session (eng s1) = session (eng s)" "range (st_ids (stand_of (eng s1))) \<subseteq> range (st_ids (stand_of (eng s)))"
      using onward.IH by (simp_all add: forward_def)
    then have "forward (stand_of (eng s1)) (stand_of (eng s2))"
      using step_evolves [OF onward.hyps(3,2)] onward.hyps(4) fresh
      by (intro evolves_forward) auto
    with onward.IH show ?case by (rule forward_trans)
  qed simp
  then show ?thesis by (simp add: forward_def newer_timeline_def newer_transport_def)
qed

definition example_newborn :: system where
  "example_newborn = \<lparr>eng = new_engine (Fin 120) example_config (example_env\<lparr>env_ids := \<lambda>n. Some (if n = 0 then Id 1 else Id 7)\<rparr>),
     scans = Map.empty\<rparr>"

lemma session_moves_forward_witness:
  "timeline (set_tempo (Fin 140) (eng example_newborn)) = timeline (eng example_newborn) \<or>
    sint (beat_origin (timeline (eng example_newborn))) < sint (beat_origin (timeline (set_tempo (Fin 140) (eng example_newborn)))) \<and>
    legal_tempo (tempo (timeline (set_tempo (Fin 140) (eng example_newborn))))"
proof -
  let ?t = "example_newborn\<lparr>eng := perform (Set_tempo (Fin 140)) (eng example_newborn)\<rparr>"
  have e: "session (eng example_newborn) = Id 1" "id_draws (eng example_newborn) = 1"
    "env (eng example_newborn) = example_env\<lparr>env_ids := \<lambda>n. Some (if n = 0 then Id 1 else Id 7)\<rparr>" "roomy_state (eng example_newborn)"
    by (simp_all add: example_newborn_def new_engine_def Let_def roomy_state_def default_start_stop_def)
  have "step example_newborn ?t" by (rule step.call) simp
  moreover have "session (eng ?t) = session (eng example_newborn)"
    by (simp add: set_tempo_def now_def Let_def panic_def split: option.split)
  ultimately have "stays example_newborn ?t" using e(4) by (meson stays.here stays.onward)
  moreover have "env_ids (env (eng example_newborn)) (id_draws (eng example_newborn) + n) \<noteq>
      Some (session (eng example_newborn))" for n
    by (simp add: e)
  ultimately show ?thesis using session_moves_forward [of example_newborn ?t] by simp
qed

end
