(* ===== verification/Sockets.thy ===== *)
theory Sockets
  imports Engine_State
begin

text \<open>
  The sockets of a gateway, \<^verbatim>\<open>crates/tactus/src/net.rs\<close>. Opening a gateway is a sequence of system calls
  on four sockets, each of which may fail and ends the opening with its error. What the kernel does is
  an argument: it refuses a call with an OS error code or performs it, and chooses the port of a bind to
  port 0, from the sockets open on the host, the socket at hand and the call. A socket is the record of
  the options and the address it has been given.
\<close>

section \<open>Sockets and system calls\<close>

definition MULTICAST_V4 :: ipv4 where
  "MULTICAST_V4 = 0xE04C4E4B"

definition PORT :: u16 where
  "PORT = 20808"

definition UNSPECIFIED :: ipv4 where
  "UNSPECIFIED = 0"

definition READ_TIMEOUT :: i64 where
  "READ_TIMEOUT = 50000"

record udp_socket =
  us_read_timeout :: "i64 option"
  us_reuse_address :: bool
  us_reuse_port :: bool
  us_bound :: "(ipv4 \<times> u16) option"
  us_groups :: "(ipv4 \<times> ipv4) list"
  us_multicast_all :: bool
  us_multicast_if :: "ipv4 option"
  us_multicast_loop :: bool

text \<open>A fresh UDP socket: the options that the code leaves alone have the defaults of the sockets API.\<close>

definition fresh_socket :: udp_socket where
  "fresh_socket = \<lparr>us_read_timeout = None, us_reuse_address = False, us_reuse_port = False,
     us_bound = None, us_groups = [], us_multicast_all = True, us_multicast_if = None,
     us_multicast_loop = True\<rparr>"

datatype sys_call =
    Create
  | Set_read_timeout "i64 option"
  | Set_reuse_address bool
  | Set_reuse_port bool
  | Bind ipv4 u16
  | Join_multicast ipv4 ipv4
  | Set_multicast_all bool
  | Set_multicast_if ipv4
  | Set_multicast_loop bool

text \<open>The effect of a call that succeeds; \<open>port\<close> is the kernel's choice, used for a bind to port 0.\<close>

primrec effect :: "u16 \<Rightarrow> sys_call \<Rightarrow> udp_socket \<Rightarrow> udp_socket" where
  "effect port Create s = fresh_socket"
| "effect port (Set_read_timeout t) s = s\<lparr>us_read_timeout := t\<rparr>"
| "effect port (Set_reuse_address b) s = s\<lparr>us_reuse_address := b\<rparr>"
| "effect port (Set_reuse_port b) s = s\<lparr>us_reuse_port := b\<rparr>"
| "effect port (Bind a p) s = s\<lparr>us_bound := Some (a, if p = 0 then port else p)\<rparr>"
| "effect port (Join_multicast g a) s = s\<lparr>us_groups := us_groups s @ [(g, a)]\<rparr>"
| "effect port (Set_multicast_all b) s = s\<lparr>us_multicast_all := b\<rparr>"
| "effect port (Set_multicast_if a) s = s\<lparr>us_multicast_if := Some a\<rparr>"
| "effect port (Set_multicast_loop b) s = s\<lparr>us_multicast_loop := b\<rparr>"

type_synonym kernel = "udp_socket list \<Rightarrow> udp_socket \<Rightarrow> sys_call \<Rightarrow> int + u16"

definition sys :: "kernel \<Rightarrow> udp_socket list \<Rightarrow> udp_socket \<Rightarrow> sys_call \<Rightarrow> int + udp_socket" where
  "sys k host s c = bind_res (k host s c) (\<lambda>port. Inr (effect port c s))"

section \<open>Opening a gateway\<close>

datatype target_os = Linux | Android | Solaris | Illumos | Cygwin | Nuttx | Wasi | Macos | Ios
  | Freebsd | Netbsd | Openbsd | Dragonfly | Other_unix | Windows | Other_os

text \<open>The conditional compilation of \<open>set_reuse_port\<close>: unix minus a list of targets.\<close>

definition is_unix :: "target_os \<Rightarrow> bool" where
  "is_unix t \<longleftrightarrow> t \<notin> {Wasi, Windows, Other_os}"

definition sets_reuse_port :: "target_os \<Rightarrow> bool" where
  "sets_reuse_port t \<longleftrightarrow> is_unix t \<and> t \<notin> {Linux, Android, Solaris, Illumos, Cygwin, Nuttx, Wasi}"

definition base_socket :: "kernel \<Rightarrow> udp_socket list \<Rightarrow> int + udp_socket" where
  "base_socket k host = fold_res (sys k host) fresh_socket [Create, Set_read_timeout (Some READ_TIMEOUT)]"

definition ephemeral :: "kernel \<Rightarrow> udp_socket list \<Rightarrow> ipv4 \<Rightarrow> int + udp_socket" where
  "ephemeral k host addr = bind_res (base_socket k host) (\<lambda>s. fold_res (sys k host) s [Bind addr 0])"

definition mcast_socket :: "kernel \<Rightarrow> target_os \<Rightarrow> udp_socket list \<Rightarrow> ipv4 \<Rightarrow> int + udp_socket" where
  "mcast_socket k t host addr = bind_res (base_socket k host) (\<lambda>s. fold_res (sys k host) s
     ([Set_reuse_address True] @ (if sets_reuse_port t then [Set_reuse_port True] else []) @
      [Bind UNSPECIFIED PORT, Join_multicast MULTICAST_V4 addr] @
      (if t = Linux then [Set_multicast_all False] else [])))"

definition unicast_socket :: "kernel \<Rightarrow> udp_socket list \<Rightarrow> ipv4 \<Rightarrow> int + udp_socket" where
  "unicast_socket k host addr = bind_res (base_socket k host) (\<lambda>s. fold_res (sys k host) s
     [Bind addr 0, Set_multicast_if addr, Set_multicast_loop (is_loopback addr)])"

record open_gateway_sockets =
  og_id :: nat
  og_addr :: ipv4
  og_mcast_recv :: udp_socket
  og_unicast :: udp_socket
  og_measurement :: udp_socket
  og_audio :: udp_socket

definition gateway_open ::
    "kernel \<Rightarrow> target_os \<Rightarrow> udp_socket list \<Rightarrow> nat \<Rightarrow> ipv4 \<Rightarrow> int + open_gateway_sockets" where
  "gateway_open k t host i addr =
     bind_res (mcast_socket k t host addr) (\<lambda>mcast.
     bind_res (unicast_socket k (mcast # host) addr) (\<lambda>unicast.
     bind_res (ephemeral k (unicast # mcast # host) addr) (\<lambda>measurement.
     bind_res (ephemeral k (measurement # unicast # mcast # host) addr) (\<lambda>audio.
     Inr \<lparr>og_id = i, og_addr = addr, og_mcast_recv = mcast, og_unicast = unicast,
       og_measurement = measurement, og_audio = audio\<rparr>))))"

definition gateway_sockets :: "open_gateway_sockets \<Rightarrow> udp_socket list" where
  "gateway_sockets g = [og_audio g, og_measurement g, og_unicast g, og_mcast_recv g]"

text \<open>\<open>local_addr\<close> of a socket that is not bound makes the code panic.\<close>

definition local_addr :: "udp_socket \<Rightarrow> socket_addr option" where
  "local_addr s = map_option (\<lambda>(a, p). V4 a p) (us_bound s)"

definition measurement_endpoint :: "open_gateway_sockets \<Rightarrow> socket_addr option" where
  "measurement_endpoint g = local_addr (og_measurement g)"

definition audio_endpoint :: "open_gateway_sockets \<Rightarrow> socket_addr option" where
  "audio_endpoint g = local_addr (og_audio g)"

text \<open>What leaves on which socket, and to whom. The outcome of a send is ignored.\<close>

definition send_multicast :: "open_gateway_sockets \<Rightarrow> bytes \<Rightarrow> udp_socket \<times> bytes \<times> socket_addr" where
  "send_multicast g bs = (og_unicast g, bs, V4 MULTICAST_V4 PORT)"

definition send_unicast ::
    "open_gateway_sockets \<Rightarrow> bytes \<Rightarrow> socket_addr \<Rightarrow> udp_socket \<times> bytes \<times> socket_addr" where
  "send_unicast g bs dst = (og_unicast g, bs, dst)"

section \<open>What an open gateway's sockets are\<close>

lemma base_socket_Inr:
  "base_socket k host = Inr s \<Longrightarrow> s = fresh_socket\<lparr>us_read_timeout := Some READ_TIMEOUT\<rparr>"
  by (auto simp: base_socket_def sys_def bind_res_Inr)

lemma ephemeral_Inr:
  assumes "ephemeral k host addr = Inr s"
  obtains p where "s = fresh_socket\<lparr>us_read_timeout := Some READ_TIMEOUT, us_bound := Some (addr, p)\<rparr>"
    and "k host (fresh_socket\<lparr>us_read_timeout := Some READ_TIMEOUT\<rparr>) (Bind addr 0) = Inr p"
  using assms by (auto simp: ephemeral_def sys_def bind_res_Inr dest!: base_socket_Inr)

lemma unicast_Inr:
  assumes "unicast_socket k host addr = Inr s"
  obtains p where "s = fresh_socket\<lparr>us_read_timeout := Some READ_TIMEOUT, us_bound := Some (addr, p),
      us_multicast_if := Some addr, us_multicast_loop := is_loopback addr\<rparr>"
    and "k host (fresh_socket\<lparr>us_read_timeout := Some READ_TIMEOUT\<rparr>) (Bind addr 0) = Inr p"
  using assms by (auto simp: unicast_socket_def sys_def bind_res_Inr dest!: base_socket_Inr)

lemma mcast_Inr:
  assumes "mcast_socket k t host addr = Inr s"
  shows "s = fresh_socket\<lparr>us_read_timeout := Some READ_TIMEOUT, us_reuse_address := True,
    us_reuse_port := sets_reuse_port t, us_bound := Some (UNSPECIFIED, PORT),
    us_groups := [(MULTICAST_V4, addr)], us_multicast_all := (t \<noteq> Linux)\<rparr>"
  using assms
  by (auto simp: mcast_socket_def sys_def bind_res_Inr fold_res_append fresh_socket_def PORT_def
      split: if_splits dest!: base_socket_Inr)

text \<open>A gateway that opens has all of its sockets set up: each polls with the read timeout, the discovery
  socket is bound to the wildcard address and the discovery port, is a member of the discovery group on
  the gateway's address and of no other, and shares its port by the option of its platform; all sending
  goes out of the gateway's interface, heard on the host only where that is loopback; and the measurement
  and audio endpoints exist and are at the gateway's address.\<close>

theorem opened_gateway_sockets:
  assumes "gateway_open k t host i addr = Inr g"
  shows "og_id g = i \<and> og_addr g = addr \<and>
    og_mcast_recv g = \<lparr>us_read_timeout = Some READ_TIMEOUT, us_reuse_address = True,
      us_reuse_port = sets_reuse_port t, us_bound = Some (UNSPECIFIED, PORT),
      us_groups = [(MULTICAST_V4, addr)], us_multicast_all = (t \<noteq> Linux), us_multicast_if = None,
      us_multicast_loop = True\<rparr> \<and>
    (\<exists>p. og_unicast g = \<lparr>us_read_timeout = Some READ_TIMEOUT, us_reuse_address = False,
      us_reuse_port = False, us_bound = Some (addr, p), us_groups = [], us_multicast_all = True,
      us_multicast_if = Some addr, us_multicast_loop = is_loopback addr\<rparr>) \<and>
    (\<exists>p. measurement_endpoint g = Some (V4 addr p)) \<and> (\<exists>p. audio_endpoint g = Some (V4 addr p)) \<and>
    us_read_timeout (og_measurement g) = Some READ_TIMEOUT \<and> us_read_timeout (og_audio g) = Some READ_TIMEOUT"
  using assms
  by (auto simp: gateway_open_def bind_res_Inr measurement_endpoint_def audio_endpoint_def local_addr_def
      fresh_socket_def dest!: mcast_Inr elim!: unicast_Inr ephemeral_Inr)

text \<open>A kernel that performs every call and gives out ports in order.\<close>

definition willing_kernel :: kernel where
  "willing_kernel host s c = Inr (49152 + of_nat (length host))"

lemma opened_gateway_sockets_witness:
  "\<exists>g. gateway_open willing_kernel Macos [] 3 0xC0A80005 = Inr g \<and> us_reuse_port (og_mcast_recv g) \<and>
    measurement_endpoint g = Some (V4 0xC0A80005 49154)"
proof -
  obtain g where g: "gateway_open willing_kernel Macos [] 3 0xC0A80005 = Inr g"
    "measurement_endpoint g = Some (V4 0xC0A80005 49154)"
    by (simp add: gateway_open_def mcast_socket_def unicast_socket_def ephemeral_def base_socket_def sys_def
        willing_kernel_def measurement_endpoint_def local_addr_def fresh_socket_def PORT_def UNSPECIFIED_def
        sets_reuse_port_def is_unix_def)
  moreover have "us_reuse_port (og_mcast_recv g)"
    using opened_gateway_sockets [OF g(1)] by (simp add: sets_reuse_port_def is_unix_def)
  ultimately show ?thesis by blast
qed

section \<open>Sharing the discovery port\<close>

text \<open>The documented rules of the error \<^verbatim>\<open>EADDRINUSE\<close> (\<^verbatim>\<open>WSAEADDRINUSE\<close>), \<open>in_use\<close> here. macOS and the BSDs let a
  second wildcard bind to a UDP port pass where every socket sharing the port has set \<open>SO_REUSEPORT\<close>, elsewhere
  \<open>SO_REUSEADDR\<close> on all of them is enough. Besides, a bind to port 0 may be refused with this error (no ephemeral
  port is free), and so may joining a group a second time. The ephemeral port of a bind is none that a
  socket on the same address or on the wildcard address has. Nothing is said of other errors: any call may
  fail with any of them at any time (no such address, no such device, too many open files).\<close>

definition may_share :: "target_os \<Rightarrow> udp_socket \<Rightarrow> udp_socket \<Rightarrow> bool" where
  "may_share t s s' \<longleftrightarrow> (if t \<in> {Macos, Ios, Freebsd, Netbsd, Openbsd, Dragonfly}
     then us_reuse_port s \<and> us_reuse_port s' else us_reuse_address s \<and> us_reuse_address s')"

definition conflicts :: "target_os \<Rightarrow> udp_socket \<Rightarrow> ipv4 \<Rightarrow> u16 \<Rightarrow> udp_socket \<Rightarrow> bool" where
  "conflicts t s a p s' \<longleftrightarrow> (case us_bound s' of None \<Rightarrow> False
     | Some (a', p') \<Rightarrow> p' = p \<and> \<not> (a = UNSPECIFIED \<and> a' = UNSPECIFIED \<and> may_share t s s'))"

definition documented_kernel :: "target_os \<Rightarrow> int \<Rightarrow> kernel \<Rightarrow> bool" where
  "documented_kernel t in_use k \<longleftrightarrow>
     (\<forall>host s c. k host s c = Inl in_use \<longrightarrow>
        (\<exists>a. c = Bind a 0) \<or> (\<exists>a p. c = Bind a p \<and> list_ex (conflicts t s a p) host) \<or>
        (\<exists>g a. c = Join_multicast g a \<and> (g, a) \<in> set (us_groups s))) \<and>
     (\<forall>host s a p. k host s (Bind a 0) = Inr p \<longrightarrow>
        list_all (\<lambda>s'. us_bound s' \<noteq> Some (a, p) \<and> us_bound s' \<noteq> Some (UNSPECIFIED, p)) host)"

text \<open>A socket that leaves the discovery port to others as well: it is on another port, or on the wildcard
  address with the option of the platform.\<close>

definition shares_port :: "target_os \<Rightarrow> udp_socket \<Rightarrow> bool" where
  "shares_port t s \<longleftrightarrow> (\<forall>a. us_bound s = Some (a, PORT) \<longrightarrow>
     a = UNSPECIFIED \<and> us_reuse_address s \<and> (sets_reuse_port t \<longrightarrow> us_reuse_port s))"

text \<open>The sockets open on a host: gateways, of one peer or of several, are opened one after the other, sockets of
  other programs are opened, and sockets are closed, all in any order and any number of times.\<close>

inductive on_host :: "kernel \<Rightarrow> target_os \<Rightarrow> udp_socket list \<Rightarrow> bool" for k t where
  none: "on_host k t []"
| opened: "on_host k t host \<Longrightarrow> gateway_open k t host i addr = Inr g \<Longrightarrow> on_host k t (gateway_sockets g @ host)"
| other: "on_host k t host \<Longrightarrow> shares_port t s \<Longrightarrow> on_host k t (s # host)"
| closed: "on_host k t host \<Longrightarrow> on_host k t (remove1 s host)"

lemma bind_res_Inl: "bind_res r f = Inl e \<longleftrightarrow> r = Inl e \<or> (\<exists>x. r = Inr x \<and> f x = Inl e)"
  by (cases r) simp_all

lemma bind_res_assoc: "bind_res (bind_res r f) g = bind_res r (\<lambda>x. bind_res (f x) g)"
  by (cases r) simp_all

lemma sequence_fails:
  "fold_res (sys k host) s cs = Inl e \<Longrightarrow> \<exists>c \<in> set cs. \<exists>s'. k host s' c = Inl e"
proof (induction cs arbitrary: s)
  case (Cons c cs)
  then show ?case by (cases "k host s c") (auto simp: sys_def)
qed simp

lemma sequence_in_use:
  assumes "documented_kernel t in_use k" and "fold_res (sys k host) s cs = Inl in_use"
  shows "\<exists>c \<in> set cs. (\<exists>a p. c = Bind a p) \<or> (\<exists>g a. c = Join_multicast g a)"
  using sequence_fails [OF assms(2)] assms(1) unfolding documented_kernel_def by blast

lemma base_socket_free: "documented_kernel t in_use k \<Longrightarrow> base_socket k host \<noteq> Inl in_use"
  using sequence_in_use [of t in_use k host fresh_socket "[Create, Set_read_timeout (Some READ_TIMEOUT)]"]
  by (auto simp: base_socket_def simp del: fold_res.simps)

text \<open>The discovery socket is not refused its port.\<close>

lemma bind_port_free:
  assumes "documented_kernel t in_use k" and "list_all (shares_port t) host"
    and "us_reuse_address s" and "us_reuse_port s = sets_reuse_port t"
  shows "k host s (Bind UNSPECIFIED PORT) \<noteq> Inl in_use"
proof
  assume "k host s (Bind UNSPECIFIED PORT) = Inl in_use"
  moreover have "PORT \<noteq> 0" by (simp add: PORT_def)
  ultimately have "list_ex (conflicts t s UNSPECIFIED PORT) host"
    using assms(1) unfolding documented_kernel_def by blast
  then show False
    using assms(2-4)
    by (force simp: list_ex_iff list_all_iff conflicts_def may_share_def shares_port_def sets_reuse_port_def is_unix_def
        split: option.splits if_splits)
qed

lemma mcast_free:
  assumes "documented_kernel t in_use k" and "list_all (shares_port t) host"
  shows "mcast_socket k t host addr \<noteq> Inl in_use"
proof (cases "base_socket k host")
  case (Inl e)
  then show ?thesis using base_socket_free [OF assms(1), of host] by (simp add: mcast_socket_def)
next
  case (Inr s)
  let ?prefix = "[Set_reuse_address True] @ (if sets_reuse_port t then [Set_reuse_port True] else [])"
  let ?all = "if t = Linux then [Set_multicast_all False] else []"
  have m: "mcast_socket k t host addr = bind_res (fold_res (sys k host) s ?prefix) (\<lambda>s1.
      bind_res (sys k host s1 (Bind UNSPECIFIED PORT)) (\<lambda>s2.
      bind_res (sys k host s2 (Join_multicast MULTICAST_V4 addr)) (\<lambda>s3. fold_res (sys k host) s3 ?all)))"
    by (simp add: mcast_socket_def Inr fold_res_append bind_res_assoc)
  have p: "fold_res (sys k host) s ?prefix \<noteq> Inl in_use"
    using sequence_in_use [OF assms(1), of host s ?prefix] by (auto simp del: fold_res.simps)
  have s1: "us_reuse_address s1 \<and> us_reuse_port s1 = sets_reuse_port t \<and> us_groups s1 = []"
    if "fold_res (sys k host) s ?prefix = Inr s1" for s1
    using that base_socket_Inr [OF Inr] by (auto simp: sys_def bind_res_Inr fresh_socket_def split: if_splits)
  have b: "sys k host s1 (Bind UNSPECIFIED PORT) \<noteq> Inl in_use" if "fold_res (sys k host) s ?prefix = Inr s1" for s1
    using bind_port_free [OF assms, of s1] s1 [OF that] by (cases "k host s1 (Bind UNSPECIFIED PORT)") (auto simp: sys_def)
  have j: "sys k host s2 (Join_multicast MULTICAST_V4 addr) \<noteq> Inl in_use" if "us_groups s2 = []" for s2
  proof -
    have "k host s2 (Join_multicast MULTICAST_V4 addr) \<noteq> Inl in_use"
      using assms(1) that unfolding documented_kernel_def by fastforce
    then show ?thesis by (cases "k host s2 (Join_multicast MULTICAST_V4 addr)") (auto simp: sys_def)
  qed
  have l: "fold_res (sys k host) s3 ?all \<noteq> Inl in_use" for s3
    using sequence_in_use [OF assms(1), of host s3 ?all] by (auto simp del: fold_res.simps)
  have g: "us_groups s2 = []" if "fold_res (sys k host) s ?prefix = Inr s1" "sys k host s1 (Bind UNSPECIFIED PORT) = Inr s2"
    for s1 s2 using s1 [OF that(1)] that(2) by (auto simp: sys_def bind_res_Inr)
  show ?thesis
  proof
    assume "mcast_socket k t host addr = Inl in_use"
    then obtain s1 where s1: "fold_res (sys k host) s ?prefix = Inr s1"
      and "bind_res (sys k host s1 (Bind UNSPECIFIED PORT)) (\<lambda>s2.
        bind_res (sys k host s2 (Join_multicast MULTICAST_V4 addr)) (\<lambda>s3. fold_res (sys k host) s3 ?all)) = Inl in_use"
      unfolding m bind_res_Inl [of "fold_res (sys k host) s ?prefix"] using p by blast
    then obtain s2 where s2: "sys k host s1 (Bind UNSPECIFIED PORT) = Inr s2"
      and "bind_res (sys k host s2 (Join_multicast MULTICAST_V4 addr)) (\<lambda>s3. fold_res (sys k host) s3 ?all) = Inl in_use"
      unfolding bind_res_Inl [of "sys k host s1 _"] using b [OF s1] by blast
    then show False
      unfolding bind_res_Inl [of "sys k host s2 _"] using j [OF g [OF s1 s2]] l by blast
  qed
qed

text \<open>Its sockets leave the port to others: the ephemeral ports are not the discovery port, which the gateway's own
  discovery socket holds by then.\<close>

lemma ephemeral_off_port:
  assumes "documented_kernel t in_use k" and "k (h @ m # host) s (Bind addr 0) = Inr p"
    and "us_bound m = Some (UNSPECIFIED, PORT)"
  shows "p \<noteq> PORT"
  using assms unfolding documented_kernel_def by fastforce

lemma gateway_shares:
  assumes "documented_kernel t in_use k" and "gateway_open k t host i addr = Inr g"
  shows "list_all (shares_port t) (gateway_sockets g)"
proof -
  obtain m u p a where m: "mcast_socket k t host addr = Inr m" and u: "unicast_socket k (m # host) addr = Inr u"
    and p: "ephemeral k (u # m # host) addr = Inr p" and a: "ephemeral k (p # u # m # host) addr = Inr a"
    and g: "gateway_sockets g = [a, p, u, m]"
    using assms(2) by (auto simp: gateway_open_def bind_res_Inr gateway_sockets_def)
  note mp = mcast_Inr [OF m]
  have off: "k (h @ m # host) s (Bind addr 0) = Inr q \<Longrightarrow> q \<noteq> PORT" for h s q
    using ephemeral_off_port [OF assms(1)] mp by simp
  have "shares_port t u" by (rule unicast_Inr [OF u]) (use off [of "[]"] in \<open>auto simp: shares_port_def\<close>)
  moreover have "shares_port t p" by (rule ephemeral_Inr [OF p]) (use off [of "[u]"] in \<open>auto simp: shares_port_def\<close>)
  moreover have "shares_port t a" by (rule ephemeral_Inr [OF a]) (use off [of "[p, u]"] in \<open>auto simp: shares_port_def\<close>)
  ultimately show ?thesis using mp by (simp add: g shares_port_def)
qed

lemma host_shares:
  assumes "documented_kernel t in_use k" and "on_host k t host"
  shows "list_all (shares_port t) host"
  using assms(2)
proof (induction rule: on_host.induct)
  case (opened host addr i g)
  then show ?case using gateway_shares [OF assms(1)] by simp
next
  case (closed host s)
  then show ?case using set_remove1_subset [of s host] by (auto simp: list_all_iff)
qed simp_all

text \<open>C38: Gateways share the discovery port. On a kernel that follows the documented rules of \<^verbatim>\<open>EADDRINUSE\<close>, and
  on every platform: however many gateways, of one peer or of several, have been opened on the host and closed
  again, and whatever other programs have opened that leave the discovery port to others, a gateway's
  discovery socket is never refused as being in use; and where a gateway cannot be opened, the kernel has
  refused one of its calls for another reason, or has refused a bind of the gateway's address to an ephemeral
  port.\<close>

theorem gateways_share_port:
  assumes "documented_kernel t in_use k" and "on_host k t host"
  shows "mcast_socket k t host addr \<noteq> Inl in_use \<and>
    (\<forall>e. gateway_open k t host i addr = Inl e \<longrightarrow> (\<exists>h s c. k h s c = Inl e \<and> (e \<noteq> in_use \<or> c = Bind addr 0)))"
proof -
  have free: "mcast_socket k t host addr \<noteq> Inl in_use" by (rule mcast_free [OF assms(1) host_shares [OF assms]])
  have base: "\<exists>h s c. k h s c = Inl e \<and> e \<noteq> in_use" if "base_socket k h = Inl e" for h e
    using that base_socket_free [OF assms(1), of h] sequence_fails [of k h] unfolding base_socket_def by blast
  have tail: "\<exists>h s c. k h s c = Inl e \<and> (e \<noteq> in_use \<or> c = Bind addr 0)"
    if "bind_res (base_socket k h) (\<lambda>s. fold_res (sys k h) s (Bind addr 0 # cs)) = Inl e"
      "\<forall>c \<in> set cs. (\<nexists>a p. c = Bind a p) \<and> (\<nexists>g a. c = Join_multicast g a)" for h cs e
  proof (cases "base_socket k h")
    case (Inr s)
    have "\<exists>s. k h s (Bind addr 0) = Inl e" if "sys k h s (Bind addr 0) = Inl e"
      using that by (cases "k h s (Bind addr 0)") (auto simp: sys_def)
    moreover have "\<exists>h s c. k h s c = Inl e \<and> e \<noteq> in_use" if "fold_res (sys k h) s' cs = Inl e" for s'
      using sequence_in_use [OF assms(1), of h s' cs] sequence_fails [OF that] that \<open>\<forall>c \<in> set cs. _\<close> by blast
    ultimately show ?thesis
      using that(1) Inr by (cases "sys k h s (Bind addr 0)") auto
  qed (use that(1) base in auto)
  have "\<exists>h s c. k h s c = Inl e \<and> (e \<noteq> in_use \<or> c = Bind addr 0)" if e: "gateway_open k t host i addr = Inl e" for e
  proof -
    have m: "\<exists>h s c. k h s c = Inl e" if "mcast_socket k t host addr = Inl e"
      using that base sequence_fails by (cases "base_socket k host") (auto simp: mcast_socket_def simp del: fold_res.simps, blast+)
    have u: "\<exists>h s c. k h s c = Inl e \<and> (e \<noteq> in_use \<or> c = Bind addr 0)" if "unicast_socket k h addr = Inl e" for h
      by (rule tail [OF that [unfolded unicast_socket_def]]) simp
    have p: "\<exists>h s c. k h s c = Inl e \<and> (e \<noteq> in_use \<or> c = Bind addr 0)" if "ephemeral k h addr = Inl e" for h
      by (rule tail [OF that [unfolded ephemeral_def]]) simp
    from e show ?thesis
      using m free u p
      by (auto simp: gateway_open_def bind_res_Inl)
  qed
  with free show ?thesis by blast
qed

text \<open>A BSD kernel: it refuses a bind to a port on which some socket does not share, and its next ephemeral port, from
  10000 upwards, where it is taken. It has no device but loopback.\<close>

definition bsd_kernel :: kernel where
  "bsd_kernel host s c = (case c of
      Bind a p \<Rightarrow> if p = 0 then
          let q = 10000 + word_of_nat (length host) in
          if list_all (\<lambda>s'. us_bound s' \<noteq> Some (a, q) \<and> us_bound s' \<noteq> Some (UNSPECIFIED, q)) host then Inr q else Inl 48
        else if list_ex (conflicts Freebsd s a p) host then Inl 48 else Inr p
    | Join_multicast g a \<Rightarrow> if is_loopback a then Inr 0 else Inl 19
    | _ \<Rightarrow> Inr 0)"

lemma gateways_share_port_witness:
  "\<exists>host. length host = 4 \<and> mcast_socket bsd_kernel Freebsd host LOCALHOST \<noteq> Inl 48"
proof -
  have k: "documented_kernel Freebsd 48 bsd_kernel"
    unfolding documented_kernel_def
    by (auto simp: bsd_kernel_def Let_def split: sys_call.splits if_splits)
  obtain g where g: "gateway_open bsd_kernel Freebsd [] 0 LOCALHOST = Inr g"
    by (simp add: gateway_open_def mcast_socket_def unicast_socket_def ephemeral_def base_socket_def sys_def
        bsd_kernel_def fresh_socket_def PORT_def UNSPECIFIED_def LOCALHOST_def is_loopback_def
        sets_reuse_port_def is_unix_def conflicts_def)
  then have h: "on_host bsd_kernel Freebsd (gateway_sockets g @ [])" using on_host.none by (rule on_host.opened [rotated])
  have "mcast_socket bsd_kernel Freebsd (gateway_sockets g) LOCALHOST \<noteq> Inl 48"
    using gateways_share_port [OF k h, of LOCALHOST] by simp
  then show ?thesis
    by (intro exI [of _ "gateway_sockets g"]) (simp add: gateway_sockets_def)
qed

end
