(* ===== verification/Threads.thy ===== *)
theory Threads
  imports System Sockets
begin

text \<open>
  The loops of the threads, \<^verbatim>\<open>crates/tactus/src/runtime.rs\<close>, around the operations they perform under the
  lock: a receiver's turn, the wait of the rescan thread for the next scan or the end of its epoch, the
  turn of the housekeeping thread and how long it sleeps, the reports of addresses that do not open, and
  the end of a peer. A thread ends where its turn says so.
\<close>

section \<open>Receivers\<close>

text \<open>What a receive call returns: a datagram, a time-out, or another error. The buffer has 2048 bytes.\<close>

datatype received = Datagram socket_addr bytes | Timed_out | Receive_error

definition receiver_turn :: "nat \<Rightarrow> u64 \<Rightarrow> role \<Rightarrow> received \<Rightarrow> engine \<Rightarrow> bool \<times> engine" where
  "receiver_turn gw ep r ev e = (case ev of
      Datagram src bs \<Rightarrow> if \<not> gateway_live gw ep e then (False, e)
        else (True, dispatch gw src (take 2048 bs) r e)
    | Timed_out \<Rightarrow> (gateway_live gw ep e, e)
    | Receive_error \<Rightarrow> (False, e))"

lemma receiver_turn_receive:
  "snd (receiver_turn gw ep r (Datagram src bs) e) = receive gw ep src (take 2048 bs) r e"
  by (simp add: receiver_turn_def receive_def)

text \<open>C21: The receivers of a closed gateway end. Once a gateway has been closed, whether by a rescan, by
  leaving the network or by a crash, whatever the peer does afterwards, the next turn of each of its
  receivers, a datagram or a time-out, ends the thread and leaves the peer as it is.\<close>

theorem closed_gateway_receivers_end:
  assumes "step\<^sup>*\<^sup>* s s'" and "i < next_gateway_id (eng s)" and "i \<notin> set (keys_of (gateways (eng s)))"
  shows "receiver_turn i ep r ev (eng s') = (False, eng s')"
proof -
  have "widens (eng s) (eng s')"
    using assms(1) by (induction rule: rtranclp_induct) (auto intro: widens_step widens_trans)
  with assms(2,3) have "i \<notin> set (keys_of (gateways (eng s')))" by (force simp: widens_def)
  then have "\<not> gateway_live i ep (eng s')" by (simp add: gateway_live_def map_of_eq_None_iff)
  then show ?thesis by (simp add: receiver_turn_def split: received.split)
qed

lemma closed_gateway_receivers_end_witness:
  "fst (receiver_turn 0 1 Measurement (Datagram (V4 1 2) []) (eng example_joined)) \<and>
   \<not> fst (receiver_turn 0 1 Measurement (Datagram (V4 1 2) []) (enable (disable (eng example_joined))))"
proof -
  let ?s = "example_joined\<lparr>eng := disable (eng example_joined)\<rparr>"
  have e: "enabled (eng example_joined)" "epoch (eng example_joined) = 1"
    "map_of (gateways (eng example_joined)) 0 \<noteq> None"
  proof -
    show "enabled (eng example_joined)"
      by (simp add: example_joined_def enable_enables)
    have "initial None = {LOCALHOST}" by (simp add: initial_def admit_def)
    then show "epoch (eng example_joined) = 1"
      by (simp add: example_joined_def example_start_def new_engine_def example_env_def example_config_def
          enable_def found_session_def random_id_def now_def initial_addrs_def open_gateway_def Let_def
          notify_def send_alive_def transmit_def)
    show "map_of (gateways (eng example_joined)) 0 \<noteq> None"
      using example_gateway by (auto simp: map_of_eq_None_iff)
  qed
  have "step ?s (?s\<lparr>eng := enable (eng ?s)\<rparr>)"
    by (rule step.enable) (simp add: fresh_epoch_def example_joined_def example_start_def)
  moreover have "0 < next_gateway_id (eng ?s)" "0 \<notin> set (keys_of (gateways (eng ?s)))"
    using example_gateway e(1) by (simp_all add: leave_network)
  ultimately have "\<not> fst (receiver_turn 0 1 Measurement (Datagram (V4 1 2) []) (enable (disable (eng example_joined))))"
    using closed_gateway_receivers_end [OF r_into_rtranclp] by force
  moreover have "gateway_live 0 1 (eng example_joined)" using e by (simp add: gateway_live_def)
  ultimately show ?thesis by (simp add: receiver_turn_def)
qed

section \<open>The endpoints of open gateways\<close>

text \<open>An environment in which opening a gateway opens its sockets; \<open>hosts n\<close> are the sockets open on the host
  at the \<open>n\<close>th attempt.\<close>

definition socket_opens ::
    "kernel \<Rightarrow> target_os \<Rightarrow> (nat \<Rightarrow> udp_socket list) \<Rightarrow> nat \<Rightarrow> ipv4 \<Rightarrow> (socket_addr \<times> socket_addr) option" where
  "socket_opens k t hosts n addr = (case gateway_open k t (hosts n) n addr of Inl err \<Rightarrow> None
     | Inr g \<Rightarrow> (case (measurement_endpoint g, audio_endpoint g) of
         (Some m, Some a) \<Rightarrow> Some (m, a) | _ \<Rightarrow> None))"

lemma socket_opens_Some:
  assumes "socket_opens k t hosts n addr = Some (m, a)"
  shows "\<exists>p q. m = V4 addr p \<and> a = V4 addr q"
proof -
  obtain g where g: "gateway_open k t (hosts n) n addr = Inr g" "measurement_endpoint g = Some m"
    "audio_endpoint g = Some a"
    using assms by (auto simp: socket_opens_def split: sum.splits option.splits)
  from g(1) show ?thesis using g(2,3)
    by (auto simp: gateway_open_def bind_res_Inr measurement_endpoint_def audio_endpoint_def local_addr_def
        elim!: ephemeral_Inr)
qed

text \<open>C22: In every reachable state, the endpoints a peer advertises for measurements and audio on a gateway are
  IPv4 endpoints at the address of that gateway.\<close>

theorem reachable_endpoints:
  assumes "env_open v = socket_opens k t hosts" and "reachable bpm c v s"
  shows "list_all (\<lambda>(i, g). \<exists>p q. gw_measurement g = V4 (gw_addr g) p \<and> gw_audio g = V4 (gw_addr g) q)
    (gateways (eng s))"
proof -
  have "env (eng s) = v \<and> (\<forall>g \<in> snd ` set (gateways (eng s)). opened_in v g)"
    using assms(2)
  proof (induction rule: reachable.induct)
    case start
    then show ?case by (simp add: new_engine_def Let_def)
  next
    case (step s s')
    with widens_step [OF step.hyps(3)] show ?case unfolding widens_def by metis
  qed
  then show ?thesis
    using assms(1) by (auto simp: list_all_iff opened_in_def dest!: socket_opens_Some)
qed

definition socket_env :: env where
  "socket_env = example_env\<lparr>env_open := socket_opens willing_kernel Linux (\<lambda>n. [])\<rparr>"

lemma reachable_endpoints_witness:
  "\<exists>g p. gateways (enable (new_engine (Fin 120) example_config socket_env)) = [(0, g)] \<and>
    gw_measurement g = V4 (gw_addr g) p"
proof -
  let ?s = "\<lparr>eng = new_engine (Fin 120) example_config socket_env, scans = Map.empty\<rparr>"
  have "reachable (Fin 120) example_config socket_env (?s\<lparr>eng := enable (eng ?s)\<rparr>)"
    by (rule reachable.step [OF reachable.start _ step.enable])
      (simp_all add: fresh_epoch_def new_engine_def socket_env_def example_env_def Let_def)
  moreover have "env_open socket_env = socket_opens willing_kernel Linux (\<lambda>n. [])" by (simp add: socket_env_def)
  ultimately have "list_all (\<lambda>(i, g). \<exists>p q. gw_measurement g = V4 (gw_addr g) p \<and> gw_audio g = V4 (gw_addr g) q)
      (gateways (enable (new_engine (Fin 120) example_config socket_env)))"
    using reachable_endpoints by fastforce
  moreover have "\<exists>g. gateways (enable (new_engine (Fin 120) example_config socket_env)) = [(0, g)]"
  proof -
    have "initial None = {LOCALHOST}" by (simp add: initial_def admit_def)
    moreover have "\<exists>x. socket_opens willing_kernel Linux (\<lambda>n. []) 0 LOCALHOST = Some x"
      by (simp add: socket_opens_def gateway_open_def mcast_socket_def unicast_socket_def ephemeral_def
          base_socket_def sys_def willing_kernel_def measurement_endpoint_def audio_endpoint_def local_addr_def
          fresh_socket_def PORT_def UNSPECIFIED_def sets_reuse_port_def is_unix_def)
    ultimately show ?thesis
      by (auto simp: new_engine_def socket_env_def example_env_def example_config_def enable_def
          found_session_def random_id_def now_def initial_addrs_def open_gateway_def Let_def
          notify_def send_alive_def transmit_def)
  qed
  ultimately show ?thesis by auto
qed

section \<open>The rescan thread\<close>

text \<open>\<open>wait_in_epoch\<close> looks at the peer when it takes the lock and again each time it is woken, by a notification
  or by its time-out. The list holds the shutdown flag and the peer at these times; \<open>None\<close> where it still
  waits after them.\<close>

definition epoch_over :: "u64 \<Rightarrow> bool \<Rightarrow> engine \<Rightarrow> bool" where
  "epoch_over ep shutdown e \<longleftrightarrow> shutdown \<or> \<not> enabled e \<or> epoch e \<noteq> ep"

fun wait_in_epoch :: "u64 \<Rightarrow> i64 \<Rightarrow> (bool \<times> engine) list \<Rightarrow> bool option" where
  "wait_in_epoch ep until [] = None"
| "wait_in_epoch ep until ((shutdown, e) # ws) = (if epoch_over ep shutdown e then Some False
     else let (t, e) = now e; left = until - t in
       if left \<le>s 0 then Some True else wait_in_epoch ep until ws)"

lemma wait_in_epoch_over:
  "epoch_over ep shutdown e \<Longrightarrow> wait_in_epoch ep until ((shutdown, e) # ws) = Some False"
  by simp

text \<open>Where the wait ends with \<open>True\<close>, the peer was in the epoch and the time had come.\<close>

lemma wait_in_epoch_True:
  "wait_in_epoch ep until ws = Some True \<Longrightarrow>
    \<exists>(sd, e) \<in> set ws. \<not> sd \<and> enabled e \<and> epoch e = ep \<and> until - fst (now e) \<le>s 0"
  by (induction ep until ws rule: wait_in_epoch.induct)
    (auto simp: Let_def epoch_over_def now_def split: if_splits)

text \<open>The addresses whose opening is reported on the standard error. \<open>failed\<close> is the set the rescan thread
  keeps; \<open>outcomes\<close> are the additions of the plan in their order, with whether each opened. A scan with an
  empty plan does not come to this.\<close>

definition report_openings ::
    "ipv4 set \<Rightarrow> (ipv4 \<times> bool) list \<Rightarrow> ipv4 list \<times> ipv4 set" where
  "report_openings failed outcomes =
     foldl (\<lambda>(out, failed) (a, opened). if opened then (out, failed - {a})
         else if a \<in> failed then (out, failed) else (out @ [a], insert a failed))
       ([], failed \<inter> set (map fst outcomes)) outcomes"

definition report_scan :: "bool \<Rightarrow> ipv4 set \<Rightarrow> (ipv4 \<times> bool) list \<Rightarrow> ipv4 list \<times> ipv4 set" where
  "report_scan plan_empty failed outcomes =
     (if plan_empty then ([], failed) else report_openings failed outcomes)"

lemma report_openings_loop:
  assumes "distinct (map fst outcomes)"
  shows "foldl (\<lambda>(out, failed) (a, opened). if opened then (out, failed - {a})
         else if a \<in> failed then (out, failed) else (out @ [a], insert a failed)) (out, F) outcomes =
    (out @ map fst (filter (\<lambda>(a, opened). \<not> opened \<and> a \<notin> F) outcomes),
     (F - fst ` {x \<in> set outcomes. snd x}) \<union> fst ` {x \<in> set outcomes. \<not> snd x})"
  using assms
proof (induction outcomes arbitrary: out F)
  case (Cons x xs)
  obtain a opened where x: "x = (a, opened)" by (cases x)
  have a: "a \<notin> fst ` set xs" and d: "distinct (map fst xs)" using Cons.prems x by auto
  have f: "filter (\<lambda>(b, opened). \<not> opened \<and> b \<notin> G) xs = filter (\<lambda>(b, opened). \<not> opened \<and> b \<notin> F) xs"
    if "G - {a} = F - {a}" for G
    by (rule filter_cong) (use a that in force)+
  have s: "fst ` {y. (y = (a, opened) \<or> y \<in> set xs) \<and> P y} =
      (if P (a, opened) then {a} else {}) \<union> fst ` {y \<in> set xs. P y}" for P by force
  show ?case using a f [of "F - {a}"] f [of "insert a F"]
    by (auto simp: x Cons.IH [OF d] s)
qed simp

text \<open>The reports of a scan are the additions that failed to open and had not failed in the scan before, and
  what is remembered for the next one is what failed in this one.\<close>

lemma report_scan_exact:
  assumes "distinct (map fst outcomes)"
  shows "report_scan False failed outcomes = (map fst (filter (\<lambda>(a, opened). \<not> opened \<and> a \<notin> failed) outcomes),
    {a. (a, False) \<in> set outcomes})"
proof -
  have "filter (\<lambda>(a, opened). \<not> opened \<and> a \<notin> failed \<inter> set (map fst outcomes)) outcomes =
      filter (\<lambda>(a, opened). \<not> opened \<and> a \<notin> failed) outcomes"
    by (rule filter_cong) force+
  moreover have "(failed \<inter> set (map fst outcomes) - fst ` {x \<in> set outcomes. snd x}) \<union>
      fst ` {x \<in> set outcomes. \<not> snd x} = {a. (a, False) \<in> set outcomes}"
    by (force simp: image_iff)
  ultimately show ?thesis
    by (simp only: report_scan_def report_openings_def report_openings_loop [OF assms] if_False append_Nil)
qed

text \<open>A scan with an empty plan forgets nothing: an address that has gone in between and fails again when it
  comes back is not reported again.\<close>

lemma report_after_empty_scan:
  "let (out1, failed1) = report_scan False {} [(a, False)];
       (out2, failed2) = report_scan True failed1 [];
       (out3, failed3) = report_scan False failed2 [(a, False)]
   in out1 = [a] \<and> out2 = [] \<and> out3 = []"
  by (simp add: report_scan_def report_openings_def)

section \<open>The housekeeping thread\<close>

definition housekeeping_wait :: "i64 \<Rightarrow> i64 \<Rightarrow> i64" where
  "housekeeping_wait next t = (let d = next - t in
     if d <s 1000 then 1000 else if 250000 <s d then 250000 else d)"

text \<open>One turn: \<open>None\<close> where the thread ends, else the time it waits unless it is notified.\<close>

definition housekeeping_turn :: "bool \<Rightarrow> engine \<Rightarrow> (i64 \<times> engine) option" where
  "housekeeping_turn shutdown e = (if shutdown then None else
     let (next, e) = housekeeping_pass e; (t, e) = now e in Some (housekeeping_wait next t, e))"

lemma housekeeping_wait_bounds:
  "1000 \<le> sint (housekeeping_wait next t) \<and> sint (housekeeping_wait next t) \<le> 250000"
  by (auto simp: housekeeping_wait_def Let_def word_sless_alt not_less)

text \<open>Dropping the handle leaves the network, and then sets the shutdown flag and wakes the threads.\<close>

definition drop_link :: "engine \<Rightarrow> bool \<times> engine" where
  "drop_link e = (True, notify (disable e))"

text \<open>Dropping the handle ends the threads of the peer and leaves the network: its housekeeping thread ends at
  its next turn, its rescan thread, of whatever epoch, at its next look at the peer, and its receivers at
  theirs, each without touching the peer again; and no gateway is left open.\<close>

theorem drop_ends_threads:
  assumes "idle_inv e" and "drop_link e = (shutdown, e')"
  shows "housekeeping_turn shutdown e' = None \<and> wait_in_epoch ep until ((shutdown, e') # ws) = Some False \<and>
    receiver_turn i ep r ev e' = (False, e') \<and> \<not> enabled e' \<and> gateways e' = []"
proof -
  have "\<not> enabled (disable e) \<and> gateways (disable e) = []"
    using assms(1) by (auto simp: disable_def Let_def notify_def idle_inv_def)
  then have "\<not> enabled e' \<and> gateways e' = []" "shutdown"
    using assms(2) by (auto simp: drop_link_def notify_def)
  then show ?thesis
    by (simp add: housekeeping_turn_def epoch_over_def receiver_turn_def gateway_live_def split: received.split)
qed

lemma drop_ends_threads_witness:
  "\<not> enabled (snd (drop_link (eng example_joined))) \<and> gateways (snd (drop_link (eng example_joined))) = []"
  using drop_ends_threads [of "eng example_joined"] reachable_ok [OF reachable_example fair_example]
  by (metis engine_ok_def prod.collapse)

end
