(* ===== verification/Election.thy ===== *)
theory Election
  imports System
begin

text \<open>
  Session election, \<^verbatim>\<open>evaluate_join\<close> and \<^verbatim>\<open>reset_session\<close> of \<^verbatim>\<open>crates/tactus/src/engine.rs\<close>: two peers
  of different sessions that have measured each other end up in one session, and a peer that is left
  alone founds a session in which its beats go on.
\<close>

section \<open>The join rule\<close>

lemma sint_JOIN_EPSILON [simp]: "sint JOIN_EPSILON = 500000"
  by (simp add: JOIN_EPSILON_def)

lemma sint_minus_i64: "sint (x :: i64) \<noteq> - (2 ^ 63) \<Longrightarrow> sint (- x) = - sint x"
  using sint_sub_i64 [of 0 x] i64_range [of x] by simp

lemma sint_sabs_i64: "sint (x :: i64) \<noteq> - (2 ^ 63) \<Longrightarrow> sint (sabs x) = \<bar>sint x\<bar>"
  by (auto simp: sabs_def word_sless_alt sint_minus_i64)

lemma join_rule_cases:
  assumes "sint gap \<noteq> - (2 ^ 63)"
  shows "join_rule gap new cur \<longleftrightarrow> 500000 < sint gap \<or> (\<bar>sint gap\<bar> < 500000 \<and> new < cur)"
  using sint_sabs_i64 [OF assms] by (simp add: join_rule_def word_sless_alt)

lemma evaluate_join_session:
  "session (evaluate_join s o' e) =
    (if s \<noteq> session e \<and> join_rule (o' - ghost_offset e) s (session e) then s else session e)"
  by (simp add: evaluate_join_def now_def Let_def split: option.split)

text \<open>C11: Election settles on one session. Peers \<open>a\<close> and \<open>b\<close> of different sessions have measured each other:
  \<open>a\<close> sees the ghost clock of \<open>b\<close>'s session ahead of its own by \<open>ga\<close>, \<open>b\<close> that of \<open>a\<close>'s session by \<open>gb\<close>, and the two
  measurements disagree by at most \<open>err\<close>, which is at most half a second. When each of them then evaluates
  the join rule on the other's session, both end up in the session whose clock is ahead by more than half a second,
  or within half a second in the one with the lesser identifier, unless one of the gaps is within \<open>err\<close> of
  half a second; with exact measurements they agree unless the gap is exactly half a second.\<close>

theorem election_settles:
  assumes "session a \<noteq> session b"
    and "sint (ob - ghost_offset a) = ga" and "sint (oa - ghost_offset b) = gb"
    and "ga \<noteq> - (2 ^ 63)" and "gb \<noteq> - (2 ^ 63)"
    and "\<bar>ga + gb\<bar> \<le> err" and "err \<le> 500000" and "err < \<bar>\<bar>ga\<bar> - 500000\<bar>"
  shows "(session (evaluate_join (session b) ob a), session (evaluate_join (session a) oa b)) =
    (if 500000 < ga then (session b, session b)
     else if ga < - 500000 then (session a, session a)
     else (min (session a) (session b), min (session a) (session b)))"
proof -
  have "join_rule (oa - ghost_offset b) (session a) (session b) \<longleftrightarrow>
      500000 < gb \<or> (\<bar>gb\<bar> < 500000 \<and> session a < session b)"
    using join_rule_cases assms(3,5) by simp
  moreover have "join_rule (ob - ghost_offset a) (session b) (session a) \<longleftrightarrow>
      500000 < ga \<or> (\<bar>ga\<bar> < 500000 \<and> session b < session a)"
    using join_rule_cases assms(2,4) by simp
  moreover consider "500000 < ga" "gb < - 500000" | "ga < - 500000" "500000 < gb" | "\<bar>ga\<bar> < 500000" "\<bar>gb\<bar> < 500000"
    using assms(6-8) by linarith
  then show ?thesis
    using assms(1) calculation by cases (auto simp: evaluate_join_session min_def)
qed

text \<open>At exactly half a second neither moves, and measurements that differ by two microseconds around it
  can make the peers swap their sessions.\<close>

lemma election_at_epsilon:
  assumes "session a < session b"
  shows "sint (ob - ghost_offset a) = 500000 \<Longrightarrow> session (evaluate_join (session b) ob a) = session a"
    and "sint (oa - ghost_offset b) = - 500000 \<Longrightarrow> session (evaluate_join (session a) oa b) = session b"
    and "sint (ob - ghost_offset a) = 500001 \<Longrightarrow> session (evaluate_join (session b) ob a) = session b"
    and "sint (oa - ghost_offset b) = - 499999 \<Longrightarrow> session (evaluate_join (session a) oa b) = session a"
  using assms by (auto simp: evaluate_join_session join_rule_cases)

definition example_peer :: "id \<Rightarrow> engine" where
  "example_peer i = (new_engine (Fin 120) example_config example_env)\<lparr>node := i, session := i\<rparr>"

lemma example_peer_fields [simp]: "session (example_peer i) = i" "ghost_offset (example_peer i) = 0"
  by (simp_all add: example_peer_def new_engine_def Let_def)

lemma election_settles_witness:
  "session (evaluate_join (Id 2) 600000 (example_peer (Id 1))) = Id 2 \<and>
    session (evaluate_join (Id 1) (- 599000) (example_peer (Id 2))) = Id 2 \<and>
    session (evaluate_join (Id 2) 499999 (example_peer (Id 1))) = Id 1 \<and>
    session (evaluate_join (Id 1) (- 499999) (example_peer (Id 2))) = Id 1"
  using election_settles [of "example_peer (Id 1)" "example_peer (Id 2)" 600000 600000 "- 599000" "- 599000" 1000]
    election_settles [of "example_peer (Id 1)" "example_peer (Id 2)" 499999 499999 "- 499999" "- 499999" 0]
  by (simp add: min_def less_eq_id_def)

section \<open>A fresh session\<close>

text \<open>Counting on from a point of a timeline differs from counting from its origin by at most one unit,
  the roundings of the two parts.\<close>

lemma three_roundings:
  "2 * \<bar>p - x\<bar> \<le> t \<Longrightarrow> 2 * \<bar>r - y\<bar> \<le> t \<Longrightarrow> 2 * \<bar>s - (x + y)\<bar> \<le> t \<Longrightarrow> 2 * \<bar>p + r - s\<bar> \<le> 3 * t" for t :: int
  by (simp add: abs_if split: if_splits)

lemma beats_real_restart:
  assumes "legal_tempo (tempo l)" and "sint (beat_origin l') = beats_real l g0"
    and "tempo l' = tempo l" and "sint (time_origin l') = 0"
  shows "\<bar>beats_real l' (g - g0) - beats_real l g\<bar> \<le> 1"
proof -
  define t where "t = sint (tempo l)"
  define x where "x = (g0 - sint (time_origin l)) * 1000000"
  define y where "y = (g - g0) * 1000000"
  have t: "0 < t" using legal_tempo_pos [OF assms(1)] by (simp add: t_def)
  define a where "a = nearest_quotient x t"
  define b where "b = nearest_quotient y t"
  define c where "c = nearest_quotient (x + y) t"
  have "2 * \<bar>a * t - x\<bar> \<le> t" "2 * \<bar>b * t - y\<bar> \<le> t" "2 * \<bar>c * t - (x + y)\<bar> \<le> t"
    unfolding a_def b_def c_def by (rule nearest_quotient_near [OF t])+
  then have "2 * \<bar>a * t + b * t - c * t\<bar> \<le> 3 * t" by (rule three_roundings)
  moreover have "\<bar>a * t + b * t - c * t\<bar> = \<bar>a + b - c\<bar> * t"
    using t by (simp add: abs_mult flip: left_diff_distrib distrib_right)
  ultimately have "(2 * \<bar>a + b - c\<bar>) * t \<le> 3 * t" by simp
  then have "2 * \<bar>a + b - c\<bar> \<le> 3" using t mult_le_cancel_right_pos by blast
  then have "\<bar>a + b - c\<bar> \<le> 1" by (simp add: abs_if split: if_splits)
  moreover have "(g - sint (time_origin l)) * 1000000 = x + y" by (simp add: x_def y_def)
  then have "beats_real l g = sint (beat_origin l) + c" by (simp add: beats_real_def c_def t_def)
  moreover have "sint (beat_origin l') = sint (beat_origin l) + a"
    using assms(2) by (simp add: beats_real_def a_def x_def t_def)
  then have "beats_real l' (g - g0) = sint (beat_origin l) + a + b"
    using assms(3,4) by (simp add: beats_real_def b_def y_def t_def)
  ultimately show ?thesis by simp
qed

lemma sint_add_room: "room a \<Longrightarrow> room b \<Longrightarrow> sint (a + b) = sint a + sint b"
  by (rule sint_add_i64) (simp_all add: room_def abs_less_iff)

lemma sint_minus_room: "room a \<Longrightarrow> sint (- a) = - sint a"
  by (rule sint_minus_i64) (auto simp: room_def)

text \<open>The beat at a local time.\<close>

lemma roomy_beat_now:
  assumes "roomy_timeline l" and "room i" and "room t"
  obtains b where "beats_at_ghost l (t + i) = Some b" and "sint b = beats_real l (sint t + sint i)"
    and "\<bar>sint b\<bar> < 2 ^ 61"
proof -
  have l: "legal_tempo (tempo l)" "room (beat_origin l)" "room (time_origin l)"
    using assms(1) by (simp_all add: roomy_timeline_def)
  note r = assms(2,3)[unfolded room_def] l(2,3)[unfolded room_def]
  define v where "v = sint t + sint i - sint (time_origin l)"
  have v: "\<bar>v\<bar> < 2 ^ 56" using r by (simp add: v_def abs_less_iff)
  obtain b where b: "beats_at_ghost l (t + i) = Some b" "sint b = beats_real l (sint t + sint i)"
    using sint_beats_at_ghost [OF l(1), of "t + i"] r v assms(2,3)
    by (auto simp: sint_add_room v_def abs_less_iff)
  have "\<bar>sint b\<bar> \<le> \<bar>sint (beat_origin l)\<bar> + 17 * \<bar>v\<bar>"
    unfolding b(2) beats_real_def v_def
    by (rule order_trans [OF abs_triangle_ineq add_left_mono [OF beats_quotient_bound [OF l(1)]]])
  also have "\<dots> < 2 ^ 61" using r v by simp
  finally show thesis using that b by blast
qed

lemma reset_session_result:
  assumes "beats_at_ghost (timeline e) (fst (now e) + ghost_offset e) = Some b" and "fst (random_id e) = Some i"
  shows "node (reset_session e) = i" "session (reset_session e) = i"
    "ghost_offset (reset_session e) = - fst (now e)"
    "timeline (reset_session e) = \<lparr>tempo = tempo (timeline e), beat_origin = b, time_origin = 0\<rparr>"
    "held_stst (reset_session e) = \<lparr>is_playing = is_playing (held_stst e), ss_beats = b, timestamp = 0\<rparr>"
  using assms by (simp_all add: reset_session_def now_def random_id_def Let_def)

text \<open>C12: Losing the last member of a session is not heard. The peer founds a session of its own, under a
  new identifier, with the same tempo and transport state, its ghost clock starts at zero at the
  founding moment, and its beats go on: at any time the new timeline gives the beat of the old one to
  within one micro-beat, and at the founding moment exactly that beat. The system gives randomness for
  the identifier.\<close>

theorem reset_session_seamless:
  assumes "roomy_timeline (timeline e)" and "room (ghost_offset e)" and "room (fst (now e))" and "room u"
    and "fst (random_id e) = Some i"
  shows "session (reset_session e) = node (reset_session e) \<and> node (reset_session e) = i \<and>
    tempo (timeline (reset_session e)) = tempo (timeline e) \<and>
    is_playing (held_stst (reset_session e)) = is_playing (held_stst e) \<and>
    fst (now e) + ghost_offset (reset_session e) = 0 \<and>
    (\<exists>b b'. beats_at_ghost (timeline e) (u + ghost_offset e) = Some b \<and>
      beats_at_ghost (timeline (reset_session e)) (u + ghost_offset (reset_session e)) = Some b' \<and>
      \<bar>sint b' - sint b\<bar> \<le> (if u = fst (now e) then 0 else 1))"
proof -
  let ?l = "timeline e" and ?t = "fst (now e)" and ?o = "ghost_offset e" and ?r = "reset_session e"
  have l: "legal_tempo (tempo ?l)" "room (beat_origin ?l)" "room (time_origin ?l)"
    using assms(1) by (simp_all add: roomy_timeline_def)
  note r = assms(2-4)[unfolded room_def] l(2,3)[unfolded room_def]
  obtain n where n: "beats_at_ghost ?l (?t + ?o) = Some n" "sint n = beats_real ?l (sint ?t + sint ?o)"
    and nb: "\<bar>sint n\<bar> < 2 ^ 61"
    using roomy_beat_now [OF assms(1,2,3)] .
  obtain b where b: "beats_at_ghost ?l (u + ?o) = Some b" "sint b = beats_real ?l (sint u + sint ?o)"
    using roomy_beat_now [OF assms(1,2,4)] .
  note f = reset_session_result [OF n(1) assms(5)]
  have d: "sint (u + ghost_offset ?r) = sint u - sint ?t"
    using assms by (simp add: f sint_minus_room sint_sub_i64 room_def abs_less_iff)
  have "tempo (timeline ?r) = tempo ?l" "sint (time_origin (timeline ?r)) = 0"
    "sint (beat_origin (timeline ?r)) = sint n" by (simp_all add: f)
  note r' = this
  obtain b' where b': "beats_at_ghost (timeline ?r) (u + ghost_offset ?r) = Some b'"
    "sint b' = beats_real (timeline ?r) (sint u - sint ?t)"
    using sint_beats_at_ghost [of "timeline ?r" "u + ghost_offset ?r"] l(1) r nb
    by (auto simp: r' d abs_less_iff)
  have "\<bar>sint b' - sint b\<bar> \<le> 1"
    using beats_real_restart [OF l(1) r'(3)[unfolded n(2)] r'(1,2), of "sint u + sint ?o"]
    by (simp add: b b')
  moreover have "u = ?t \<Longrightarrow> b' = b"
    using b'(1) b(1) n(1) l(1) r' by (simp add: f beats_at_ghost_def round_div_pos legal_tempo_pos)
  ultimately show ?thesis using b(1) b'(1) by (simp add: f)
qed

lemma reset_session_seamless_witness:
  "\<exists>b b'. beats_at_ghost (timeline (example_peer (Id 1))) (5000000 + ghost_offset (example_peer (Id 1))) = Some b \<and>
    beats_at_ghost (timeline (reset_session (example_peer (Id 1))))
      (5000000 + ghost_offset (reset_session (example_peer (Id 1)))) = Some b' \<and> \<bar>sint b' - sint b\<bar> \<le> 1"
proof -
  have "fst (now (example_peer (Id 1))) = 1000000" "roomy_timeline (timeline (example_peer (Id 1)))"
    by (simp_all add: example_peer_def new_engine_def example_env_def now_def Let_def roomy_timeline_def
        room_def)
  then show ?thesis
    using reset_session_seamless [of "example_peer (Id 1)" 5000000 "Id 2"]
    by (simp add: room_def random_id_def example_peer_def new_engine_def example_env_def Let_def)
qed

end
