(* ===== verification/Membership.thy ===== *)
theory Membership
  imports Election "HOL-Library.Sublist"
begin

text \<open>
  Who is on the network, \<^verbatim>\<open>crates/tactus/src/engine.rs\<close>: the answer to an Alive, the pruning of peers
  whose time to live has run out, and what the closing of a gateway makes the peer forget.
\<close>

section \<open>Departures\<close>

definition gone :: "engine \<Rightarrow> node_id \<Rightarrow> bool" where
  "gone e n \<longleftrightarrow> n \<notin> fst ` fst ` set (peers e)"

lemma retain_again: "retain P (retain Q m) = retain (\<lambda>k v. Q k v \<and> P k v) m"
  by (auto simp: retain_def intro: filter_cong)

lemma peers_peer_left [simp]: "peers (peer_left n e) = peers e"
  by (rule sans_audio_fields) simp

text \<open>The loop over the lost nodes in one step.\<close>

definition forget :: "(node_id \<Rightarrow> bool) \<Rightarrow> audio_state \<Rightarrow> audio_state" where
  "forget P a = a\<lparr>known := retain (\<lambda>_ kc. \<not> P (kc_peer kc)) (known a), paths := retain (\<lambda>(m, _) _. \<not> P m) (paths a)\<rparr>"

lemma forget_forget: "forget P (forget Q a) = forget (\<lambda>n. Q n \<or> P n) a"
  by (simp add: forget_def retain_again case_prod_unfold)

lemma peer_left_forget: "peer_left n e = e\<lparr>audio := map_option (forget (\<lambda>m. m = n)) (audio e)\<rparr>"
  by (simp add: peer_left_def forget_def split: option.split)

lemma departed_forget: "departed lost e = e\<lparr>audio := map_option (forget (\<lambda>n. n \<in> set lost \<and> gone e n)) (audio e)\<rparr>"
proof (induction lost arbitrary: e)
  case Nil
  have "forget (\<lambda>n. False) a = a" for a by (simp add: forget_def retain_def case_prod_unfold)
  then show ?case by (simp add: departed_def option.map_id0 [unfolded id_def] flip: option.map_comp)
next
  case (Cons n lost)
  have step: "departed (n # lost) e = departed lost (if gone e n then peer_left n e else e)"
    by (auto simp: departed_def gone_def image_image)
  show ?case
  proof (cases "gone e n")
    case True
    then have "(\<lambda>m. m = n \<or> m \<in> set lost \<and> gone e m) = (\<lambda>m. m \<in> set (n # lost) \<and> gone e m)" by auto
    with True Cons.IH [of "peer_left n e"] show ?thesis
      by (simp add: step gone_def peer_left_forget option.map_comp comp_def forget_forget)
  next
    case False
    then have "(\<lambda>m. m \<in> set lost \<and> gone e m) = (\<lambda>m. m \<in> set (n # lost) \<and> gone e m)" by auto
    with False Cons.IH [of e] show ?thesis by (simp add: step)
  qed
qed

section \<open>The loss of the last member\<close>

lemma check_session_loss_keeps:
  "peers (check_session_loss e) = peers e" "gateways (check_session_loss e) = gateways e"
  "pending (check_session_loss e) = pending e" "audio (check_session_loss e) = audio e"
proof -
  have "audio (schedule_broadcast e) = audio e" for e
    by (rule quiet_fields) simp
  then show "peers (check_session_loss e) = peers e" "gateways (check_session_loss e) = gateways e"
    "pending (check_session_loss e) = pending e" "audio (check_session_loss e) = audio e"
    by (simp_all add: check_session_loss_def reset_session_def now_def random_id_def panic_def Let_def split: option.split)
qed

lemma reset_session_runs:
  assumes "legal_tempo (tempo (timeline e))" and "fst (random_id e) = Some n"
  shows "panicked (reset_session e) = panicked e" "node (reset_session e) = n" "session (reset_session e) = n"
proof -
  obtain b where b: "beats_at_ghost (timeline e) (fst (now e) + ghost_offset e) = Some b"
    using beats_at_ghost_Some [OF assms(1)] by blast
  show "node (reset_session e) = n" "session (reset_session e) = n"
    by (rule reset_session_result [OF b assms(2)])+
  have "panicked (schedule_broadcast e) = panicked e" for e by (rule quiet_fields) simp
  then show "panicked (reset_session e) = panicked e"
    using b assms(2) by (simp add: reset_session_def now_def random_id_def Let_def)
qed

definition has_member_in :: "session_id \<Rightarrow> peers \<Rightarrow> bool" where
  "has_member_in s ps \<longleftrightarrow> list_ex (\<lambda>p. ps_session (pe_state (snd p)) = Some s) ps"

lemma has_member_list: "has_member e \<longleftrightarrow> has_member_in (session e) (peers e)"
  by (auto simp: has_member_def has_member_in_def list_ex_iff)

text \<open>C16: Closing an open gateway sends a ByeBye on it and removes its entry, its peer entries, its queued measurements, the
  channels and paths heard on it, and the channels and paths of the nodes that no other gateway reaches; nothing
  else changes: the timelines and clock offsets of other sessions stay, and so does a running measurement. If
  the peer has seen a member of its session and that leaves it none, it then founds a session under a fresh
  identifier, and only then; it notifies the housekeeping thread in any case.\<close>

theorem close_gateway_forgets:
  assumes "legal_tempo (tempo (timeline e))" and "\<not> panicked e" and "map_of (gateways e) i = Some gw"
    and "fst (random_id e) = Some n"
  shows "let left = filter (\<lambda>p. snd (fst p) \<noteq> i) (peers e);
      departed = fst ` fst ` set (peers e) - fst ` fst ` set left;
      e1 = e\<lparr>gateways := AList.delete i (gateways e),
        sent := sent e @ [Send_multicast (gw_id gw) (encode_disc (disc_bye_bye (node e)))],
        peers := left, pending := filter (\<lambda>t. mt_gateway t \<noteq> i) (pending e),
        audio := map_option (\<lambda>a. a\<lparr>known := filter (\<lambda>x. snd (fst x) \<noteq> i \<and> kc_peer (snd x) \<notin> departed) (known a),
          paths := filter (\<lambda>x. snd (fst x) \<noteq> i \<and> fst (fst x) \<notin> departed) (paths a)\<rparr>) (audio e)\<rparr>;
      lost = (session_member_seen e \<and> \<not> has_member_in (session e) left)
    in close_gateway i e = notify (if lost then reset_session e1 else e1) \<and>
      (node (close_gateway i e), session (close_gateway i e)) = (if lost then (n, n) else (node e, session e))"
proof -
  define left where "left = filter (\<lambda>p. snd (fst p) \<noteq> i) (peers e)"
  define D where "D = fst ` fst ` set (peers e) - fst ` fst ` set left"
  define lost where "lost = (session_member_seen e \<and> \<not> has_member_in (session e) left)"
  define ids where "ids = map (\<lambda>p. fst (fst p)) (filter (\<lambda>p. snd (fst p) = i) (peers e))"
  define e0 where "e0 = e\<lparr>gateways := AList.delete i (gateways e),
    sent := sent e @ [Send_multicast (gw_id gw) (encode_disc (disc_bye_bye (node e)))],
    peers := left, pending := filter (\<lambda>t. mt_gateway t \<noteq> i) (pending e)\<rparr>"
  define e1 where "e1 = e0\<lparr>audio := map_option (\<lambda>a. a\<lparr>known := filter (\<lambda>x. snd (fst x) \<noteq> i \<and> kc_peer (snd x) \<notin> D) (known a),
    paths := filter (\<lambda>x. snd (fst x) \<noteq> i \<and> fst (fst x) \<notin> D) (paths a)\<rparr>) (audio e)\<rparr>"
  have g: "gateway_closed i e0 = e0\<lparr>audio := map_option (\<lambda>a. a\<lparr>known := filter (\<lambda>x. snd (fst x) \<noteq> i) (known a),
      paths := filter (\<lambda>x. snd (fst x) \<noteq> i) (paths a)\<rparr>) (audio e)\<rparr>"
    by (simp add: e0_def gateway_closed_def retain_def case_prod_unfold split: option.split)
  have "peers (gateway_closed i e0) = left" unfolding g by (simp add: e0_def)
  then have "m \<in> set ids \<and> gone (gateway_closed i e0) m \<longleftrightarrow> m \<in> D" for m
    unfolding gone_def by (simp only: D_def left_def ids_def) force
  then have "departed ids (gateway_closed i e0) = e1"
    unfolding departed_forget
    by (simp add: g e1_def forget_def retain_def case_prod_unfold option.map_comp comp_def)
  moreover have "retain (\<lambda>(_, g) _. g \<noteq> i) (peers e) = left"
    by (simp add: left_def retain_def case_prod_unfold)
  ultimately have "close_gateway i e = and_then notify (check_session_loss e1)"
    using assms(3) by (simp add: close_gateway_def Let_def transmit_def e0_def ids_def)
  moreover have e1: "session e1 = session e" "node e1 = node e" "peers e1 = left" "session_member_seen e1 = session_member_seen e"
    "timeline e1 = timeline e" "panicked e1 = panicked e" "random_id e1 = (fst (random_id e), snd (random_id e1))"
    by (simp_all add: e1_def e0_def random_id_def)
  then have "check_session_loss e1 = (if lost then reset_session e1 else e1)"
    by (simp add: check_session_loss_def has_member_list lost_def)
  moreover have r: "panicked (reset_session e1) = panicked e1" "node (reset_session e1) = n" "session (reset_session e1) = n"
    using reset_session_runs [of e1 n] assms(1,4) e1 by (metis fst_conv)+
  ultimately have c: "close_gateway i e = notify (if lost then reset_session e1 else e1)"
    using assms(2) e1(6) by (simp add: and_then_def)
  moreover have "(node (close_gateway i e), session (close_gateway i e)) = (if lost then (n, n) else (node e, session e))"
    using r e1 by (simp add: c)
  ultimately show ?thesis
    unfolding Let_def by (simp add: e1_def e0_def D_def left_def [symmetric] lost_def)
qed

definition example_crowd :: engine where
  "example_crowd = (example_peer (Id 5))\<lparr>enabled := True, session := Id 6, session_member_seen := True,
     gateways := [(0, \<lparr>gw_id = 0, gw_addr = 1, gw_measurement = V4 1 2, gw_audio = V4 1 3\<rparr>)],
     peers := [((Id 6, 0), \<lparr>pe_state = \<lparr>ps_timeline = None, ps_session = Some (Id 6), ps_start_stop = None,
       ps_measurement_endpoint = None, ps_audio_endpoint = None\<rparr>, pe_deadline = 4000000\<rparr>)]\<rparr>"

lemma example_crowd_fields [simp]:
  "legal_tempo (tempo (timeline example_crowd))" "session example_crowd = Id 6"
  "session_member_seen example_crowd" "gateways example_crowd =
    [(0, \<lparr>gw_id = 0, gw_addr = 1, gw_measurement = V4 1 2, gw_audio = V4 1 3\<rparr>)]"
  "peers example_crowd = [((Id 6, 0), \<lparr>pe_state = \<lparr>ps_timeline = None, ps_session = Some (Id 6),
    ps_start_stop = None, ps_measurement_endpoint = None, ps_audio_endpoint = None\<rparr>, pe_deadline = 4000000\<rparr>)]"
  by (simp_all add: example_crowd_def example_peer_def new_engine_def Let_def)

lemma example_crowd_runs [simp]: "\<not> panicked example_crowd"
  by (simp add: example_crowd_def example_peer_def new_engine_def example_env_def Let_def)

lemma close_gateway_forgets_witness:
  "session (close_gateway 0 example_crowd) = Id 2 \<and> node (close_gateway 0 example_crowd) = Id 2"
proof -
  have "fst (random_id example_crowd) = Some (Id 2)"
    by (simp add: random_id_def example_crowd_def example_peer_def new_engine_def example_env_def Let_def)
  from close_gateway_forgets [OF _ _ _ this, of 0, unfolded Let_def, THEN conjunct2] show ?thesis
    by (simp add: has_member_in_def)
qed

section \<open>Pruning\<close>

text \<open>C17: Pruning is exact. A pass removes no peer whose time to live has not run out, leaves none that ran
  out a second ago or more, and asks to be called again no later than a second after the next one does.
  The deadlines are a second away from the end of the clock.\<close>

theorem pruning_exact:
  assumes "legal_tempo (tempo (timeline e))"
    and "list_all (\<lambda>p. sint (pe_deadline (snd p)) < 2 ^ 63 - 1000000) (peers e)"
    and "prune_step t (nx, e) = (nx', e')"
  shows "filter (\<lambda>p. sint t < sint (pe_deadline (snd p))) (peers e') =
      filter (\<lambda>p. sint t < sint (pe_deadline (snd p))) (peers e) \<and>
    list_all (\<lambda>p. sint t < sint (pe_deadline (snd p)) + 1000000 \<and>
      sint nx' \<le> sint (pe_deadline (snd p)) + 1000000) (peers e')"
proof -
  have pad: "sint (d + PRUNE_PADDING) = sint d + 1000000" if "sint d < 2 ^ 63 - 1000000" for d :: i64
    using that i64_range [of d] by (subst sint_add_i64) (simp_all add: PRUNE_PADDING_def)
  have pp: "peers (prune_peers t e) = filter (\<lambda>p. t <s pe_deadline (snd p)) (peers e)"
    using assms(1) by (simp add: prune_peers_def Let_def check_session_loss_keeps departed_forget retain_def
        case_prod_unfold)
  have mem: "pe_deadline (snd p) \<in> set (peer_deadlines e0)" if "p \<in> set (peers e0)" for p e0
    using that by (force simp: peer_deadlines_def case_prod_unfold)
  show ?thesis
  proof (cases "prune_due t (peer_deadlines e)")
    case True
    then have "peers e \<noteq> []" by (auto simp: prune_due_def peer_deadlines_def min_signed_def)
    with True assms(3) have e': "e' = prune_peers t e" "nx' = next_prune (peer_deadlines e') nx"
      by (auto simp: prune_step_def Let_def)
    have "sint nx' \<le> sint (pe_deadline (snd q)) + 1000000" if q: "q \<in> set (peers e')" for q
    proof -
      obtain m where m: "min_signed (peer_deadlines e') = Some m" "sint m \<le> sint (pe_deadline (snd q))"
        using mem [OF q] min_signed_le min_signed_None by (metis empty_iff empty_set not_None_eq)
      have "sint (pe_deadline (snd q)) < 2 ^ 63 - 1000000"
        using q assms(2) unfolding e'(1) pp by (auto simp: list_all_iff)
      then show ?thesis using m by (simp add: e'(2) next_prune_def pad)
    qed
    then show ?thesis unfolding e'(1) pp by (auto simp: list_all_iff word_sless_alt)
  next
    case False
    have e': "peers e' = peers e"
      using assms(3) False by (auto simp: prune_step_def split: if_splits)
    have "sint t < sint (pe_deadline (snd q)) + 1000000 \<and> sint nx' \<le> sint (pe_deadline (snd q)) + 1000000"
      if q: "q \<in> set (peers e)" for q
    proof -
      obtain m where m: "min_signed (peer_deadlines e) = Some m" "sint m \<le> sint (pe_deadline (snd q))"
        using mem [OF q] min_signed_le min_signed_None by (metis empty_iff empty_set not_None_eq)
      have "sint (pe_deadline (snd q)) < 2 ^ 63 - 1000000" using q assms(2) by (auto simp: list_all_iff)
      moreover have "nx' = next_prune (peer_deadlines e) nx"
        using assms(3) False q by (auto simp: prune_step_def split: if_splits)
      ultimately show ?thesis using m False by (simp add: prune_due_def next_prune_def pad word_sle_eq)
    qed
    then show ?thesis by (simp add: e' list_all_iff)
  qed
qed

lemma pruning_exact_witness:
  "peers (snd (prune_step 5000000 (5250000, example_crowd))) = []"
proof -
  obtain nx' e' where r: "prune_step 5000000 (5250000, example_crowd) = (nx', e')"
    by (cases "prune_step 5000000 (5250000, example_crowd)")
  have "filter (\<lambda>p. 5000000 < sint (pe_deadline (snd p))) (peers e') = [] \<and>
      list_all (\<lambda>p. 5000000 < sint (pe_deadline (snd p)) + 1000000 \<and>
        sint nx' \<le> sint (pe_deadline (snd p)) + 1000000) (peers e')"
    using pruning_exact [OF _ _ r] by simp
  moreover have "set (peers e') \<subseteq> set (peers example_crowd)"
    using r by (auto simp: prune_step_def prune_peers_def check_session_loss_keeps departed_forget retain_def
        Let_def split: if_splits)
  ultimately show ?thesis unfolding r by (cases "peers e'") auto
qed

section \<open>The answer to an Alive\<close>

definition outgoing :: "engine \<Rightarrow> engine \<Rightarrow> bool" where
  "outgoing e e' \<longleftrightarrow> prefix (sent e) (sent e')"

lemma outgoing_refl [simp]: "outgoing e e"
  by (simp add: outgoing_def)

lemma outgoing_trans [trans]: "outgoing e e' \<Longrightarrow> outgoing e' e'' \<Longrightarrow> outgoing e e''"
  unfolding outgoing_def by (rule prefix_order.trans)

lemma outgoing_same: "sent e' = sent e \<Longrightarrow> outgoing e e'"
  by (simp add: outgoing_def)

lemma outgoing_into:
  "sent e1 = sent e \<Longrightarrow> outgoing e1 e' \<Longrightarrow> outgoing e e'"
  by (simp add: outgoing_def)

lemma outgoing_basic [simp]:
  "outgoing e (transmit msgs e)" "outgoing e (notify e)" "outgoing e (snd (now e))"
  "outgoing e (schedule_broadcast e)" "outgoing e (panic e)"
  by (simp_all add: outgoing_def transmit_def notify_def now_def panic_def schedule_broadcast_def send_alive_def)

lemma outgoing_broadcast [simp]: "sent e1 = sent e \<Longrightarrow> outgoing e (schedule_broadcast e1)"
  by (erule outgoing_into) simp

lemma outgoing_gossip [simp]:
  "outgoing e (adopt_timeline l e)" "outgoing e (adopt_start_stop s e)" "outgoing e (cache_timeline i l e)"
  "outgoing e (record_peer g n ttl ps e)" "outgoing e (evaluate_join i o' e)"
  by (simp_all add: adopt_timeline_def adopt_start_stop_def cache_timeline_def record_peer_def evaluate_join_def
      now_def Let_def split: option.split)
    (simp_all add: outgoing_def notify_def)

lemma outgoing_start_next [simp]: "outgoing e (start_next_measurement e)"
  by (simp add: start_next_measurement_def now_def transmit_def notify_def outgoing_def Let_def
      split: list.split option.split)

lemma outgoing_queue [simp]: "outgoing e (queue_measurement g i ps p e)"
  by (auto simp: queue_measurement_def Let_def intro: outgoing_into [OF _ outgoing_start_next] split: option.split)

lemma outgoing_departures [simp]: "outgoing e (peer_left n e)" "outgoing e (check_session_loss e)"
  by (simp_all add: peer_left_def check_session_loss_def reset_session_def now_def random_id_def Let_def
      split: option.split)
    (simp_all add: outgoing_def panic_def)

lemma outgoing_process [simp]: "outgoing e (process_peer_state g n ttl ps e)"
proof -
  have "outgoing e (adopt_start_stop s (adopt_timeline l (e\<lparr>session_member_seen := True\<rparr>)))" for e s l
    by (rule outgoing_into [OF _ outgoing_trans [OF outgoing_gossip(1) outgoing_gossip(2)]]) simp
  moreover have "outgoing (cache_timeline i l e) (case map_of (measured (cache_timeline i l e)) i of
      Some offset \<Rightarrow> evaluate_join i offset (cache_timeline i l e)
    | None \<Rightarrow> queue_measurement g i ps Join (cache_timeline i l e))" for e i l
    by (simp split: option.split)
  note outgoing_trans [OF outgoing_gossip(3) this]
  ultimately have "outgoing e (follow_session g ps i e)" for e i by (simp add: follow_session_def Let_def)
  then show ?thesis
    by (auto simp: process_peer_state_def Let_def intro: outgoing_trans [OF outgoing_gossip(4)] split: option.split)
qed

lemma outgoing_bye [simp]: "outgoing e (handle_bye n g e)"
proof -
  have "outgoing e (check_session_loss (peer_left n (e\<lparr>peers := ps\<rparr>)))" for ps
    by (rule outgoing_into [OF _ outgoing_trans [OF outgoing_departures]]) simp
  then show ?thesis by (simp add: handle_bye_def and_then_def outgoing_trans [OF _ outgoing_basic(2)])
qed

text \<open>C18: An Alive is answered whatever follows its header. The first datagram that an enabled peer sends on
  receiving one from another node of its group, over an open gateway, is a unicast to the sender that
  decodes to a Response with the peer's identity and its state from before the Alive, also when the
  payload of the Alive is malformed.\<close>

theorem alive_always_answered:
  assumes "enabled e" and "map_of (gateways e) g = Some gw" and "decode_header buf = Inr h"
    and "is_alive h" and "h_node h \<noteq> node e" and "h_group_id h = 0"
    and "wire_peer_state (build_state e gw)"
  shows "\<exists>answer more. sent (handle_discovery_datagram g src buf e) =
      sent e @ Send_unicast (gw_id gw) answer src # more \<and>
    decode_disc answer = Inr (disc_response (node e) (build_state e gw))"
proof -
  let ?answer = "encode_disc (disc_response (node e) (build_state e gw))"
  let ?e = "respond g src e"
  have "outgoing ?e (handle_discovery_datagram g src buf e)"
    using assms(1,3-6)
    by (simp add: handle_discovery_datagram_def Let_def split: sum.split disc_message.split)
  then have "prefix (sent e @ [Send_unicast (gw_id gw) ?answer src]) (sent (handle_discovery_datagram g src buf e))"
    using assms(2) by (simp add: outgoing_def respond_def transmit_def)
  then have "\<exists>more. sent (handle_discovery_datagram g src buf e) = sent e @ Send_unicast (gw_id gw) ?answer src # more"
    by (auto simp: prefix_def)
  moreover have "decode_disc ?answer = Inr (disc_response (node e) (build_state e gw))"
    by (rule decode_encode_disc) (simp add: disc_response_def assms(7))
  ultimately show ?thesis by blast
qed

lemma alive_always_answered_witness:
  "\<exists>answer more. sent (handle_discovery_datagram 0 (V4 9 9)
      (DISC_MAGIC @ [TYPE_ALIVE, 5] @ to_be 2 (0 :: u16) @ id_bytes (Id 7) @ [1, 2, 3]) example_crowd) =
      sent example_crowd @ Send_unicast 0 answer (V4 9 9) # more \<and>
    decode_disc answer = Inr (disc_response (node example_crowd)
      (build_state example_crowd \<lparr>gw_id = 0, gw_addr = 1, gw_measurement = V4 1 2, gw_audio = V4 1 3\<rparr>))"
proof -
  have e: "enabled example_crowd" "node example_crowd = Id 5" "audio example_crowd = None"
    by (simp_all add: example_crowd_def example_peer_def new_engine_def Let_def)
  show ?thesis
    using alive_always_answered [of example_crowd 0
        "\<lparr>gw_id = 0, gw_addr = 1, gw_measurement = V4 1 2, gw_audio = V4 1 3\<rparr>", OF _ _ decode_header_prefix]
    by (simp add: e is_alive_def wire_peer_state_def build_state_def)
qed

end
