(* ===== verification/Schedule.thy ===== *)
theory Schedule
  imports Threads Membership
begin

text \<open>
  When the housekeeping thread of \<^verbatim>\<open>crates/tactus/src/runtime.rs\<close> looks at the peer again: the time that a
  pass of \<^verbatim>\<open>crates/tactus/src/engine.rs\<close> asks for is no later than the deadlines that the pass found, and
  it can be later than one that the pass itself has set.
\<close>

section \<open>The earliest of some deadlines\<close>

lemma sint_add_period: "0 \<le> sint p \<Longrightarrow> sint ((d :: i64) + p) \<le> sint d + sint p"
  using sint_ge [of d] by (simp add: sint_word_ariths signed_take_bit_int_less_eq_self_iff)

lemma sint_periods [simp]:
  "sint ALIVE_PERIOD = 250000" "sint PRUNE_PADDING = 1000000" "sint ANNOUNCE_PERIOD = 250000"
  "sint REQUEST_PERIOD = 5000000"
  by (simp_all add: ALIVE_PERIOD_def PRUNE_PADDING_def ANNOUNCE_PERIOD_def REQUEST_PERIOD_def)

lemma next_prune_le: "sint (next_prune ds nx) \<le> sint nx"
  by (simp add: next_prune_def split: option.split)

lemma next_prune_deadline:
  assumes "d \<in> set ds"
  shows "sint (next_prune ds nx) \<le> sint d + 1000000"
proof -
  obtain m where "min_signed ds = Some m" using assms min_signed_None by fastforce
  then show ?thesis
    using min_signed_le [OF _ assms] sint_add_period [of PRUNE_PADDING m] by (auto simp: next_prune_def)
qed

lemma foldl_earliest:
  assumes "\<And>n x. sint (f n x) \<le> sint n" and "\<And>n x. x \<in> set xs \<Longrightarrow> P x (sint (f n x))"
    and "\<And>i j x. i \<le> j \<Longrightarrow> P x j \<Longrightarrow> P x i"
  shows "sint (foldl f n xs) \<le> sint n \<and> (\<forall>x \<in> set xs. P x (sint (foldl f n xs)))"
  using assms(2)
proof (induction xs arbitrary: n)
  case (Cons x xs)
  then have "sint (foldl f (f n x) xs) \<le> sint (f n x) \<and> (\<forall>y \<in> set xs. P y (sint (foldl f (f n x) xs)))" by simp
  then show ?case using assms(1) [of n x] assms(3) Cons.prems [of x n] by (auto dest: order_trans)
qed simp

section \<open>What the steps of a pass keep\<close>

lemma session_loss_keeps_timers:
  "measurement (check_session_loss e) = measurement e"
  by (simp add: check_session_loss_def reset_session_def now_def random_id_def panic_def Let_def
      schedule_broadcast_def send_alive_def transmit_def notify_def split: option.split)

lemma departed_keeps_timers: "measurement (departed lost e) = measurement e"
  by (simp add: departed_forget)

lemma prune_step_timers:
  "measurement (snd (prune_step t (nx, e))) = measurement e"
  "\<not> prune_due t (peer_deadlines e) \<Longrightarrow> snd (prune_step t (nx, e)) = e"
  "sint (fst (prune_step t (nx, e))) \<le> sint nx"
  by (auto simp: prune_step_def prune_peers_def Let_def session_loss_keeps_timers departed_keeps_timers
      next_prune_def split: option.split)

lemma prune_step_deadlines:
  assumes "prune_step t (nx, e) = (nx', e')" and "p \<in> snd ` set (peers e')"
  shows "sint nx' \<le> sint (pe_deadline p) + 1000000"
proof -
  have "nx' = next_prune (peer_deadlines e') nx"
    using assms by (auto simp: prune_step_def Let_def split: if_splits)
  then show ?thesis using assms(2) by (force simp: peer_deadlines_def intro!: next_prune_deadline)
qed

lemma start_next_timers:
  "broadcast_due (start_next_measurement e) = broadcast_due e"
  "next_remeasure_at (start_next_measurement e) = next_remeasure_at e"
  "measurement e = Some m \<Longrightarrow> measurement (start_next_measurement e) = Some m"
  by (simp_all add: start_next_measurement_def now_def transmit_def notify_def Let_def
      split: list.split option.split)

lemma queue_remeasure_timers:
  "broadcast_due (queue_remeasure e) = broadcast_due e" "measurement (queue_remeasure e) = measurement e"
  by (simp_all add: queue_remeasure_def Let_def split: option.split)

lemma retry_step_timers:
  "broadcast_due (snd (retry_step t (nx, e))) = broadcast_due e"
  "sint (fst (retry_step t (nx, e))) \<le> sint nx"
  by (auto simp: retry_step_def Let_def measurement_failed_def start_next_timers send_ping_def transmit_def now_def
      split: option.split purpose.split)

lemma retry_step_running:
  assumes "measurement e = Some m" and "\<not> (m_retry_deadline m \<le>s t \<and> MAX_MEASUREMENT_RETRIES \<le> m_timeouts m)"
  shows "\<exists>m'. measurement (snd (retry_step t (nx, e))) = Some m' \<and>
    sint (fst (retry_step t (nx, e))) \<le> sint (m_retry_deadline m')"
  using assms by (auto simp: retry_step_def Let_def send_ping_def transmit_def split: option.split)

lemma remeasure_step_timers:
  "broadcast_due (snd (remeasure_step t (nx, e))) = broadcast_due e"
  "measurement (snd (remeasure_step t (nx, e))) = measurement e"
  "sint (fst (remeasure_step t (nx, e))) \<le> sint nx"
  "pred_option (\<lambda>d. sint (fst (remeasure_step t (nx, e))) \<le> sint d)
     (next_remeasure_at (snd (remeasure_step t (nx, e))))"
  by (auto simp: remeasure_step_def queue_remeasure_timers split: option.split)

lemma broadcast_step_timers:
  "measurement (snd (broadcast_step t (nx, e))) = measurement e"
  "peers (snd (broadcast_step t (nx, e))) = peers e"
  "sint (fst (broadcast_step t (nx, e))) \<le> sint nx"
  "pred_option (\<lambda>d. sint (fst (broadcast_step t (nx, e))) \<le> sint d)
     (broadcast_due (snd (broadcast_step t (nx, e))))"
  by (auto simp: broadcast_step_def send_alive_def transmit_def split: option.split)

lemma alive_step_timers:
  "measurement (alive_step t e) = measurement e" "peers (alive_step t e) = peers e"
  by (simp_all add: alive_step_def send_alive_def transmit_def)

lemma broadcast_step_alive:
  "last_alive_at (snd (broadcast_step t (nx, e))) = last_alive_at e \<or> last_alive_at (snd (broadcast_step t (nx, e))) = t"
  by (simp add: broadcast_step_def send_alive_def transmit_def split: option.split)

lemma start_next_alive:
  "last_alive_at (start_next_measurement e) = last_alive_at e" "peers (start_next_measurement e) = peers e"
  by (simp_all add: start_next_measurement_def now_def transmit_def notify_def Let_def split: list.split option.split)

lemma later_steps_alive:
  "last_alive_at (snd (retry_step t (nx, e))) = last_alive_at e" "peers (snd (retry_step t (nx, e))) = peers e"
  "last_alive_at (snd (remeasure_step t (nx, e))) = last_alive_at e" "peers (snd (remeasure_step t (nx, e))) = peers e"
  by (auto simp: retry_step_def remeasure_step_def queue_remeasure_def Let_def measurement_failed_def send_ping_def
      transmit_def now_def start_next_alive split: option.split purpose.split)

text \<open>The audio half of the engine sends, and keeps the timers of the other half.\<close>

lemma sends_keep_timers: "broadcast_due (send_all ms e) = broadcast_due e" "last_alive_at (send_all ms e) = last_alive_at e"
  "broadcast_due (send_request ch stop e) = broadcast_due e" "last_alive_at (send_request ch stop e) = last_alive_at e"
proof -
  have v: "broadcast_due (send_via gw bs dst e) = broadcast_due e"
    "last_alive_at (send_via gw bs dst e) = last_alive_at e" for gw bs dst e
    by (simp_all add: send_via_def transmit_def split: option.split)
  show "broadcast_due (send_all ms e) = broadcast_due e" "last_alive_at (send_all ms e) = last_alive_at e"
    unfolding send_all_def by (induction ms arbitrary: e) (auto simp: v)
  show "broadcast_due (send_request ch stop e) = broadcast_due e" "last_alive_at (send_request ch stop e) = last_alive_at e"
    by (simp_all add: send_request_def v Let_def split: option.split)
qed

lemma requests_keep:
  "broadcast_due (foldl (\<lambda>e i. send_request i False e) e due) = broadcast_due e"
  "last_alive_at (foldl (\<lambda>e i. send_request i False e) e due) = last_alive_at e"
  "audio (foldl (\<lambda>e i. send_request i False e) e due) = audio e"
  by (induction due arbitrary: e) (simp_all add: sends_keep_timers)

lemma audio_housekeeping_timers: "broadcast_due (snd (audio_housekeeping t e)) = broadcast_due e"
  "last_alive_at (snd (audio_housekeeping t e)) = last_alive_at e"
  by (simp_all add: audio_housekeeping_def audio_expire_def announce_def Let_def requests_keep sends_keep_timers
      split: option.split)

text \<open>The next deadline of the audio half is none of its own.\<close>

definition audio_deadlines_kept :: "int \<Rightarrow> audio_state \<Rightarrow> bool" where
  "audio_deadlines_kept n a \<longleftrightarrow> n \<le> sint (last_announce_at a) + 250000 \<and>
    (\<forall>s \<in> snd ` set (sources a). n \<le> sint (last_request_at s) + 5000000) \<and>
    (\<forall>k \<in> set (sinks a). \<forall>d \<in> snd ` set (requesters k). n \<le> sint d + 1000000) \<and>
    (\<forall>kc \<in> snd ` set (known a). n \<le> sint (kc_deadline kc) + 1000000)"

lemma audio_expire_next:
  assumes "audio_expire t nx e = (an, e')" and "audio e' = Some a"
  obtains b where "audio e = Some b" and "last_announce_at a = last_announce_at b" and "sources a = sources b"
    and "sint an \<le> sint nx" and "\<forall>k \<in> set (sinks a). \<forall>d \<in> snd ` set (requesters k). sint an \<le> sint d + 1000000"
    and "\<forall>kc \<in> snd ` set (known a). sint an \<le> sint (kc_deadline kc) + 1000000"
proof -
  obtain b where b: "audio e = Some b" using assms by (auto simp: audio_expire_def split: option.splits)
  define n1 where "n1 = foldl (\<lambda>n k. next_prune (map snd (requesters k)) n) nx (sinks a)"
  from assms b have a: "a = b\<lparr>sinks := map (expire_requesters t) (sinks b), known := expire_known t (known b)\<rparr>"
    and an: "an = next_prune (map (\<lambda>(_, k). kc_deadline k) (known a)) n1"
    by (auto simp: audio_expire_def n1_def Let_def)
  have n1: "sint n1 \<le> sint nx \<and> (\<forall>k \<in> set (sinks a). \<forall>d \<in> snd ` set (requesters k). sint n1 \<le> sint d + 1000000)"
    unfolding n1_def by (rule foldl_earliest) (auto intro: next_prune_le order_trans intro!: next_prune_deadline rev_image_eqI)
  have le: "sint an \<le> sint n1" by (simp add: an next_prune_le)
  show ?thesis
  proof (rule that [OF b])
    show "sint an \<le> sint nx" using n1 le by force
    show "\<forall>k \<in> set (sinks a). \<forall>d \<in> snd ` set (requesters k). sint an \<le> sint d + 1000000"
      using n1 le by force
    show "\<forall>kc \<in> snd ` set (known a). sint an \<le> sint (kc_deadline kc) + 1000000"
      by (force simp: an intro!: next_prune_deadline)
  qed (simp_all add: a)
qed

lemma audio_housekeeping_next:
  assumes "audio_housekeeping t e = (an, e')" and "audio e' = Some a"
  shows "audio_deadlines_kept (sint an) a"
proof -
  obtain b where b: "audio e = Some b"
    using assms by (auto simp: audio_housekeeping_def split: option.splits)
  define due where "due = (last_announce_at b + ANNOUNCE_PERIOD \<le>s t)"
  define nx where "nx = (if due then t + ANNOUNCE_PERIOD else last_announce_at b + ANNOUNCE_PERIOD)"
  define e1 where "e1 = (if due then announce t e else e)"
  define srcs where "srcs = touch_requests t (sources b)"
  define n2 where "n2 = foldl (\<lambda>n (_, s). smin n (last_request_at s + REQUEST_PERIOD)) nx srcs"
  define e2 where "e2 = foldl (\<lambda>e i. send_request i False e) (e1\<lparr>audio := map_option (\<lambda>a. a\<lparr>sources := srcs\<rparr>) (audio e1)\<rparr>)
    (map fst (filter (\<lambda>(_, s). request_due t s) (iter_sources (env e1) (sources b))))"
  have ex: "audio_expire t n2 e2 = (an, e')"
    using assms(1)
    by (simp add: audio_housekeeping_def b due_def nx_def e1_def srcs_def n2_def e2_def Let_def cong: if_cong)
  obtain c where e2: "audio e2 = Some c" "last_announce_at a = last_announce_at c" "sources a = sources c"
    and an: "sint an \<le> sint n2" "\<forall>k \<in> set (sinks a). \<forall>d \<in> snd ` set (requesters k). sint an \<le> sint d + 1000000"
      "\<forall>kc \<in> snd ` set (known a). sint an \<le> sint (kc_deadline kc) + 1000000"
    using audio_expire_next [OF ex assms(2)] .
  obtain d where d: "audio e1 = Some d" "last_announce_at d + ANNOUNCE_PERIOD = nx"
    by (cases due) (auto simp: e1_def nx_def announce_def b Let_def)
  have c: "last_announce_at c = last_announce_at d" "sources c = srcs"
    using e2(1) d by (auto simp: e2_def requests_keep)
  have n2: "sint n2 \<le> sint nx \<and> (\<forall>x \<in> set srcs. sint n2 \<le> sint (last_request_at (snd x)) + 5000000)"
    unfolding n2_def
    by (rule foldl_earliest) (auto intro: order_trans [OF _ sint_add_period [of REQUEST_PERIOD, simplified]] simp: min_le_iff_disj)
  show ?thesis
    using an n2 sint_add_period [of ANNOUNCE_PERIOD "last_announce_at d"] d(2)
    by (force simp: audio_deadlines_kept_def e2 c)
qed

text \<open>The states between the steps of a pass.\<close>

lemma pass_parts:
  assumes "enabled e"
  obtains t e0 n1 n2 e2 n3 e3 n4 e4 n5 e5 an e7 where "now e = (t, e0)"
    and "n1 = smin (t + ALIVE_PERIOD) (last_alive_at (alive_step t e0) + ALIVE_PERIOD)"
    and "broadcast_step t (n1, alive_step t e0) = (n2, e2)" and "prune_step t (n2, e2) = (n3, e3)"
    and "retry_step t (n3, e3) = (n4, e4)" and "remeasure_step t (n4, e4) = (n5, e5)"
    and "audio_housekeeping t (start_next_measurement e5) = (an, e7)"
    and "housekeeping_pass e = (if panicked e3 then (n3, e3) else (smin n5 an, e7))"
proof -
  obtain t e0 where e0: "now e = (t, e0)" by (cases "now e")
  define e1 where "e1 = alive_step t e0"
  define n1 where "n1 = smin (t + ALIVE_PERIOD) (last_alive_at e1 + ALIVE_PERIOD)"
  obtain n2 e2 where s2: "broadcast_step t (n1, e1) = (n2, e2)" by (cases "broadcast_step t (n1, e1)")
  obtain n3 e3 where s3: "prune_step t (n2, e2) = (n3, e3)" by (cases "prune_step t (n2, e2)")
  obtain n4 e4 where s4: "retry_step t (n3, e3) = (n4, e4)" by (cases "retry_step t (n3, e3)")
  obtain n5 e5 where s5: "remeasure_step t (n4, e4) = (n5, e5)" by (cases "remeasure_step t (n4, e4)")
  obtain an e7 where s7: "audio_housekeeping t (start_next_measurement e5) = (an, e7)"
    by (cases "audio_housekeeping t (start_next_measurement e5)")
  have "enabled e0" using assms e0 by (auto simp: now_def)
  then have "housekeeping_pass e = (if panicked e3 then (n3, e3) else (smin n5 an, e7))"
    by (simp add: housekeeping_pass_def e0 Let_def e1_def [symmetric] n1_def [symmetric] s2 s3 s4 s5 s7)
  from that [OF e0 _ s2 [unfolded e1_def] s3 s4 s5 s7 this] show thesis by (simp add: n1_def e1_def)
qed

section \<open>The next pass comes in time\<close>

text \<open>C32: The time at which a pass asks to be called again is in time. It is at most an Alive period away; it is
  not after the next re-measurement, and not after the retry of a measurement that was running and goes on;
  it is at most a second (the padding of pruning) after the end of the time to live of any peer that is
  left; and where the peer runs LinkAudio, at most an announcement period after the last announcement, at
  most five seconds after the last request of any subscription, and at most a second after the end of any
  requester and of any known channel that is left. Unless the pass has pruned peers, it is not after a
  delayed broadcast that is pending and at most an Alive period after the last Alive. A pass that prunes
  may found a new session, whose Alive and broadcast it does not take into account; nor does a pass take
  the retry of a measurement into account that it starts itself.\<close>

theorem next_pass_in_time:
  assumes "housekeeping_pass e = (nx, e')" and "enabled e" and "\<not> panicked e'"
  defines "t \<equiv> fst (now e)"
  shows "sint nx \<le> sint (t + ALIVE_PERIOD) \<and>
    pred_option (\<lambda>d. sint nx \<le> sint d) (next_remeasure_at e') \<and>
    (case measurement e of None \<Rightarrow> True | Some m \<Rightarrow>
      (m_retry_deadline m \<le>s t \<and> MAX_MEASUREMENT_RETRIES \<le> m_timeouts m) \<or>
      (\<exists>m'. measurement e' = Some m' \<and> sint nx \<le> sint (m_retry_deadline m'))) \<and>
    (\<forall>p \<in> snd ` set (peers e'). sint nx \<le> sint (pe_deadline p) + 1000000) \<and>
    pred_option (audio_deadlines_kept (sint nx)) (audio e') \<and>
    (prune_due t (peer_deadlines e) \<or>
      pred_option (\<lambda>d. sint nx \<le> sint d) (broadcast_due e') \<and> sint nx \<le> sint (last_alive_at e') + 250000)"
proof -
  obtain e0 n1 n2 e2 n3 e3 n4 e4 n5 e5 an e7 where e0: "now e = (t, e0)"
    and n1: "n1 = smin (t + ALIVE_PERIOD) (last_alive_at (alive_step t e0) + ALIVE_PERIOD)"
    and s2: "broadcast_step t (n1, alive_step t e0) = (n2, e2)" and s3: "prune_step t (n2, e2) = (n3, e3)"
    and s4: "retry_step t (n3, e3) = (n4, e4)" and s5: "remeasure_step t (n4, e4) = (n5, e5)"
    and s7: "audio_housekeeping t (start_next_measurement e5) = (an, e7)"
    and pass: "housekeeping_pass e = (if panicked e3 then (n3, e3) else (smin n5 an, e7))"
    by (rule pass_parts [OF assms(2)]) (auto simp: t_def)
  have now: "measurement e0 = measurement e" "peers e0 = peers e" using e0 by (auto simp: now_def)
  from pass assms(1,3) have e': "e' = e7" and nx: "sint nx \<le> sint n5" "sint nx \<le> sint an"
    by (auto split: if_splits)
  note b2 = broadcast_step_timers [where t = t and nx = n1 and e = "alive_step t e0", unfolded s2 fst_conv snd_conv]
  note b3 = prune_step_timers [where t = t and nx = n2 and e = e2, unfolded s3 fst_conv snd_conv]
  note b4 = retry_step_timers [where t = t and nx = n3 and e = e3, unfolded s4 fst_conv snd_conv]
  note b5 = remeasure_step_timers [where t = t and nx = n4 and e = e4, unfolded s5 fst_conv snd_conv]
  note l4 = later_steps_alive(1,2) [where t = t and nx = n3 and e = e3, unfolded s4 snd_conv]
  note l5 = later_steps_alive(3,4) [where t = t and nx = n4 and e = e4, unfolded s5 snd_conv]
  have "sans_audio e7 = sans_audio (start_next_measurement e5)"
    using audio_housekeeping_frame [of t "start_next_measurement e5"] s7 by simp
  note f = sans_audio_fields [OF this]
  have m3: "measurement e3 = measurement e"
    using b2(1) b3(1) now(1) by (simp add: alive_step_timers)
  have d2: "peer_deadlines e2 = peer_deadlines e"
    using b2(2) now(2) by (simp add: alive_step_timers peer_deadlines_def)
  have "sint nx \<le> sint (t + ALIVE_PERIOD)" using nx n1 b2(3) b3(3) b4(2) b5(3) by simp
  moreover have "pred_option (\<lambda>d. sint nx \<le> sint d) (next_remeasure_at e7)"
    using b5(4) nx f by (auto simp: start_next_timers elim!: option.pred_mono_strong)
  moreover have "\<exists>m'. measurement e7 = Some m' \<and> sint nx \<le> sint (m_retry_deadline m')"
    if m: "measurement e = Some m" "\<not> (m_retry_deadline m \<le>s t \<and> MAX_MEASUREMENT_RETRIES \<le> m_timeouts m)" for m
  proof -
    obtain m' where m': "measurement e4 = Some m'" "sint n4 \<le> sint (m_retry_deadline m')"
      using retry_step_running [of e3 m t n3] m m3 s4 by auto
    then have "measurement e7 = Some m'" using b5(2) f by (simp add: start_next_timers)
    with m'(2) nx b5(3) show ?thesis by force
  qed
  moreover have "sint nx \<le> sint (pe_deadline p) + 1000000" if "p \<in> snd ` set (peers e7)" for p
  proof -
    have "p \<in> snd ` set (peers e3)" using that f l4(2) l5(2) by (simp add: start_next_alive)
    then have "sint n3 \<le> sint (pe_deadline p) + 1000000" by (rule prune_step_deadlines [OF s3])
    then show ?thesis using nx b4(2) b5(3) by linarith
  qed
  moreover have "pred_option (audio_deadlines_kept (sint nx)) (audio e7)"
    using audio_housekeeping_next [OF s7] nx(2)
    by (fastforce simp: audio_deadlines_kept_def option.pred_set)
  moreover have "pred_option (\<lambda>d. sint nx \<le> sint d) (broadcast_due e7) \<and> sint nx \<le> sint (last_alive_at e7) + 250000"
    if "\<not> prune_due t (peer_deadlines e)"
  proof -
    have "e3 = e2" using b3(2) that d2 by simp
    then have e7: "broadcast_due e7 = broadcast_due e2" "last_alive_at e7 = last_alive_at e2"
      using b4(1) b5(1) l4(1) l5(1) audio_housekeeping_timers [of t "start_next_measurement e5"] s7
      by (simp_all add: start_next_timers start_next_alive)
    have "sint nx \<le> sint n2" "sint nx \<le> sint n1" using nx b2(3) b3(3) b4(2) b5(3) by linarith+
    moreover have "last_alive_at e2 = last_alive_at (alive_step t e0) \<or> last_alive_at e2 = t"
      using broadcast_step_alive [of t n1 "alive_step t e0"] s2 by simp
    then have "sint n1 \<le> sint (last_alive_at e2) + 250000"
      using sint_add_period [of ALIVE_PERIOD t] sint_add_period [of ALIVE_PERIOD "last_alive_at e2"] by (auto simp: n1)
    ultimately show ?thesis using b2(4) by (auto simp: e7 elim!: option.pred_mono_strong)
  qed
  ultimately show ?thesis by (auto simp: e' split: option.split)
qed

definition example_member_state :: peer_state where
  "example_member_state = \<lparr>ps_timeline = None, ps_session = Some (Id 9), ps_start_stop = None,
     ps_measurement_endpoint = Some (V4 0x7F000001 4000), ps_audio_endpoint = None\<rparr>"

text \<open>A peer of the session \<open>Id 9\<close> on one gateway that hears one member, whose re-measurement is due.\<close>

definition example_due :: engine where
  "example_due = (new_engine (Fin 120) example_config (example_env\<lparr>env_clock := (\<lambda>n. 5000000 + of_nat n)\<rparr>))
     \<lparr>enabled := True, session := Id 9, session_member_seen := True, last_alive_at := 4950000,
      gateways := [(0, \<lparr>gw_id = 0, gw_addr = LOCALHOST, gw_measurement = V4 LOCALHOST 1, gw_audio = V4 LOCALHOST 2\<rparr>)],
      peers := [((Id 9, 0), \<lparr>pe_state = example_member_state, pe_deadline = 9000000\<rparr>)],
      next_remeasure_at := Some 5000000\<rparr>"

lemma example_due_pass:
  "\<exists>e' m. housekeeping_pass example_due = (5200000, e') \<and> measurement e' = Some m \<and> m_retry_deadline m = 5050001 \<and>
    m_timeouts m = 0 \<and> now e' = (5000002, snd (now e')) \<and> \<not> panicked e'"
  by (simp add: housekeeping_pass_def example_due_def new_engine_def now_def example_env_def example_config_def Let_def
      alive_step_def broadcast_step_def prune_step_def peer_deadlines_def prune_due_def min_signed_def next_prune_def
      smin_def retry_step_def remeasure_step_def queue_remeasure_def measuring_def find_endpoint_def or_else_def
      example_member_state_def start_next_measurement_def transmit_def notify_def audio_housekeeping_def
      ALIVE_PERIOD_def PRUNE_PADDING_def REMEASURE_PERIOD_def MEASUREMENT_RETRY_def)

lemma next_pass_in_time_witness:
  "\<exists>e'. housekeeping_pass example_due = (5200000, e') \<and> pred_option (\<lambda>d. 5200000 \<le> sint d) (next_remeasure_at e')"
proof -
  obtain e' where e': "housekeeping_pass example_due = (5200000, e')" "\<not> panicked e'"
    using example_due_pass by blast
  have "enabled example_due" by (simp add: example_due_def)
  from next_pass_in_time [OF e'(1) this e'(2)] e'(1) show ?thesis by simp
qed

text \<open>A measurement that the pass itself starts is not taken into account: the peer of the example starts a
  re-measurement whose first retry is due 50 milliseconds later, and its housekeeping thread sleeps for
  almost 200 milliseconds. The notification that starting a measurement sends finds the thread awake.\<close>

theorem fresh_measurement_retry_late:
  "\<exists>e' m. housekeeping_turn False example_due = Some (199998, e') \<and> measurement e' = Some m \<and>
    m_timeouts m = 0 \<and> m_retry_deadline m = fst (now example_due) + MEASUREMENT_RETRY + 1"
proof -
  obtain e' m where p: "housekeeping_pass example_due = (5200000, e')" "measurement e' = Some m"
    "m_retry_deadline m = 5050001" "m_timeouts m = 0" "now e' = (5000002, snd (now e'))"
    using example_due_pass by blast
  moreover have "measurement (snd (now e')) = measurement e'" by (simp add: now_def)
  moreover have "now example_due = (5000000, snd (now example_due))"
    by (simp add: now_def example_due_def new_engine_def example_env_def Let_def)
  then have "fst (now example_due) = 5000000" by (metis fst_conv)
  moreover have "fst (now e') = 5000002" using p(5) by (metis fst_conv)
  ultimately show ?thesis
    by (simp add: housekeeping_turn_def housekeeping_wait_def MEASUREMENT_RETRY_def split_beta Let_def)
qed

end
