(* ===== verification/Propagation.thy ===== *)
theory Propagation
  imports Election
begin

text \<open>
  How tempo and transport changes travel: the setters of \<^verbatim>\<open>crates/tactus/src/lib.rs\<close> and the adoption
  rules of \<^verbatim>\<open>process_peer_state\<close> in \<^verbatim>\<open>crates/tactus/src/engine.rs\<close>. Both rules keep the greatest of a
  key (the beat origin of a timeline, the timestamp of a transport state), which is the interface
  \<open>greatest_wins\<close> below; that gossip converges whatever its order is proved once, there.
\<close>

section \<open>Keeping the greatest\<close>

locale greatest_wins =
  fixes view :: "'s \<Rightarrow> 'a" and receive :: "'a \<Rightarrow> 's \<Rightarrow> 's" and key :: "'a \<Rightarrow> int" and clean :: "'a \<Rightarrow> 'a"
  assumes receive: "view (receive x s) = (if key (view s) < key x then clean x else view s)"
    and clean: "key (clean x) = key x"
begin

lemma arg_max_insert:
  assumes "is_arg_max key (\<lambda>y. y \<in> insert x A) m"
  shows "is_arg_max key (\<lambda>y. y \<in> A) m \<or> m = x"
  using assms by (auto simp: is_arg_max_def)

lemma fold_view:
  assumes "clean v = view s"
  shows "\<exists>x. is_arg_max key (\<lambda>y. y \<in> insert v (set xs)) x \<and> view (fold receive xs s) = clean x"
  using assms
proof (induction xs arbitrary: v s)
  case Nil
  then show ?case by (auto simp: is_arg_max_def)
next
  case (Cons x xs)
  have k: "key (view s) = key v" using Cons.prems clean by metis
  define w where "w = (if key v < key x then x else v)"
  have "clean w = view (receive x s)" using Cons.prems k by (simp add: receive w_def)
  from Cons.IH [OF this] obtain m where
    "is_arg_max key (\<lambda>y. y \<in> insert w (set xs)) m" "view (fold receive (x # xs) s) = clean m" by auto
  moreover from this(1) have "is_arg_max key (\<lambda>y. y \<in> insert v (set (x # xs))) m"
    by (auto simp: is_arg_max_linorder w_def split: if_splits)
  ultimately show ?case by blast
qed

lemma converges:
  assumes "clean (view s) = view s" and "clean (view t) = view t"
    and "insert (view s) (set xs) = pool" and "insert (view t) (set ys) = pool" and "inj_on key pool"
  shows "\<exists>x. is_arg_max key (\<lambda>y. y \<in> pool) x \<and> view (fold receive xs s) = clean x \<and>
    view (fold receive ys t) = clean x"
proof -
  obtain x y where "is_arg_max key (\<lambda>y. y \<in> pool) x" "view (fold receive xs s) = clean x"
    and "is_arg_max key (\<lambda>y. y \<in> pool) y" "view (fold receive ys t) = clean y"
    using fold_view [OF assms(1), of xs] fold_view [OF assms(2), of ys] assms(3,4) by auto
  moreover from this have "x = y"
    using assms(5) by (auto simp: is_arg_max_linorder intro!: inj_onD [OF assms(5)] antisym)
  ultimately show ?thesis by blast
qed

end

interpretation tempo_gossip: greatest_wins timeline "\<lambda>l. adopt_timeline (Some l)" "\<lambda>l. sint (beat_origin l)" clamped
  by unfold_locales (simp_all add: adopt_timeline_def word_sless_alt clamped_def)

interpretation transport_gossip: greatest_wins held_stst "\<lambda>s. adopt_start_stop (Some s)"
  "\<lambda>s. sint (timestamp s)" id
  by unfold_locales (simp_all add: adopt_start_stop_def Let_def word_sless_alt)

lemma clamp_legal [simp]: "legal_tempo t \<Longrightarrow> clamp_tempo t = t"
  by (rule i64_eqI) (simp add: sint_clamp_tempo legal_tempo_def)

lemma clamped_legal [simp]: "legal_tempo (tempo l) \<Longrightarrow> clamped l = l"
  by (simp add: clamped_def)

text \<open>C9: Gossip settles on one timeline. Two peers that between them have heard the same timelines,
  each in its own order and as often as it may be, follow the same one: the timeline with the greatest
  beat origin, its tempo clamped. No two of the timelines may share a beat origin.\<close>

theorem timeline_gossip_converges:
  assumes "legal_tempo (tempo (timeline a))" and "legal_tempo (tempo (timeline b))"
    and "insert (timeline a) (set ls) = pool" and "insert (timeline b) (set ms) = pool"
    and "inj_on (\<lambda>l. sint (beat_origin l)) pool"
  shows "\<exists>l. is_arg_max (\<lambda>l. sint (beat_origin l)) (\<lambda>l. l \<in> pool) l \<and>
    timeline (fold (\<lambda>l. adopt_timeline (Some l)) ls a) = clamped l \<and>
    timeline (fold (\<lambda>l. adopt_timeline (Some l)) ms b) = clamped l"
  using assms by (intro tempo_gossip.converges) simp_all

definition tempo_at :: "i64 \<Rightarrow> i64 \<Rightarrow> timeline" where
  "tempo_at t b = \<lparr>tempo = t, beat_origin = b, time_origin = 0\<rparr>"

lemma timeline_gossip_converges_witness:
  "timeline (fold (\<lambda>l. adopt_timeline (Some l)) [tempo_at 500000 7, tempo_at 400000 9]
      (example_peer (Id 1)\<lparr>timeline := tempo_at 600000 1\<rparr>)) =
   timeline (fold (\<lambda>l. adopt_timeline (Some l)) [tempo_at 400000 9, tempo_at 600000 1, tempo_at 400000 9]
      (example_peer (Id 2)\<lparr>timeline := tempo_at 500000 7\<rparr>))"
  using timeline_gossip_converges [of "example_peer (Id 1)\<lparr>timeline := tempo_at 600000 1\<rparr>"
      "example_peer (Id 2)\<lparr>timeline := tempo_at 500000 7\<rparr>" "[tempo_at 500000 7, tempo_at 400000 9]"
      "{tempo_at 600000 1, tempo_at 500000 7, tempo_at 400000 9}"
      "[tempo_at 400000 9, tempo_at 600000 1, tempo_at 400000 9]"]
  by (auto simp: tempo_at_def legal_tempo_def insert_commute)

text \<open>The same of the transport: peers that have heard the same transport states in any order hold
  the one with the latest timestamp, unchanged.\<close>

theorem transport_gossip_converges:
  assumes "insert (held_stst a) (set xs) = pool" and "insert (held_stst b) (set ys) = pool"
    and "inj_on (\<lambda>s. sint (timestamp s)) pool"
  shows "\<exists>s. is_arg_max (\<lambda>s. sint (timestamp s)) (\<lambda>s. s \<in> pool) s \<and>
    held_stst (fold (\<lambda>s. adopt_start_stop (Some s)) xs a) = s \<and>
    held_stst (fold (\<lambda>s. adopt_start_stop (Some s)) ys b) = s"
  using assms transport_gossip.converges [of a b xs pool ys] by simp

lemma transport_gossip_converges_witness:
  "held_stst (fold (\<lambda>s. adopt_start_stop (Some s)) [\<lparr>is_playing = True, ss_beats = 1, timestamp = 5\<rparr>]
      (example_peer (Id 1)\<lparr>held_stst := default_start_stop\<rparr>)) =
   held_stst (fold (\<lambda>s. adopt_start_stop (Some s)) [default_start_stop]
      (example_peer (Id 2)\<lparr>held_stst := \<lparr>is_playing = True, ss_beats = 1, timestamp = 5\<rparr>\<rparr>))"
  using transport_gossip_converges [of "example_peer (Id 1)\<lparr>held_stst := default_start_stop\<rparr>"
      "[\<lparr>is_playing = True, ss_beats = 1, timestamp = 5\<rparr>]"
      "{default_start_stop, \<lparr>is_playing = True, ss_beats = 1, timestamp = 5\<rparr>}"
      "example_peer (Id 2)\<lparr>held_stst := \<lparr>is_playing = True, ss_beats = 1, timestamp = 5\<rparr>\<rparr>"
      "[default_start_stop]"]
  by (auto simp: default_start_stop_def insert_commute)

section \<open>Setting the tempo\<close>

lemma smax_greater: "sint o1 < 2 ^ 63 - 1 \<Longrightarrow> sint o1 < sint (smax b (o1 + 1))" for b o1 :: i64
  using i64_range [of o1] sint_add_i64 [of o1 1] by simp

lemma set_tempo_timeline:
  assumes "beats_at_ghost (timeline e) (fst (now e) + ghost_offset e) = Some b"
  shows "timeline (set_tempo bpm e) = (let bo = smax b (beat_origin (timeline e) + 1)
    in \<lparr>tempo = bpm_to_tempo bpm, beat_origin = bo, time_origin = ghost_at_beats (timeline e) bo\<rparr>)"
  using assms by (simp add: set_tempo_def now_def Let_def)

lemma set_tempo_session [simp]: "session (set_tempo bpm e) = session e" "node (set_tempo bpm e) = node e"
  by (simp_all add: set_tempo_def now_def panic_def Let_def split: option.split)

lemma process_same_session:
  assumes "ps_session ps = Some (session p)"
  shows "timeline (process_peer_state g n ttl ps p) = timeline (adopt_timeline (ps_timeline ps) p)"
    "session (process_peer_state g n ttl ps p) = session p"
  using assms
  by (simp_all add: process_peer_state_def follow_session_def record_peer_def now_def notify_def Let_def
      adopt_start_stop_def adopt_timeline_def split: option.split)

definition newest :: "timeline \<Rightarrow> timeline option \<Rightarrow> timeline" where
  "newest cur tml = (case tml of None \<Rightarrow> cur
     | Some l \<Rightarrow> if beat_origin cur <s beat_origin l then clamped l else cur)"

lemma adopt_timeline_newest: "timeline (adopt_timeline tml e) = newest (timeline e) tml"
  by (simp add: adopt_timeline_def newest_def split: option.split)

lemma respond_keeps [simp]:
  "timeline (respond g src e) = timeline e" "session (respond g src e) = session e"
  "node (respond g src e) = node e" "held_stst (respond g src e) = held_stst e"
  by (simp_all add: respond_def transmit_def split: option.split)

text \<open>A received Alive of the same session comes down to the adoption rules.\<close>

lemma handle_alive_process:
  assumes "enabled p" and "n \<noteq> node p" and "wire_peer_state ps"
  shows "handle_discovery_datagram g src (encode_disc (disc_alive n ps)) p =
    process_peer_state g n DISC_TTL_SECONDS ps (respond g src p)"
proof -
  have "decode_disc (encode_disc (disc_alive n ps)) = Inr (disc_alive n ps)"
    using assms(3) by (intro decode_encode_disc) (simp add: disc_alive_def)
  moreover have "decode_header (encode_disc (disc_alive n ps)) = Inr (header_of (disc_alive n ps))"
    by (rule decode_header_encode)
  ultimately show ?thesis
    using assms(1,2) by (simp add: handle_discovery_datagram_def disc_alive_def is_alive_def Let_def)
qed

lemma handle_alive_same_session:
  assumes "enabled p" and "n \<noteq> node p" and "wire_peer_state ps" and "ps_session ps = Some (session p)"
  shows "timeline (handle_discovery_datagram g src (encode_disc (disc_alive n ps)) p) =
    timeline (adopt_timeline (ps_timeline ps) p)"
  using assms(4)
  by (simp add: handle_alive_process [OF assms(1-3)] process_same_session adopt_timeline_newest)

lemma schedule_broadcast_sends:
  assumes "x \<in> set (drop (length (sent e)) (sent (schedule_broadcast e)))"
  obtains i gw where "(i, gw) \<in> set (gateways e)"
    and "x = Send_multicast (gw_id gw) (encode_disc (disc_alive (node e) (build_state e gw)))"
  using assms
  by (auto simp: schedule_broadcast_def send_alive_def transmit_def notify_def now_def build_state_def
      split: if_splits)

definition ipv4_endpoint :: "socket_addr \<Rightarrow> bool" where
  "ipv4_endpoint a \<longleftrightarrow> (case a of V4 _ _ \<Rightarrow> True | V6 _ _ _ _ \<Rightarrow> False)"

lemma ipv4_wire: "ipv4_endpoint a \<Longrightarrow> wire_endpoint a"
  by (simp add: ipv4_endpoint_def split: socket_addr.splits)

lemma build_state_fields [simp]:
  "ps_timeline (build_state e gw) = Some (timeline e)" "ps_session (build_state e gw) = Some (session e)"
  "ps_start_stop (build_state e gw) = Some (held_stst e)"
  by (simp_all add: build_state_def)

lemma build_state_wire:
  "ipv4_endpoint (gw_measurement gw) \<Longrightarrow> ipv4_endpoint (gw_audio gw) \<Longrightarrow> wire_peer_state (build_state e gw)"
  by (cases "audio e") (simp_all add: wire_peer_state_def build_state_def ipv4_wire)

text \<open>A tempo change prevails. Whatever datagram \<open>set_tempo\<close> sends, an enabled peer of the session
  that receives it and whose timeline is no newer than the one the caller held follows the caller's new
  timeline exactly, with the requested tempo; the sockets of the gateways are IPv4.\<close>

theorem tempo_change_reaches_peers:
  assumes "legal_tempo (tempo (timeline e))" and "sint (beat_origin (timeline e)) < 2 ^ 63 - 1"
    and "list_all (\<lambda>(_, gw). ipv4_endpoint (gw_measurement gw) \<and> ipv4_endpoint (gw_audio gw)) (gateways e)"
    and "Send_multicast i d \<in> set (drop (length (sent e)) (sent (set_tempo bpm e)))"
    and "enabled p" and "node p \<noteq> node e" and "session p = session e"
    and "sint (beat_origin (timeline p)) \<le> sint (beat_origin (timeline e))"
  shows "timeline (handle_discovery_datagram g src d p) = timeline (set_tempo bpm e) \<and>
    tempo (timeline (set_tempo bpm e)) = bpm_to_tempo bpm"
proof -
  obtain b where b: "beats_at_ghost (timeline e) (fst (now e) + ghost_offset e) = Some b"
    using beats_at_ghost_Some [OF assms(1)] by blast
  define l where "l = timeline (set_tempo bpm e)"
  define e' where "e' = e\<lparr>clock_reads := clock_reads e + 1, timeline := l\<rparr>"
  have t: "l = \<lparr>tempo = bpm_to_tempo bpm, beat_origin = smax b (beat_origin (timeline e) + 1),
      time_origin = ghost_at_beats (timeline e) (smax b (beat_origin (timeline e) + 1))\<rparr>"
    unfolding l_def using set_tempo_timeline [OF b] by (simp add: Let_def)
  have e': "set_tempo bpm e = schedule_broadcast e'"
    using b by (simp add: set_tempo_def e'_def now_def Let_def t)
  obtain j gw where gw: "(j, gw) \<in> set (gateways e)"
    and d: "d = encode_disc (disc_alive (node e) (build_state e' gw))"
    by (rule schedule_broadcast_sends [of "Send_multicast i d" e'])
      (use assms(4) in \<open>simp_all add: e' e'_def\<close>)
  have "wire_peer_state (build_state e' gw)"
    using assms(3) gw by (auto simp: list_all_iff intro: build_state_wire)
  then have "timeline (handle_discovery_datagram g src d p) = timeline (adopt_timeline (Some l) p)"
    unfolding d using assms(5-7) by (subst handle_alive_same_session) (simp_all add: e'_def)
  also have "\<dots> = l"
    using smax_greater [OF assms(2), of b] assms(8) by (simp add: tempo_gossip.receive t)
  finally show ?thesis by (simp add: l_def [symmetric] t)
qed

definition example_gateway :: gateway where
  "example_gateway = \<lparr>gw_id = 0, gw_addr = 0x7F000001, gw_measurement = V4 0x7F000001 9000,
     gw_audio = V4 0x7F000001 9001\<rparr>"

definition example_member :: "id \<Rightarrow> engine" where
  "example_member i = (example_peer i)\<lparr>enabled := True, session := Id 1,
     timeline := tempo_at 500000 0, gateways := [(0, example_gateway)]\<rparr>"

lemma example_member_fields [simp]:
  "enabled (example_member i)" "node (example_member i) = i" "session (example_member i) = Id 1"
  "timeline (example_member i) = tempo_at 500000 0" "ghost_offset (example_member i) = 0"
  "gateways (example_member i) = [(0, example_gateway)]" "sent (example_member i) = []"
  "env (example_member i) = example_env" "clock_reads (example_member i) = 0"
  "last_broadcast_at (example_member i) = 0" "audio (example_member i) = None"
  by (simp_all add: example_member_def example_peer_def new_engine_def Let_def)

lemma tempo_change_reaches_peers_witness:
  "sent (set_tempo (Fin 90) (example_member (Id 1))) \<noteq> [] \<and>
    (case hd (sent (set_tempo (Fin 90) (example_member (Id 1)))) of Send_multicast i d \<Rightarrow>
      timeline (handle_discovery_datagram 0 (V4 0x7F000001 9002) d (example_member (Id 2))) =
      timeline (set_tempo (Fin 90) (example_member (Id 1))) | _ \<Rightarrow> False)"
proof -
  have "beats_at_ghost (tempo_at 500000 0) (fst (now (example_member (Id 1))) + 0) \<noteq> None"
    by (simp add: beats_at_ghost_def round_div_def tempo_at_def)
  then obtain d where d: "sent (set_tempo (Fin 90) (example_member (Id 1))) = [Send_multicast 0 d]"
    by (auto simp: set_tempo_def now_def example_env_def schedule_broadcast_def Let_def
        MIN_BROADCAST_SPACING_def word_sle_eq send_alive_def transmit_def example_gateway_def)
  then show ?thesis
    using tempo_change_reaches_peers [of "example_member (Id 1)" 0 d "Fin 90" "example_member (Id 2)"
        0 "V4 0x7F000001 9002"]
    by (simp add: tempo_at_def legal_tempo_def example_gateway_def ipv4_endpoint_def)
qed

lemma ghost_beats_real_error:
  assumes "legal_tempo (tempo l)"
  shows "\<bar>ghost_real l (beats_real l g) - g\<bar> \<le> 2"
proof -
  define t where "t = sint (tempo l)"
  define d where "d = g - sint (time_origin l)"
  define q where "q = nearest_quotient (d * 1000000) t"
  define h where "h = nearest_quotient (q * t) 1000000"
  have t: "0 < t" "t \<le> 3000000" using assms by (simp_all add: t_def legal_tempo_def)
  have "2 * \<bar>h * 1000000 - q * t\<bar> \<le> 1000000" unfolding h_def by (rule nearest_quotient_near) simp
  moreover have "2 * \<bar>q * t - d * 1000000\<bar> \<le> t" unfolding q_def by (rule nearest_quotient_near [OF t(1)])
  ultimately have "2 * \<bar>h * 1000000 - d * 1000000\<bar> \<le> 1000000 + t" by (rule twice_abs_triangle)
  then have "2 * \<bar>(h - d) * 1000000\<bar> \<le> 1000000 + t" by (simp only: left_diff_distrib)
  moreover define z where "z = \<bar>h - d\<bar>"
  ultimately have "2 * (z * 1000000) \<le> 1000000 + t" by (simp only: abs_mult abs_numeral)
  then have "\<bar>h - d\<bar> \<le> 2" using t(2) unfolding z_def [symmetric] by linarith
  moreover have "ghost_real l (beats_real l g) - g = h - d"
    by (simp add: ghost_real_def beats_real_def h_def q_def d_def t_def)
  ultimately show ?thesis by simp
qed

text \<open>C10: A tempo change is not heard as a jump. When it is made at a moment whose beat is past the beat origin of the
  timeline in force, the new timeline starts at that beat, and gives it to within 34 micro-beats. The local
  clock, the clock offset and the origins are below \<open>2 ^ 54\<close>. (At or before the origin the new
  timeline starts one micro-beat after it, wherever the beat is.)\<close>

theorem set_tempo_seamless:
  assumes "roomy_timeline (timeline e)" and "room (ghost_offset e)" and "room (fst (now e))"
    and "beats_at_ghost (timeline e) (fst (now e) + ghost_offset e) = Some b"
    and "sint (beat_origin (timeline e)) < sint b"
  shows "beat_origin (timeline (set_tempo bpm e)) = b \<and>
    (\<exists>b'. beats_at_ghost (timeline (set_tempo bpm e)) (fst (now e) + ghost_offset (set_tempo bpm e)) = Some b' \<and>
      \<bar>sint b' - sint b\<bar> \<le> 34)"
proof -
  let ?l = "timeline e" and ?l' = "timeline (set_tempo bpm e)" and ?g = "fst (now e) + ghost_offset e"
  have l: "legal_tempo (tempo ?l)" "room (beat_origin ?l)" "room (time_origin ?l)"
    using assms(1) by (simp_all add: roomy_timeline_def)
  note r = assms(2,3)[unfolded room_def] l(2,3)[unfolded room_def]
  have g: "sint ?g = sint (fst (now e)) + sint (ghost_offset e)" by (rule sint_add_room [OF assms(3,2)])
  obtain c where "beats_at_ghost ?l ?g = Some c" "sint c = beats_real ?l (sint ?g)" "\<bar>sint c\<bar> < 2 ^ 61"
    using roomy_beat_now [OF assms(1-3)] unfolding g .
  then have b: "sint b = beats_real ?l (sint ?g)" "\<bar>sint b\<bar> < 2 ^ 61" using assms(4) by simp_all
  have "sint (beat_origin ?l + 1) = sint (beat_origin ?l) + 1"
    using r by (subst sint_add_i64) (simp_all add: abs_less_iff)
  then have "smax b (beat_origin ?l + 1) = b" using assms(5) by (intro i64_eqI) simp
  then have l': "tempo ?l' = bpm_to_tempo bpm" "beat_origin ?l' = b" "time_origin ?l' = ghost_at_beats ?l b"
    by (simp_all add: set_tempo_timeline [OF assms(4)])
  have "\<bar>sint b - sint (beat_origin ?l)\<bar> = \<bar>nearest_quotient ((sint ?g - sint (time_origin ?l)) * 1000000) (sint (tempo ?l))\<bar>"
    by (simp add: b(1) beats_real_def)
  also have "\<dots> \<le> 17 * \<bar>sint ?g - sint (time_origin ?l)\<bar>" by (rule beats_quotient_bound [OF l(1)])
  also have "\<bar>sint ?g - sint (time_origin ?l)\<bar> < 2 ^ 56" using r by (simp add: g abs_less_iff)
  finally have "\<bar>sint b - sint (beat_origin ?l)\<bar> < 2 ^ 61" by simp
  then have "sint (time_origin ?l') = ghost_real ?l (sint b)"
    using r unfolding l' by (intro sint_ghost_at_beats [OF l(1)]) simp_all
  then have near: "\<bar>sint (time_origin ?l') - sint ?g\<bar> \<le> 2"
    using ghost_beats_real_error [OF l(1), of "sint ?g"] by (simp add: b(1))
  have o': "ghost_offset (set_tempo bpm e) = ghost_offset e" using assms(4) by (simp add: set_tempo_def now_def Let_def)
  obtain b' where b': "beats_at_ghost ?l' ?g = Some b'" "sint b' = beats_real ?l' (sint ?g)"
    by (rule sint_beats_at_ghost [of ?l' ?g]) (use near b(2) in \<open>simp_all add: l'\<close>)
  have "\<bar>sint b' - sint b\<bar> \<le> 17 * \<bar>sint ?g - sint (time_origin ?l')\<bar>"
    using beats_quotient_bound [of "tempo ?l'" "sint ?g - sint (time_origin ?l')"] l'(1)
    by (simp only: b'(2) beats_real_def l'(2) add_diff_cancel_left' legal_bpm_to_tempo)
  also have "17 * \<bar>sint ?g - sint (time_origin ?l')\<bar> \<le> 17 * 2"
    using near by (intro mult_left_mono) (simp_all add: abs_minus_commute)
  finally have "\<bar>sint b' - sint b\<bar> \<le> 34" by simp
  then show ?thesis using b'(1) by (simp add: l' o')
qed

lemma set_tempo_seamless_witness:
  "\<exists>b b'. beats_at_ghost (timeline (example_member (Id 1))) 1000000 = Some b \<and>
    beats_at_ghost (timeline (set_tempo (Fin 90) (example_member (Id 1)))) (1000000 +
      ghost_offset (set_tempo (Fin 90) (example_member (Id 1)))) = Some b' \<and> \<bar>sint b' - sint b\<bar> \<le> 34"
proof -
  have "fst (now (example_member (Id 1))) = 1000000" by (simp add: now_def example_env_def)
  moreover have "beats_at_ghost (tempo_at 500000 0) 1000000 = Some 2000000"
    by (simp add: beats_at_ghost_def round_div_def nearest_quotient_def tempo_at_def signed_divide_int_def)
  ultimately show ?thesis
    using set_tempo_seamless [of "example_member (Id 1)" 2000000 "Fin 90"]
    by (simp add: tempo_at_def roomy_timeline_def room_def legal_tempo_def)
qed

section \<open>Setting the transport\<close>

lemma adopt_timeline_keeps [simp]:
  "held_stst (adopt_timeline l e) = held_stst e" "sst_sync (adopt_timeline l e) = sst_sync e"
  by (simp_all add: adopt_timeline_def split: option.split)

lemma adopt_later:
  assumes "sint (timestamp (held_stst e)) < sint (timestamp s)" and "sst_sync e" and "s \<noteq> default_start_stop"
  shows "held_stst (adopt_start_stop (Some s) e) = s" "app_playing (adopt_start_stop (Some s) e) = is_playing s"
  using assms by (simp_all add: adopt_start_stop_def word_sless_alt Let_def)

lemma process_same_session_transport:
  assumes "ps_session ps = Some (session p)" and "ps_start_stop ps = Some s"
    and "sint (timestamp (held_stst p)) < sint (timestamp s)" and "sst_sync p" and "s \<noteq> default_start_stop"
  shows "held_stst (process_peer_state g n ttl ps p) = s"
    "app_playing (process_peer_state g n ttl ps p) = is_playing s"
  using assms
  by (simp_all add: process_peer_state_def follow_session_def record_peer_def now_def notify_def Let_def
      adopt_later)

lemma set_is_playing_result:
  assumes "legal_tempo (tempo (timeline e))" and "sst_sync e"
  obtains b where "set_is_playing on e = schedule_broadcast (e\<lparr>app_playing := on,
    clock_reads := clock_reads e + 1, held_stst := \<lparr>is_playing = on, ss_beats = b, timestamp =
      smax (fst (now e) + ghost_offset e) (timestamp (held_stst e) + 1)\<rparr>\<rparr>)"
proof -
  obtain b where "beats_at_ghost (timeline e) (fst (now e) + ghost_offset e) = Some b"
    using beats_at_ghost_Some [OF assms(1)] by blast
  then show thesis using assms(2) that by (simp add: set_is_playing_def now_def Let_def)
qed

text \<open>Starting or stopping reaches the peers that synchronise it. Whatever datagram \<open>set_is_playing\<close>
  sends, an enabled peer of the session that has start and stop synchronisation on, receives it and
  holds no later transport state, holds the caller's and plays or stops as the caller asked.\<close>

theorem transport_change_reaches_peers:
  assumes "legal_tempo (tempo (timeline e))" and "sst_sync e"
    and "0 \<le> sint (timestamp (held_stst e))" and "sint (timestamp (held_stst e)) < 2 ^ 63 - 1"
    and "list_all (\<lambda>(_, gw). ipv4_endpoint (gw_measurement gw) \<and> ipv4_endpoint (gw_audio gw)) (gateways e)"
    and "Send_multicast i d \<in> set (drop (length (sent e)) (sent (set_is_playing on e)))"
    and "enabled p" and "sst_sync p" and "node p \<noteq> node e" and "session p = session e"
    and "sint (timestamp (held_stst p)) \<le> sint (timestamp (held_stst e))"
  shows "held_stst (handle_discovery_datagram g src d p) = held_stst (set_is_playing on e) \<and>
    app_playing (handle_discovery_datagram g src d p) = on"
proof -
  define ts where "ts = smax (fst (now e) + ghost_offset e) (timestamp (held_stst e) + 1)"
  obtain b where "set_is_playing on e = schedule_broadcast (e\<lparr>app_playing := on,
      clock_reads := clock_reads e + 1, held_stst := \<lparr>is_playing = on, ss_beats = b, timestamp = ts\<rparr>\<rparr>)"
    using set_is_playing_result [OF assms(1,2)] unfolding ts_def .
  moreover define e' where "e' = e\<lparr>app_playing := on, clock_reads := clock_reads e + 1,
      held_stst := \<lparr>is_playing = on, ss_beats = b, timestamp = ts\<rparr>\<rparr>"
  ultimately have e': "set_is_playing on e = schedule_broadcast e'" by simp
  obtain j gw where gw: "(j, gw) \<in> set (gateways e)"
    and d: "d = encode_disc (disc_alive (node e) (build_state e' gw))"
    by (rule schedule_broadcast_sends [of "Send_multicast i d" e'])
      (use assms(6) in \<open>simp_all add: e' e'_def\<close>)
  have w: "wire_peer_state (build_state e' gw)"
    using assms(5) gw by (auto simp: list_all_iff intro: build_state_wire)
  have ts: "sint (timestamp (held_stst e)) < sint ts" unfolding ts_def by (rule smax_greater [OF assms(4)])
  then have "held_stst e' \<noteq> default_start_stop"
    using assms(3) by (auto simp: e'_def default_start_stop_def)
  moreover have "sst_sync (respond g src p)" using assms(8) by (simp add: respond_def transmit_def split: option.split)
  ultimately show ?thesis
    using handle_alive_process [OF assms(7) _ w, of "node e" g src] ts assms(9-11)
      process_same_session_transport [of "build_state e' gw" "respond g src p" "held_stst e'"]
    unfolding d e' by (simp add: e'_def)
qed

lemma transport_change_reaches_peers_witness:
  "sent (set_is_playing True (example_member (Id 1)\<lparr>sst_sync := True\<rparr>)) \<noteq> [] \<and>
    (case hd (sent (set_is_playing True (example_member (Id 1)\<lparr>sst_sync := True\<rparr>))) of Send_multicast i d \<Rightarrow>
      app_playing (handle_discovery_datagram 0 (V4 0x7F000001 9002) d (example_member (Id 2)\<lparr>sst_sync := True\<rparr>))
      | _ \<Rightarrow> False)"
proof -
  let ?e = "example_member (Id 1)\<lparr>sst_sync := True\<rparr>"
  obtain d where d: "sent (set_is_playing True ?e) = [Send_multicast 0 d]"
    by (rule set_is_playing_result [of ?e True])
      (auto simp: now_def example_env_def schedule_broadcast_def Let_def tempo_at_def legal_tempo_def
        MIN_BROADCAST_SPACING_def word_sle_eq send_alive_def transmit_def example_gateway_def)
  have "held_stst (example_member i) = default_start_stop" for i
    by (simp add: example_member_def example_peer_def new_engine_def Let_def)
  then show ?thesis
    using d transport_change_reaches_peers [of ?e 0 d True "example_member (Id 2)\<lparr>sst_sync := True\<rparr>"
        0 "V4 0x7F000001 9002"]
    by (simp add: tempo_at_def legal_tempo_def example_gateway_def ipv4_endpoint_def default_start_stop_def)
qed

end
