(* ===== verification/Tempo_Burst.thy ===== *)
theory Tempo_Burst
  imports Schedule Propagation "HOL-Library.Sublist"
begin

text \<open>
  A burst of tempo changes and the peers that hear of it: what an engine sends is never taken back; each
  change raises the beat origin and is announced at once, or a broadcast is due that the housekeeping thread makes; a peer that hears
  the last announcement ends on the last tempo, however the network reorders, repeats and loses the others.
  The example program \<^verbatim>\<open>rapid_tempo.rs\<close>, which tests this between two peers, is modelled at the end.
\<close>

section \<open>What is sent stays sent\<close>

lemma outgoing_fold: "(\<And>e x. outgoing e (f e x)) \<Longrightarrow> outgoing e (foldl f e xs)"
  by (induction xs arbitrary: e) (auto intro: outgoing_trans)

lemma outgoing_send_alive [simp]: "outgoing e (send_alive t e)"
  by (simp add: outgoing_def send_alive_def transmit_def)

lemma outgoing_sends [simp]: "outgoing e (send_all ms e)" "outgoing e (send_request ch stop e)"
  "outgoing e (send_ping g dst bs e)"
proof -
  have v: "outgoing e (send_via gw bs dst e)" for gw bs dst e
    by (simp add: send_via_def outgoing_def transmit_def split: option.split)
  show "outgoing e (send_all ms e)"
    unfolding send_all_def by (rule outgoing_fold) (simp add: v split: prod.split)
  show "outgoing e (send_request ch stop e)"
    by (simp add: send_request_def v Let_def split: option.split)
  show "outgoing e (send_ping g dst bs e)"
    by (simp add: send_ping_def outgoing_def transmit_def split: option.split)
qed

lemma outgoing_session [simp]: "outgoing e (check_session_loss e)" "outgoing e (departed lost e)"
proof -
  show "outgoing e (check_session_loss e)"
    by (simp add: check_session_loss_def reset_session_def now_def random_id_def panic_def Let_def outgoing_def
        schedule_broadcast_def send_alive_def transmit_def notify_def split: option.split)
  have "sent (peer_left n e) = sent e" for n e by (simp add: peer_left_def split: option.split)
  then show "outgoing e (departed lost e)"
    unfolding departed_def
    by (intro outgoing_fold) (simp add: outgoing_def)
qed

lemma outgoing_measuring [simp]: "outgoing e (start_next_measurement e)" "outgoing e (queue_remeasure e)"
  "outgoing e (measurement_failed m e)"
proof -
  show s: "outgoing e (start_next_measurement e)" for e
    by (simp add: start_next_measurement_def now_def transmit_def notify_def Let_def outgoing_def send_ping_def
        split: list.split option.split)
  show "outgoing e (queue_remeasure e)"
    by (simp add: queue_remeasure_def Let_def outgoing_def split: option.split)
  have r: "outgoing e (start_next_measurement (e\<lparr>clock_reads := c, next_remeasure_at := r\<rparr>))" for c r
    using s [of "e\<lparr>clock_reads := c, next_remeasure_at := r\<rparr>"] by (simp add: outgoing_def)
  show "outgoing e (measurement_failed m e)"
    using s [of e] r by (simp add: measurement_failed_def now_def Let_def split: purpose.split)
qed

lemma outgoing_steps:
  "outgoing e (alive_step t e)" "outgoing e (snd (broadcast_step t (nx, e)))"
  "outgoing e (snd (prune_step t (nx, e)))" "outgoing e (snd (retry_step t (nx, e)))"
  "outgoing e (snd (remeasure_step t (nx, e)))" "outgoing e (snd (audio_housekeeping t e))"
proof -
  show "outgoing e (alive_step t e)" by (simp add: alive_step_def)
  show "outgoing e (snd (broadcast_step t (nx, e)))"
    by (simp add: broadcast_step_def split: option.split)
  have "outgoing e (check_session_loss (departed ns (e\<lparr>peers := ps\<rparr>)))" for ns ps
  proof -
    have "outgoing e (departed ns (e\<lparr>peers := ps\<rparr>))"
      using outgoing_session(2) [of "e\<lparr>peers := ps\<rparr>" ns] by (simp add: outgoing_def)
    then show ?thesis by (rule outgoing_trans) simp
  qed
  then show "outgoing e (snd (prune_step t (nx, e)))"
    by (simp add: prune_step_def prune_peers_def Let_def)
  have m: "outgoing e (f (e\<lparr>measurement := m\<rparr>))" if "\<And>e. outgoing e (f e)" for f m
    using that [of "e\<lparr>measurement := m\<rparr>"] by (simp add: outgoing_def)
  show "outgoing e (snd (retry_step t (nx, e)))"
    by (simp add: retry_step_def Let_def m split: option.split)
  have "outgoing e ((queue_remeasure e)\<lparr>next_remeasure_at := r\<rparr>)" for r
    using outgoing_measuring(2) [of e] by (simp add: outgoing_def)
  then show "outgoing e (snd (remeasure_step t (nx, e)))"
    by (simp add: remeasure_step_def split: option.split)
  have an: "outgoing e (announce t e)" for e
    using outgoing_sends(1) [of e] by (simp add: announce_def Let_def outgoing_def split: option.split)
  have rq: "outgoing e (foldl (\<lambda>e i. send_request i False e) e due)" for e due
    by (rule outgoing_fold) simp
  have ex: "sent (snd (audio_expire t nx e)) = sent e" for nx e
    by (simp add: audio_expire_def Let_def split: option.split)
  have "outgoing e (snd (audio_expire t nx (foldl (\<lambda>e i. send_request i False e) (e'\<lparr>audio := au\<rparr>) due)))"
    if "outgoing e e'" for e' nx au due
    using that rq [of "e'\<lparr>audio := au\<rparr>" due] by (auto simp: outgoing_def ex intro: prefix_order.trans)
  then show "outgoing e (snd (audio_housekeeping t e))"
    using an [of e] by (simp add: audio_housekeeping_def Let_def split: option.split)
qed

lemma outgoing_member: "x \<in> set (drop (length (sent e)) (sent e')) \<Longrightarrow> outgoing e' e'' \<Longrightarrow>
    x \<in> set (drop (length (sent e)) (sent e''))"
  by (auto simp: outgoing_def prefix_def)

definition alive_datagrams :: "engine \<Rightarrow> send set" where
  "alive_datagrams e = (\<lambda>(_, gw). Send_multicast (gw_id gw) (encode_disc (disc_alive (node e) (build_state e gw))))
     ` set (gateways e)"

lemma alive_datagrams_cong [simp]:
  "alive_datagrams (e\<lparr>clock_reads := c\<rparr>) = alive_datagrams e"
  by (simp add: alive_datagrams_def build_state_def)

lemma send_alive_datagrams: "set (drop (length (sent e)) (sent (send_alive t e))) = alive_datagrams e"
  by (simp add: send_alive_def transmit_def alive_datagrams_def)

text \<open>A pass that finds a broadcast due sends the state it finds.\<close>

lemma pass_broadcasts:
  assumes "enabled e" and "broadcast_due e = Some d" and "sint d \<le> sint (fst (now e))"
  shows "alive_datagrams e \<subseteq> set (drop (length (sent e)) (sent (snd (housekeeping_pass e))))"
proof
  fix x assume x: "x \<in> alive_datagrams e"
  obtain t e0 n1 n2 e2 n3 e3 n4 e4 n5 e5 an e7 where e0: "now e = (t, e0)"
    and s2: "broadcast_step t (n1, alive_step t e0) = (n2, e2)" and s3: "prune_step t (n2, e2) = (n3, e3)"
    and s4: "retry_step t (n3, e3) = (n4, e4)" and s5: "remeasure_step t (n4, e4) = (n5, e5)"
    and s7: "audio_housekeeping t (start_next_measurement e5) = (an, e7)"
    and "housekeeping_pass e = (if panicked e3 then (n3, e3) else (smin n5 an, e7))"
    by (rule pass_parts [OF assms(1)])
  then have pass: "snd (housekeeping_pass e) = (if panicked e3 then e3 else e7)" by simp
  have "x \<in> set (drop (length (sent e)) (sent e2))"
  proof -
    have f: "broadcast_due e0 = Some d" "sent e0 = sent e" "x \<in> alive_datagrams e0" "t = fst (now e)"
      using e0 assms(2) x by (auto simp: now_def)
    have "x \<in> set (drop (length (sent e0)) (sent (send_alive t e0)))"
      unfolding send_alive_datagrams by (rule f)
    moreover have "broadcast_due (send_alive t e0) = None" by (simp add: send_alive_def)
    ultimately show ?thesis
      using s2 assms(3) f by (auto simp: alive_step_def broadcast_step_def word_sle_eq split: if_splits)
  qed
  moreover have "outgoing e2 e3" using outgoing_steps(3) [of e2 t n2] s3 by simp
  moreover have "outgoing e3 e7"
  proof -
    have "outgoing e3 e4" "outgoing e4 e5" "outgoing (start_next_measurement e5) e7"
      using outgoing_steps(4) [of e3 t n3] s4 outgoing_steps(5) [of e4 t n4] s5
        outgoing_steps(6) [of "start_next_measurement e5" t] s7 by simp_all
    then show ?thesis using outgoing_measuring(1) [of e5] by (blast intro: outgoing_trans)
  qed
  ultimately show "x \<in> set (drop (length (sent e)) (sent (snd (housekeeping_pass e))))"
    unfolding pass by (auto intro: outgoing_member outgoing_trans)
qed

section \<open>A burst of tempo changes\<close>

definition on_air :: "engine \<Rightarrow> engine \<Rightarrow> send set" where
  "on_air e e' = set (drop (length (sent e)) (sent e'))"

lemma on_air_trans:
  "outgoing e e' \<Longrightarrow> outgoing e' e'' \<Longrightarrow> on_air e e'' = on_air e e' \<union> on_air e' e''"
  by (auto simp: on_air_def outgoing_def prefix_def)

lemma set_tempo_step:
  assumes "legal_tempo (tempo (timeline e))"
  shows "legal_tempo (tempo (timeline (set_tempo bpm e)))" and "tempo (timeline (set_tempo bpm e)) = bpm_to_tempo bpm"
    and "sint (beat_origin (timeline e)) < 2 ^ 63 - 1 \<Longrightarrow>
      sint (beat_origin (timeline e)) < sint (beat_origin (timeline (set_tempo bpm e)))"
    and "gateways (set_tempo bpm e) = gateways e" and "enabled (set_tempo bpm e) = enabled e"
    and "outgoing e (set_tempo bpm e)" and "on_air e (set_tempo bpm e) \<subseteq> alive_datagrams (set_tempo bpm e)"
    and "enabled e \<Longrightarrow> alive_datagrams (set_tempo bpm e) \<subseteq> on_air e (set_tempo bpm e) \<or> broadcast_due (set_tempo bpm e) \<noteq> None"
proof -
  obtain b where b: "beats_at_ghost (timeline e) (fst (now e) + ghost_offset e) = Some b"
    using beats_at_ghost_Some [OF assms] by blast
  note t = set_tempo_timeline [OF b, of bpm]
  show "legal_tempo (tempo (timeline (set_tempo bpm e)))" "tempo (timeline (set_tempo bpm e)) = bpm_to_tempo bpm"
    by (simp_all add: t Let_def)
  show "sint (beat_origin (timeline e)) < 2 ^ 63 - 1 \<Longrightarrow>
      sint (beat_origin (timeline e)) < sint (beat_origin (timeline (set_tempo bpm e)))"
    using smax_greater [of "beat_origin (timeline e)" b] by (simp add: t Let_def)
  define e' where "e' = e\<lparr>clock_reads := clock_reads e + 1, timeline := timeline (set_tempo bpm e)\<rparr>"
  have e': "set_tempo bpm e = schedule_broadcast e'"
    using b by (simp add: set_tempo_def e'_def now_def Let_def t)
  have q: "gateways (schedule_broadcast e') = gateways e'" "enabled (schedule_broadcast e') = enabled e'"
    by (rule quiet_fields; simp)+
  show "gateways (set_tempo bpm e) = gateways e" "enabled (set_tempo bpm e) = enabled e"
    unfolding e' q by (simp_all add: e'_def)
  show "outgoing e (set_tempo bpm e)"
    using outgoing_basic(4) [of e'] unfolding e' by (simp add: outgoing_def e'_def)
  have s: "sent e' = sent e" "enabled e' = enabled e" by (simp_all add: e'_def)
  have a: "alive_datagrams (schedule_broadcast e') = alive_datagrams e'"
    by (simp add: alive_datagrams_def build_state_def schedule_broadcast_def send_alive_def transmit_def notify_def now_def)
  have "on_air e' (schedule_broadcast e') = (if enabled e' \<and> broadcast_due (schedule_broadcast e') = None
      then alive_datagrams e' else {})" if "enabled e'"
    using that send_alive_datagrams [of "snd (now e')" "fst (now e')"]
    by (auto simp: schedule_broadcast_def Let_def on_air_def now_def notify_def send_alive_def)
  moreover have "on_air e' (schedule_broadcast e') = {}" if "\<not> enabled e'"
    using that by (simp add: schedule_broadcast_def on_air_def)
  ultimately show "on_air e (set_tempo bpm e) \<subseteq> alive_datagrams (set_tempo bpm e)"
    "enabled e \<Longrightarrow> alive_datagrams (set_tempo bpm e) \<subseteq> on_air e (set_tempo bpm e) \<or> broadcast_due (set_tempo bpm e) \<noteq> None"
    using s unfolding e' a by (auto simp: on_air_def split: if_splits)
qed

text \<open>A datagram of a burst: an Alive that carries a timeline of the burst, of which only the last has the
  greatest beat origin.\<close>

definition leads_to :: "engine \<Rightarrow> timeline \<Rightarrow> bytes \<Rightarrow> bool" where
  "leads_to e l d \<longleftrightarrow> (\<exists>ps l'. d = encode_disc (disc_alive (node e) ps) \<and> wire_peer_state ps \<and>
     ps_session ps = Some (session e) \<and> ps_timeline ps = Some l' \<and> legal_tempo (tempo l') \<and>
     (l' = l \<or> sint (beat_origin l') < sint (beat_origin l)))"

definition ipv4_gateways :: "engine \<Rightarrow> bool" where
  "ipv4_gateways e \<longleftrightarrow>
     list_all (\<lambda>(_, gw). ipv4_endpoint (gw_measurement gw) \<and> ipv4_endpoint (gw_audio gw)) (gateways e)"

lemma alive_leads:
  assumes "Send_multicast i d \<in> alive_datagrams e" and "ipv4_gateways e" and "legal_tempo (tempo (timeline e))"
    and "timeline e = l \<or> sint (beat_origin (timeline e)) < sint (beat_origin l)"
  shows "leads_to e l d"
proof -
  obtain j gw where g: "(j, gw) \<in> set (gateways e)" "d = encode_disc (disc_alive (node e) (build_state e gw))"
    using assms(1) by (auto simp: alive_datagrams_def)
  moreover have "wire_peer_state (build_state e gw)"
    using assms(2) g(1) by (auto simp: ipv4_gateways_def list_all_iff intro: build_state_wire)
  ultimately show ?thesis using assms(3,4) unfolding leads_to_def by fastforce
qed

definition set_tempos :: "f64 list \<Rightarrow> engine \<Rightarrow> engine" where
  "set_tempos = fold set_tempo"

text \<open>No beat origin on the way has reached the end of its range.\<close>

definition origins_free :: "f64 list \<Rightarrow> engine \<Rightarrow> bool" where
  "origins_free bpms e \<longleftrightarrow>
     (\<forall>n < length bpms. sint (beat_origin (timeline (set_tempos (take n bpms) e))) < 2 ^ 63 - 1)"

lemma burst:
  assumes "legal_tempo (tempo (timeline e))" and "origins_free bpms e" and "ipv4_gateways e"
    and "e1 = set_tempos bpms e"
  shows "legal_tempo (tempo (timeline e1)) \<and> gateways e1 = gateways e \<and> enabled e1 = enabled e \<and>
    node e1 = node e \<and> session e1 = session e \<and> outgoing e e1 \<and>
    (bpms \<noteq> [] \<longrightarrow> sint (beat_origin (timeline e)) < sint (beat_origin (timeline e1))) \<and>
    (\<forall>i d. Send_multicast i d \<in> on_air e e1 \<longrightarrow> leads_to e (timeline e1) d)"
  using assms
proof (induction bpms arbitrary: e)
  case Nil
  then show ?case by (simp add: set_tempos_def on_air_def)
next
  case (Cons b bpms)
  let ?e = "set_tempo b e"
  note st = set_tempo_step [OF Cons.prems(1), of b]
  have o: "sint (beat_origin (timeline e)) < 2 ^ 63 - 1"
    using Cons.prems(2) unfolding origins_free_def by (auto simp: set_tempos_def dest: spec [of _ 0])
  have "origins_free bpms ?e"
    using Cons.prems(2) unfolding origins_free_def by (force simp: set_tempos_def)
  moreover have "ipv4_gateways ?e" using Cons.prems(3) st(4) by (simp add: ipv4_gateways_def)
  moreover have e1: "e1 = set_tempos bpms ?e" using Cons.prems(4) by (simp add: set_tempos_def)
  ultimately have ih: "legal_tempo (tempo (timeline e1)) \<and> gateways e1 = gateways ?e \<and> enabled e1 = enabled ?e \<and>
    node e1 = node ?e \<and> session e1 = session ?e \<and> outgoing ?e e1 \<and>
    (bpms \<noteq> [] \<longrightarrow> sint (beat_origin (timeline ?e)) < sint (beat_origin (timeline e1))) \<and>
    (\<forall>i d. Send_multicast i d \<in> on_air ?e e1 \<longrightarrow> leads_to ?e (timeline e1) d)"
    using Cons.IH [OF st(1)] by blast
  have last: "timeline ?e = timeline e1 \<or> sint (beat_origin (timeline ?e)) < sint (beat_origin (timeline e1))"
    using ih e1 by (cases "bpms = []") (simp_all add: set_tempos_def)
  have l: "leads_to ?e = leads_to e" by (simp add: leads_to_def fun_eq_iff)
  have "leads_to e (timeline e1) d" if "Send_multicast i d \<in> on_air e e1" for i d
  proof -
    have "Send_multicast i d \<in> on_air e ?e \<union> on_air ?e e1" using that on_air_trans [OF st(6)] ih by blast
    then show ?thesis
      using st(7) alive_leads [OF _ \<open>ipv4_gateways ?e\<close> st(1) last] ih unfolding l by blast
  qed
  then show ?case using ih st last o by (auto intro: outgoing_trans)
qed

section \<open>Origins stay in range\<close>

text \<open>For clocks and origins of any size that occurs in practice and bursts of up to 128 changes, no beat
  origin reaches the end of its range: the \<open>k\<close>th change moves the beat origin by no more than the beats
  between the clock and the time origin, and the time origin to the clock or by a micro-beat.\<close>

definition calm :: "nat \<Rightarrow> engine \<Rightarrow> bool" where
  "calm k e \<longleftrightarrow> legal_tempo (tempo (timeline e)) \<and> \<bar>sint (time_origin (timeline e))\<bar> \<le> 2 ^ 46 + 3 * int k \<and>
     \<bar>sint (beat_origin (timeline e))\<bar> \<le> 2 ^ 52 * (1 + int k) \<and> \<bar>sint (ghost_offset e)\<bar> \<le> 2 ^ 44 \<and>
     (\<forall>n. \<bar>sint (env_clock (env e) n)\<bar> \<le> 2 ^ 44)"

lemma calm_step:
  assumes "calm k e" and "k \<le> 128"
  shows "calm (Suc k) (set_tempo bpm e)"
proof -
  let ?l = "timeline e" and ?g = "fst (now e) + ghost_offset e" and ?l' = "timeline (set_tempo bpm e)"
  have k: "int k \<le> 128" using assms(2) by simp
  have c: "legal_tempo (tempo ?l)" "\<bar>sint (time_origin ?l)\<bar> \<le> 2 ^ 46 + 3 * int k"
    "\<bar>sint (beat_origin ?l)\<bar> \<le> 2 ^ 52 * (1 + int k)"
    "\<bar>sint (ghost_offset e)\<bar> \<le> 2 ^ 44" "\<bar>sint (fst (now e))\<bar> \<le> 2 ^ 44"
    using assms(1) by (simp_all add: calm_def now_def)
  have g: "sint ?g = sint (fst (now e)) + sint (ghost_offset e)"
    using c(4,5) by (intro sint_add_i64) (simp_all add: abs_le_iff)
  then have gb: "\<bar>sint ?g\<bar> \<le> 2 ^ 45" using c(4,5) by simp
  have d: "\<bar>sint ?g - sint (time_origin ?l)\<bar> \<le> 2 ^ 47" using gb c(2) k by simp
  obtain v where v: "beats_at_ghost ?l ?g = Some v" "sint v = beats_real ?l (sint ?g)"
    by (rule sint_beats_at_ghost [OF c(1), of ?g]) (use d c(3) k in simp_all)
  have "\<bar>nearest_quotient ((sint ?g - sint (time_origin ?l)) * 1000000) (sint (tempo ?l))\<bar> \<le> 17 * 2 ^ 47"
    by (rule order_trans [OF beats_quotient_bound [OF c(1)] mult_left_mono [OF d]]) simp
  then have vo: "\<bar>sint v - sint (beat_origin ?l)\<bar> \<le> 17 * 2 ^ 47" by (simp add: v(2) beats_real_def)
  define bo where "bo = smax v (beat_origin ?l + 1)"
  have t: "tempo ?l' = bpm_to_tempo bpm" "beat_origin ?l' = bo" "time_origin ?l' = ghost_at_beats ?l bo"
    using set_tempo_timeline [OF v(1), of bpm] by (simp_all add: bo_def Let_def)
  have one: "sint (beat_origin ?l + 1) = sint (beat_origin ?l) + 1"
    using c(3) k by (subst sint_add_i64) (simp_all add: abs_le_iff)
  have bo: "sint bo = max (sint v) (sint (beat_origin ?l) + 1)" by (simp add: bo_def one)
  have near: "\<bar>sint bo - sint (beat_origin ?l)\<bar> \<le> 17 * 2 ^ 47" 
    using vo by (cases "sint v \<le> sint (beat_origin ?l) + 1") (simp_all add: bo)
  have to: "sint (ghost_at_beats ?l bo) = ghost_real ?l (sint bo)"
    using near c(2) k by (intro sint_ghost_at_beats [OF c(1)]) simp_all
  have "\<bar>ghost_real ?l (sint bo)\<bar> \<le> 2 ^ 46 + 3 * int (Suc k)"
  proof (cases "sint bo = sint v")
    case True
    have "\<bar>ghost_real ?l (sint v) - sint ?g\<bar> \<le> 2"
      using ghost_beats_real_error [OF c(1), of "sint ?g"] by (simp add: v(2))
    with gb True show ?thesis by simp
  next
    case False
    then have "sint bo - sint (beat_origin ?l) = 1" using bo by auto
    then have "\<bar>ghost_real ?l (sint bo) - sint (time_origin ?l)\<bar> \<le> 3"
      using ghost_quotient_bound [OF c(1), of "sint bo - sint (beat_origin ?l)"] by (simp add: ghost_real_def)
    with c(2) show ?thesis by simp
  qed
  moreover have "\<bar>sint bo\<bar> \<le> 2 ^ 52 * (1 + int (Suc k))" using near c(3) by simp
  moreover have "ghost_offset (set_tempo bpm e) = ghost_offset e" "env (set_tempo bpm e) = env e"
    using v(1) by (simp_all add: set_tempo_def now_def Let_def quiet_fields)
  ultimately show ?thesis using assms(1) by (simp add: calm_def t to)
qed

lemma calm_burst: "calm k e \<Longrightarrow> k + length bpms \<le> 129 \<Longrightarrow> calm (k + length bpms) (set_tempos bpms e)"
proof (induction bpms arbitrary: k e)
  case (Cons b bpms)
  have "calm (Suc k) (set_tempo b e)" using Cons.prems by (intro calm_step) simp_all
  from Cons.IH [OF this] Cons.prems(2) show ?case by (simp add: set_tempos_def)
qed (simp add: set_tempos_def)

lemma calm_origins_free:
  assumes "calm 0 e" and "length bpms \<le> 128"
  shows "origins_free bpms e"
  unfolding origins_free_def
proof (intro allI impI)
  fix n assume n: "n < length bpms"
  have "calm (0 + length (take n bpms)) (set_tempos (take n bpms) e)"
    by (rule calm_burst) (use assms n in simp_all)
  then have "\<bar>sint (beat_origin (timeline (set_tempos (take n bpms) e)))\<bar> \<le> 2 ^ 52 * (1 + int n)"
    using n by (simp add: calm_def)
  moreover have "int n < 128" using n assms(2) by simp
  ultimately show "sint (beat_origin (timeline (set_tempos (take n bpms) e))) < 2 ^ 63 - 1" by simp
qed

section \<open>The tempo that is shown\<close>

text \<open>\<open>Link::tempo\<close>.\<close>

definition get_tempo :: "engine \<Rightarrow> f64" where
  "get_tempo e = tempo_to_bpm (tempo (timeline e))"

text \<open>The wire has whole microseconds per beat: a tempo that the application sets is shown to within a
  hundredth of a beat per minute.\<close>

lemma tempo_shown_near:
  assumes "20 \<le> r" and "r \<le> 999"
  shows "\<exists>w. tempo_to_bpm (bpm_to_tempo (Fin r)) = Fin w \<and> \<bar>w - r\<bar> < 9 / 1000"
proof -
  define c where "c = 60000000 / r"
  have c: "60060 + 6 / 100 \<le> c" "c \<le> 3000000" using assms by (simp_all add: c_def field_simps)
  obtain v where v: "rnd c = Fin v" "\<bar>v - c\<bar> \<le> c / 2 ^ 53"
    by (rule rnd_relative [of c]) (use c in simp_all)
  have "c / 2 ^ 53 \<le> 3000000 / 2 ^ 53" using c(2) by (intro divide_right_mono) simp_all
  also have "\<dots> \<le> 1 / 10 ^ 8" by simp
  finally have "\<bar>v - c\<bar> \<le> 1 / 10 ^ 8" using v(2) by (rule order_trans [rotated])
  then have ve: "v - c \<le> 1 / 10 ^ 8" "c - v \<le> 1 / 10 ^ 8" by (simp_all only: abs_le_iff) simp_all
  have v0: "0 \<le> v" using ve c(1) by simp
  define n where "n = round_half_away v"
  have "n = \<lfloor>v + 1 / 2\<rfloor>" using v0 by (simp add: n_def round_half_away_def)
  then have ne: "of_int n - v \<le> 1 / 2" "v - of_int n \<le> 1 / 2" by linarith+
  have "60059 < (of_int n :: rat)" "(of_int n :: rat) < 3000001" using ne ve c by simp_all
  then have n: "60060 \<le> n" "n \<le> 3000000" by linarith+
  have t: "bpm_to_tempo (Fin r) = word_of_int n"
  proof -
    have "sint (word_of_int n :: i64) = n" using n by (intro sint_of_int_i64) simp_all
    then have "clamp_tempo (word_of_int n) = word_of_int n" using n by (intro i64_eqI) (simp add: sint_clamp_tempo)
    then show ?thesis using assms v(1) n by (simp add: bpm_to_tempo_def f64_clamp_def n_def [symmetric] flip: c_def)
  qed
  have n0: "60060 \<le> (of_int n :: rat)" "(of_int n :: rat) \<le> 3000000" using n by linarith+
  then have x: "1 \<le> 60000000 / (of_int n :: rat)" "60000000 / (of_int n :: rat) \<le> 1000"
    by (simp_all add: field_simps)
  obtain w where w: "rnd (60000000 / of_int n) = Fin w" "\<bar>w - 60000000 / of_int n\<bar> \<le> 60000000 / of_int n / 2 ^ 53"
    by (rule rnd_relative [of "60000000 / of_int n"]) (use x in simp_all)
  have "60000000 / of_int n / 2 ^ 53 \<le> (1000 / 2 ^ 53 :: rat)" using x(2) by (intro divide_right_mono) simp_all
  also have "\<dots> \<le> 1 / 10 ^ 8" by simp
  finally have we: "\<bar>w - 60000000 / of_int n\<bar> \<le> 1 / 10 ^ 8" using w(2) by (rule order_trans [rotated])
  have cn: "\<bar>c - of_int n\<bar> \<le> 1 / 2 + 1 / 10 ^ 8" using ne ve by (intro abs_leI) linarith+
  have "60000000 / of_int n - r = r * (c - of_int n) / of_int n"
    using assms n0 by (simp add: c_def field_simps)
  then have "\<bar>60000000 / of_int n - r\<bar> = r * \<bar>c - of_int n\<bar> / of_int n"
    using assms n0 by (simp add: abs_mult)
  also have "\<dots> \<le> 999 * (1 / 2 + 1 / 10 ^ 8) / 60060"
    using assms n0 cn by (intro frac_le mult_mono) simp_all
  finally have "\<bar>60000000 / of_int n - r\<bar> \<le> 999 * (1 / 2 + 1 / 10 ^ 8) / 60060" .
  then have "\<bar>w - r\<bar> \<le> 1 / 10 ^ 8 + 999 * (1 / 2 + 1 / 10 ^ 8) / 60060"
    using we abs_triangle_ineq [of "w - 60000000 / of_int n" "60000000 / of_int n - r"] by simp
  also have "\<dots> < 9 / 1000" by simp
  finally have "\<bar>w - r\<bar> < 9 / 1000" .
  moreover have "tempo_to_bpm (word_of_int n) = Fin w"
    using w(1) n f64_of_int_exact [of n] by (simp add: tempo_to_bpm_def sint_of_int_i64)
  ultimately show ?thesis by (simp add: t)
qed

section \<open>Peers that hear it\<close>

type_synonym hearing = "nat \<times> socket_addr \<times> bytes"

definition hear :: "hearing list \<Rightarrow> engine \<Rightarrow> engine" where
  "hear = fold (\<lambda>(g, src, d). handle_discovery_datagram g src d)"

lemma handle_alive_keeps:
  assumes "enabled p" and "n \<noteq> node p" and "wire_peer_state ps" and "ps_session ps = Some (session p)"
  shows "session (handle_discovery_datagram g src (encode_disc (disc_alive n ps)) p) = session p"
    and "node (handle_discovery_datagram g src (encode_disc (disc_alive n ps)) p) = node p"
    and "enabled (handle_discovery_datagram g src (encode_disc (disc_alive n ps)) p)"
proof -
  have n: "node (schedule_broadcast e) = node e" for e by (rule quiet_fields) simp
  have "enabled (respond g src p)" using assms(1) by (simp add: respond_def transmit_def split: option.split)
  then show "session (handle_discovery_datagram g src (encode_disc (disc_alive n ps)) p) = session p"
    "node (handle_discovery_datagram g src (encode_disc (disc_alive n ps)) p) = node p"
    "enabled (handle_discovery_datagram g src (encode_disc (disc_alive n ps)) p)"
    using assms(4)
    by (simp_all add: handle_alive_process [OF assms(1-3)] process_peer_state_def follow_session_def record_peer_def
        now_def notify_def n adopt_timeline_def adopt_start_stop_def Let_def split: option.split)
qed

lemma hears_burst:
  assumes "enabled p" and "node p \<noteq> node e" and "session p = session e"
    and "timeline p = l \<or> sint (beat_origin (timeline p)) < sint (beat_origin l)"
    and "\<forall>x \<in> set ds. leads_to e l (snd (snd x))"
  shows "timeline (hear ds p) = l \<or> sint (beat_origin (timeline (hear ds p))) < sint (beat_origin l)"
    and "timeline p = l \<Longrightarrow> timeline (hear ds p) = l"
    and "enabled (hear ds p)" "node (hear ds p) = node p" "session (hear ds p) = session p"
proof -
  have "(timeline (hear ds p) = l \<or> sint (beat_origin (timeline (hear ds p))) < sint (beat_origin l)) \<and>
      (timeline p = l \<longrightarrow> timeline (hear ds p) = l) \<and> enabled (hear ds p) \<and> node (hear ds p) = node p \<and>
      session (hear ds p) = session p"
    using assms
  proof (induction ds arbitrary: p)
    case Nil
    then show ?case by (simp add: hear_def)
  next
    case (Cons x ds)
    obtain g src d where x: "x = (g, src, d)" by (cases x)
    obtain ps l' where d: "d = encode_disc (disc_alive (node e) ps)" "wire_peer_state ps"
      "ps_session ps = Some (session p)" "ps_timeline ps = Some l'" "legal_tempo (tempo l')"
      "l' = l \<or> sint (beat_origin l') < sint (beat_origin l)"
      using Cons.prems(3,5) by (auto simp: x leads_to_def)
    let ?p = "handle_discovery_datagram g src d p"
    have n: "node e \<noteq> node p" using Cons.prems(2) by simp
    note k = handle_alive_keeps [OF Cons.prems(1) n d(2,3), of g src, folded d(1)]
    have t: "timeline ?p = (if sint (beat_origin (timeline p)) < sint (beat_origin l') then l' else timeline p)"
      using handle_alive_same_session [OF Cons.prems(1) n d(2,3), of g src] d(4,5)
      by (simp add: d(1) tempo_gossip.receive)
    have "timeline ?p = l \<or> sint (beat_origin (timeline ?p)) < sint (beat_origin l)"
      using t d(6) Cons.prems(4) by auto
    moreover have "timeline p = l \<longrightarrow> timeline ?p = l" using t d(6) by auto
    ultimately show ?case using Cons.IH [of ?p] Cons.prems k by (simp add: hear_def x)
  qed
  then show "timeline (hear ds p) = l \<or> sint (beat_origin (timeline (hear ds p))) < sint (beat_origin l)"
    and "timeline p = l \<Longrightarrow> timeline (hear ds p) = l"
    and "enabled (hear ds p)" "node (hear ds p) = node p" "session (hear ds p) = session p" by blast+
qed

lemma hears_last:
  assumes "enabled p" and "node p \<noteq> node e" and "session p = session e"
    and "sint (beat_origin (timeline p)) < sint (beat_origin (timeline e1))" and "legal_tempo (tempo (timeline e1))"
    and "ipv4_gateways e1" and "node e1 = node e" and "session e1 = session e"
    and "\<forall>x \<in> set ds. leads_to e (timeline e1) (snd (snd x))"
    and "\<exists>(g, src, d) \<in> set ds. \<exists>i. Send_multicast i d \<in> alive_datagrams e1"
  shows "timeline (hear ds p) = timeline e1"
proof -
  obtain g src d i where x: "(g, src, d) \<in> set ds" "Send_multicast i d \<in> alive_datagrams e1" using assms(10) by auto
  then obtain as bs where ds: "ds = as @ (g, src, d) # bs" by (meson split_list)
  define q where "q = hear as p"
  have q: "timeline q = timeline e1 \<or> sint (beat_origin (timeline q)) < sint (beat_origin (timeline e1))"
    "enabled q" "node q = node p" "session q = session p"
    unfolding q_def using hears_burst [OF assms(1-3) disjI2 [OF assms(4)], of as] assms(9) ds by simp_all
  obtain j gw where gw: "(j, gw) \<in> set (gateways e1)" "d = encode_disc (disc_alive (node e1) (build_state e1 gw))"
    using x(2) by (auto simp: alive_datagrams_def)
  have w: "wire_peer_state (build_state e1 gw)"
    using assms(6) gw(1) by (auto simp: ipv4_gateways_def list_all_iff intro: build_state_wire)
  have n: "node e1 \<noteq> node q" using assms(7) q(3) assms(2) by simp
  have s: "ps_session (build_state e1 gw) = Some (session q)" using assms(8) q(4) assms(3) by simp
  let ?q = "handle_discovery_datagram g src d q"
  have tq: "timeline ?q = timeline e1"
    using handle_alive_same_session [OF q(2) n w s, of g src] q(1) assms(5)
    by (auto simp: gw(2) tempo_gossip.receive)
  note k = handle_alive_keeps [OF q(2) n w s, of g src, folded gw(2)]
  have "timeline (hear bs ?q) = timeline e1"
    by (rule hears_burst(2) [of _ e]) (use k q assms(2,3,9) tq ds in simp_all)
  then show ?thesis by (simp add: ds hear_def q_def)
qed

text \<open>C4: A burst of tempo changes prevails, whatever the network does to it. The last tempo is announced on every
  gateway, by the last change itself or, when changes follow each other too fast, by a broadcast that is
  due and that the next pass of the housekeeping thread at or after its time makes. A peer of the session with
  an older timeline that hears the datagrams of the burst, in any order, any number of times and not all
  of them, but one of those that announce the last tempo, follows the caller's timeline, and its application reads this tempo to within
  nine thousandths of a beat per minute.\<close>

theorem tempo_burst_converges:
  assumes "enabled e" and "legal_tempo (tempo (timeline e))" and "origins_free bpms e" and "ipv4_gateways e"
    and "bpms \<noteq> []" and "e1 = set_tempos bpms e"
    and "enabled p" and "node p \<noteq> node e" and "session p = session e"
    and "sint (beat_origin (timeline p)) \<le> sint (beat_origin (timeline e))"
    and "\<forall>(g, src, d) \<in> set ds. \<exists>i. Send_multicast i d \<in> on_air e e1 \<union> alive_datagrams e1"
    and "\<exists>(g, src, d) \<in> set ds. \<exists>i. Send_multicast i d \<in> alive_datagrams e1"
  shows "timeline (hear ds p) = timeline e1 \<and> tempo (timeline e1) = bpm_to_tempo (last bpms) \<and>
    (\<forall>r. last bpms = Fin r \<longrightarrow> 20 \<le> r \<longrightarrow> r \<le> 999 \<longrightarrow> (\<exists>w. get_tempo (hear ds p) = Fin w \<and> \<bar>w - r\<bar> < 9 / 1000)) \<and>
    (alive_datagrams e1 \<subseteq> on_air e e1 \<or>
      (\<exists>due. broadcast_due e1 = Some due \<and>
        (sint due \<le> sint (fst (now e1)) \<longrightarrow> alive_datagrams e1 \<subseteq> on_air e1 (snd (housekeeping_pass e1)))))"
proof -
  note b = burst [OF assms(2-4,6)]
  have g1: "ipv4_gateways e1" using b assms(4) by (simp add: ipv4_gateways_def)
  have lt: "leads_to e1 = leads_to e" using b by (simp add: leads_to_def fun_eq_iff)
  have own: "leads_to e (timeline e1) d" if "Send_multicast i d \<in> alive_datagrams e1" for i d
    using alive_leads [OF that g1, of "timeline e1"] b unfolding lt by blast
  have leads: "\<forall>x \<in> set ds. leads_to e (timeline e1) (snd (snd x))" using assms(11) own b by fastforce
  have older: "sint (beat_origin (timeline p)) < sint (beat_origin (timeline e1))" using b assms(5,10) by auto
  have h: "timeline (hear ds p) = timeline e1"
    by (rule hears_last [of p e e1 ds]) (use assms(7-9,12) b older g1 leads in simp_all)
  define e0 where "e0 = set_tempos (butlast bpms) e"
  have e1: "e1 = set_tempo (last bpms) e0"
    using assms(5) append_butlast_last_id [OF assms(5)]
    by (metis assms(6) e0_def fold_append fold_simps comp_apply set_tempos_def)
  have "origins_free (butlast bpms) e"
    using assms(3) by (auto simp: origins_free_def take_butlast)
  note b0 = burst [OF assms(2) this assms(4) e0_def]
  have l0: "legal_tempo (tempo (timeline e0))" "enabled e0" "outgoing e e0" using b0 assms(1) by simp_all
  note st = set_tempo_step [OF l0(1), of "last bpms", folded e1]
  have "on_air e0 e1 \<subseteq> on_air e e1" using on_air_trans [OF l0(3) st(6)] by blast
  then have "alive_datagrams e1 \<subseteq> on_air e e1 \<or> broadcast_due e1 \<noteq> None" using st(8) [OF l0(2)] by blast
  moreover have "sint due \<le> sint (fst (now e1)) \<longrightarrow> alive_datagrams e1 \<subseteq> on_air e1 (snd (housekeeping_pass e1))"
    if "broadcast_due e1 = Some due" for due
    unfolding on_air_def using pass_broadcasts [OF _ that] b assms(1) by simp
  moreover have "\<exists>w. get_tempo (hear ds p) = Fin w \<and> \<bar>w - r\<bar> < 9 / 1000" if "last bpms = Fin r" "20 \<le> r" "r \<le> 999" for r
    using tempo_shown_near [OF that(2,3)] h st(2) that(1) by (simp add: get_tempo_def)
  ultimately show ?thesis using h st(2) by blast
qed

section \<open>The greatest origin\<close>

text \<open>A timeline whose beat origin is the greatest there is ends it: a peer that hears it follows it, and no change
  of the tempo, its own application's among them, has a greater origin for others to follow.\<close>

lemma greatest_origin_freezes:
  assumes "enabled p" and "n \<noteq> node p" and "wire_peer_state ps" and "ps_session ps = Some (session p)"
    and "ps_timeline ps = Some l" and "legal_tempo (tempo l)" and "sint (beat_origin l) = 2 ^ 63 - 1"
    and "sint (beat_origin (timeline p)) < 2 ^ 63 - 1" and "p' = handle_discovery_datagram g src (encode_disc (disc_alive n ps)) p"
  shows "timeline p' = l" and "timeline q = l \<Longrightarrow> adopt_timeline (Some (timeline (set_tempo bpm p'))) q = q"
proof -
  show "timeline p' = l"
    using handle_alive_same_session [OF assms(1-4), of g src] assms(5-8) by (simp add: assms(9) tempo_gossip.receive)
  have "\<not> 2 ^ 63 - 1 < sint x" for x :: i64 using i64_range [of x] by simp
  then show "adopt_timeline (Some (timeline (set_tempo bpm p'))) q = q" if "timeline q = l"
    using that assms(7) by (simp add: adopt_timeline_def word_sless_alt)
qed

section \<open>The example program\<close>

text \<open>\<^verbatim>\<open>examples/rapid_tempo.rs\<close>: two peers, \<open>a\<close> and \<open>b\<close>, find a session, \<open>b\<close> sets a tempo, \<open>a\<close> steps it up twenty-four
  times without a pause, and \<open>b\<close> must follow. What the threads of both peers and the network do in between
  are functions on the pair.\<close>

type_synonym world = "engine \<times> engine"

text \<open>A loop that looks at the peers until a condition holds or its time is over: \<open>None\<close> when it is still
  waiting after the given looks, each with the time that has passed and what happens before it.\<close>

fun await :: "nat \<Rightarrow> (world \<Rightarrow> bool) \<Rightarrow> (nat \<times> (world \<Rightarrow> world)) list \<Rightarrow> world \<Rightarrow> bool option \<times> world" where
  "await limit P [] w = (None, w)"
| "await limit P ((elapsed, f) # looks) w = (if limit \<le> elapsed then (Some False, w)
     else let w = f w in if P w then (Some True, w) else await limit P looks w)"

definition joined :: "world \<Rightarrow> bool" where
  "joined w \<longleftrightarrow> count_peers (fst w) = 1 \<and> count_peers (snd w) = 1 \<and> session (fst w) = session (snd w)"

definition near_tempo :: "f64 \<Rightarrow> engine \<Rightarrow> bool" where
  "near_tempo bpm e \<longleftrightarrow> f64_less (f64_abs (f64_sub (get_tempo e) bpm)) (rnd (1 / 100))"

definition burst_steps :: "f64 list" where
  "burst_steps = map (\<lambda>step. f64_add (Fin 100) (f64_of_int (int step))) [1..<25]"

datatype verdict = OK | No_common_session | Stuck | Waiting

definition join_phase :: "(nat \<times> (world \<Rightarrow> world)) list \<Rightarrow> world \<Rightarrow> verdict \<times> world" where
  "join_phase looks w =
     (case await 10000000 joined looks w of
        (None, w) \<Rightarrow> (Waiting, w)
      | (Some _, w) \<Rightarrow> (if session (fst w) = session (snd w) then OK else No_common_session, w))"

definition follow_phase :: "(nat \<times> (world \<Rightarrow> world)) list \<Rightarrow> world \<Rightarrow> verdict \<times> world" where
  "follow_phase looks = (\<lambda>(a, b).
     case await 5000000 (\<lambda>(a, b). near_tempo (Fin 100) a) looks (a, set_tempo (Fin 100) b) of
       (None, w) \<Rightarrow> (Waiting, w)
     | (Some _, w) \<Rightarrow> (OK, w))"

definition burst_phase :: "(nat \<Rightarrow> world \<Rightarrow> world) \<Rightarrow> (nat \<times> (world \<Rightarrow> world)) list \<Rightarrow> world \<Rightarrow> verdict \<times> world" where
  "burst_phase others looks w =
     (case await 5000000 (\<lambda>(a, b). near_tempo (Fin 124) b) looks
         (foldl (\<lambda>w (n, bpm). let (a, b) = others n w in (set_tempo bpm a, b)) w (zip [0..<24] burst_steps)) of
        (None, w) \<Rightarrow> (Waiting, w)
      | (Some True, w) \<Rightarrow> (OK, w)
      | (Some False, w) \<Rightarrow> (Stuck, w))"

definition rapid_tempo ::
  "(nat \<Rightarrow> world \<Rightarrow> world) \<Rightarrow> (nat \<Rightarrow> (nat \<times> (world \<Rightarrow> world)) list) \<Rightarrow> world \<Rightarrow> verdict \<times> world" where
  "rapid_tempo others looks w =
     (let (a, b) = w; (a, b) = others 24 (enable a, b); (v, w) = join_phase (looks 0) (a, enable b) in
      if v \<noteq> OK then (v, w) else
      let (v, w) = follow_phase (looks 1) (others 25 w) in
      if v \<noteq> OK then (v, w) else burst_phase others (looks 2) w)"

text \<open>The tolerance of the program is the precision of the wire.\<close>

lemma near_shown:
  assumes "get_tempo e = Fin w" and "\<bar>w - r\<bar> < 9 / 1000"
  shows "near_tempo (Fin r) e"
proof -
  have r: "representable (5 / 512)" "representable (- (5 / 512))" "representable (81 / 8192)" "representable (0 :: rat)"
    "representable (1 :: rat)"
    unfolding representable_def
    by (rule exI [of _ 5], rule exI [of _ "- 9"], simp add: power_int_minus)
      (rule exI [of _ "- 5"], rule exI [of _ "- 9"], simp add: power_int_minus,
       rule exI [of _ 81], rule exI [of _ "- 13"], simp add: power_int_minus,
       rule exI [of _ 0], rule exI [of _ 0], simp, rule exI [of _ 1], rule exI [of _ 0], simp)
  have l: "\<bar>5 / 512 :: rat\<bar> < f64_limit" "\<bar>- (5 / 512) :: rat\<bar> < f64_limit" "\<bar>81 / 8192 :: rat\<bar> < f64_limit" "\<bar>1 :: rat\<bar> < f64_limit"
    using f64_limit_big by simp_all
  have "w - r < 9 / 1000" "- (w - r) < 9 / 1000" using assms(2) by (simp_all only: abs_less_iff)
  then have "- (5 / 512) \<le> w - r" "w - r \<le> 5 / 512" by linarith+
  then obtain d where d: "rnd (w - r) = Fin d" "- (5 / 512) \<le> d" "d \<le> 5 / 512"
    using rnd_Fin_between [OF r(2,1) l(2,1)] by blast
  obtain h where h: "rnd (1 / 100) = Fin h" "81 / 8192 \<le> h"
    using rnd_Fin_between [OF r(3,5) l(3,4), of "1 / 100"] by auto
  have "\<bar>d\<bar> < h" using d h by (simp add: abs_less_iff)
  with d(1) h(1) show ?thesis by (simp add: near_tempo_def f64_sub_def assms(1))
qed

lemma burst_foldl:
  "length ns = length bpms \<Longrightarrow>
    foldl (\<lambda>w (n, bpm). case w of (a, b) \<Rightarrow> (set_tempo bpm a, b)) (a, b) (zip ns bpms) = (set_tempos bpms a, b)"
  by (induction ns bpms arbitrary: a rule: list_induct2) (simp_all add: set_tempos_def)

definition example_steady :: "id \<Rightarrow> engine" where
  "example_steady n = (example_member n)\<lparr>env := example_env\<lparr>env_clock := \<lambda>_. 1000000\<rparr>\<rparr>"

lemma tempo_burst_converges_witness:
  "fst (burst_phase (\<lambda>_ w. w)
     [(50000, \<lambda>(a, b). (a, hear [(0, V4 9 9, encode_disc (disc_alive (Id 1) (build_state a example_gateway)))] b))]
     (example_steady (Id 1), example_member (Id 2))) = OK"
proof -
  let ?e = "example_steady (Id 1)" and ?p = "example_member (Id 2)"
  let ?e1 = "set_tempos burst_steps ?e"
  let ?ds = "[(0 :: nat, V4 9 9, encode_disc (disc_alive (Id 1) (build_state ?e1 example_gateway)))]"
  have len: "length burst_steps = 24" "burst_steps \<noteq> []" by (simp_all add: burst_steps_def)
  have last: "last burst_steps = Fin 124"
    using f64_of_int_exact [of 24] f64_of_int_exact [of 124] by (simp add: burst_steps_def last_map f64_of_int_def)
  have t: "legal_tempo (tempo (timeline ?e))" by (simp add: example_steady_def tempo_at_def legal_tempo_def)
  have "calm 0 ?e" using t by (simp add: calm_def example_steady_def tempo_at_def)
  then have free: "origins_free burst_steps ?e" using len by (intro calm_origins_free) simp_all
  have g: "ipv4_gateways ?e" by (simp add: ipv4_gateways_def example_steady_def example_gateway_def ipv4_endpoint_def)
  have "gateways ?e1 = gateways ?e" "node ?e1 = node ?e" using burst [OF t free g refl] by simp_all
  then have d: "Send_multicast 0 (encode_disc (disc_alive (Id 1) (build_state ?e1 example_gateway))) \<in> alive_datagrams ?e1"
    by (simp add: alive_datagrams_def example_steady_def example_gateway_def)
  have m: "enabled ?e" "enabled ?p" "node ?p \<noteq> node ?e" "session ?p = session ?e"
    "sint (beat_origin (timeline ?p)) \<le> sint (beat_origin (timeline ?e))"
    by (simp_all add: example_steady_def)
  have ds: "\<forall>(g, src, d) \<in> set ?ds. \<exists>i. Send_multicast i d \<in> on_air ?e ?e1 \<union> alive_datagrams ?e1"
    "\<exists>(g, src, d) \<in> set ?ds. \<exists>i. Send_multicast i d \<in> alive_datagrams ?e1"
    using d by auto
  have "\<exists>w. get_tempo (hear ?ds ?p) = Fin w \<and> \<bar>w - 124\<bar> < 9 / 1000"
    using tempo_burst_converges [OF m(1) t free g len(2) refl m(2-5) ds] last by simp
  then have "near_tempo (Fin 124) (hear ?ds ?p)" by (auto intro: near_shown)
  then show ?thesis by (simp add: burst_phase_def burst_foldl len)
qed

end
