(* ===== verification/Peer_Network.thy ===== *)
theory Peer_Network
  imports Tempo_Burst
begin

text \<open>
  Any number of peers of this implementation on one network. A peer acts on its own, or handles, on the socket it
  is meant for, a datagram that some peer has sent: the network loses, repeats, delays and reorders as it
  likes. Where a tempo comes from is a property of the whole network.
\<close>

section \<open>The network\<close>

text \<open>What a thread of a peer does without receiving, where its application sets only tempos in a given set.\<close>

inductive own_step :: "f64 set \<Rightarrow> system \<Rightarrow> system \<Rightarrow> bool" for B where
  housekeeping: "own_step B s (s\<lparr>eng := snd (housekeeping_pass (eng s))\<rparr>)"
| call: "positive_rate c \<Longrightarrow> (\<And>bpm. c = Set_tempo bpm \<Longrightarrow> bpm \<in> B) \<Longrightarrow>
    own_step B s (s\<lparr>eng := perform c (eng s)\<rparr>)"
| enable: "fresh_epoch s \<Longrightarrow> own_step B s (s\<lparr>eng := enable (eng s)\<rparr>)"
| disable: "fresh_epoch s \<Longrightarrow> own_step B s (s\<lparr>eng := disable (eng s)\<rparr>)"
| crash: "fresh_epoch s \<Longrightarrow> own_step B s (s\<lparr>eng := simulate_crash (eng s)\<rparr>)"
| wake: "enabled (eng s) \<Longrightarrow> epoch (eng s) = ep \<Longrightarrow> cf_gateways (config (eng s)) = Auto \<Longrightarrow>
    scans s ep = None \<Longrightarrow> own_step B s (s\<lparr>scans := (scans s)(ep \<mapsto> Woken)\<rparr>)"
| plan: "scans s ep = Some Woken \<Longrightarrow> scan (eng s) = (pl, e) \<Longrightarrow>
    own_step B s (s\<lparr>eng := e, scans := (scans s)(ep \<mapsto> Planned pl)\<rparr>)"
| rescan: "scans s ep = Some (Planned pl) \<Longrightarrow>
    own_step B s (s\<lparr>eng := apply_plan pl ep (eng s), scans := (scans s)(ep := None)\<rparr>)"

text \<open>The socket a datagram is meant for, and its bytes.\<close>

fun carried :: "send \<Rightarrow> role \<times> bytes" where
  "carried (Send_multicast _ bs) = (McastDiscovery, bs)"
| "carried (Send_unicast _ bs _) = (UnicastDiscovery, bs)"
| "carried (Send_measurement _ bs _) = (Measurement, bs)"
| "carried (Send_audio _ bs _) = (Audio, bs)"

inductive net_step :: "f64 set \<Rightarrow> system list \<Rightarrow> system list \<Rightarrow> bool" for B where
  act: "i < length ns \<Longrightarrow> own_step B (ns ! i) s \<Longrightarrow> net_step B ns (ns[i := s])"
| deliver: "i < length ns \<Longrightarrow> j < length ns \<Longrightarrow> x \<in> set (sent (eng (ns ! j))) \<Longrightarrow> carried x = (r, bs) \<Longrightarrow>
    net_step B ns (ns[i := (ns ! i)\<lparr>eng := receive gw ep src bs r (eng (ns ! i))\<rparr>])"

text \<open>The sockets of a gateway are bound to IPv4 addresses.\<close>

definition ipv4_env :: "env \<Rightarrow> bool" where
  "ipv4_env v \<longleftrightarrow> (\<forall>n a m au. env_open v n a = Some (m, au) \<longrightarrow> ipv4_endpoint m \<and> ipv4_endpoint au)"

inductive net_reachable :: "f64 set \<Rightarrow> system list \<Rightarrow> bool" for B where
  start: "(\<And>s. s \<in> set ns \<Longrightarrow> \<exists>bpm c v. s = \<lparr>eng = new_engine bpm c v, scans = Map.empty\<rparr> \<and> bpm \<in> B \<and> ipv4_env v) \<Longrightarrow> net_reachable B ns"
| step: "net_reachable B ns \<Longrightarrow> net_step B ns ns' \<Longrightarrow> net_reachable B ns'"

lemma own_step_step: "own_step B s s' \<Longrightarrow> step s s'"
  by (induction rule: own_step.induct) (auto intro: System.step.intros)

section \<open>Where tempos come from\<close>

definition asked :: "f64 set \<Rightarrow> i64 \<Rightarrow> bool" where
  "asked B t \<longleftrightarrow> t \<in> bpm_to_tempo ` B"

definition honest_state :: "f64 set \<Rightarrow> peer_state \<Rightarrow> bool" where
  "honest_state B ps \<longleftrightarrow> pred_option (\<lambda>l. asked B (tempo l)) (ps_timeline ps)"

definition honest_bytes :: "f64 set \<Rightarrow> bytes \<Rightarrow> bool" where
  "honest_bytes B bs \<longleftrightarrow> (\<forall>f ps. decode_disc bs = Inr f \<longrightarrow>
     df_message f = Alive ps \<or> df_message f = Response ps \<longrightarrow> honest_state B ps)"

definition honest :: "f64 set \<Rightarrow> send \<Rightarrow> bool" where
  "honest B x \<longleftrightarrow> (case carried x of (r, bs) \<Rightarrow> r = McastDiscovery \<or> r = UnicastDiscovery \<longrightarrow> honest_bytes B bs)"

definition provenance :: "f64 set \<Rightarrow> engine \<Rightarrow> bool" where
  "provenance B e \<longleftrightarrow> asked B (tempo (timeline e)) \<and> (\<forall>x \<in> set (foreign_timelines e). asked B (tempo (snd x))) \<and>
     (\<forall>x \<in> set (sent e). honest B x) \<and> ipv4_gateways e \<and> ipv4_env (env e)"

lemma honest_simps [simp]:
  "honest B (Send_multicast i bs) \<longleftrightarrow> honest_bytes B bs" "honest B (Send_unicast i bs dst) \<longleftrightarrow> honest_bytes B bs"
  "honest B (Send_measurement i bs dst)" "honest B (Send_audio i bs dst)"
  by (simp_all add: honest_def)

lemma asked_legal: "asked B t \<Longrightarrow> clamp_tempo t = t"
  by (auto simp: asked_def intro: clamp_legal)

lemma honest_bye [simp]: "honest_bytes B (encode_disc (disc_bye_bye n))"
  by (simp add: honest_bytes_def decode_encode_disc disc_bye_bye_def)

text \<open>What a peer says of itself is honest when the peer is.\<close>

lemma honest_about_itself:
  assumes "provenance B e" and "(i, gw) \<in> set (gateways e)"
  shows "honest_bytes B (encode_disc (disc_alive n (build_state e gw)))"
    and "honest_bytes B (encode_disc (disc_response n (build_state e gw)))"
proof -
  have "wire_peer_state (build_state e gw)" "asked B (tempo (timeline e))"
    using assms by (auto simp: provenance_def ipv4_gateways_def list_all_iff intro: build_state_wire)
  then show "honest_bytes B (encode_disc (disc_alive n (build_state e gw)))"
    "honest_bytes B (encode_disc (disc_response n (build_state e gw)))"
    by (simp_all add: honest_bytes_def honest_state_def decode_encode_disc disc_alive_def disc_response_def)
qed

lemma provenance_update [simp]:
  "provenance B (e\<lparr>node := i\<rparr>) = provenance B e" "provenance B (e\<lparr>session := i\<rparr>) = provenance B e"
  "provenance B (e\<lparr>ghost_offset := d\<rparr>) = provenance B e" "provenance B (e\<lparr>held_stst := h\<rparr>) = provenance B e"
  "provenance B (e\<lparr>app_playing := b\<rparr>) = provenance B e" "provenance B (e\<lparr>sst_sync := b\<rparr>) = provenance B e"
  "provenance B (e\<lparr>peers := ps\<rparr>) = provenance B e" "provenance B (e\<lparr>session_member_seen := b\<rparr>) = provenance B e"
  "provenance B (e\<lparr>measured := ms\<rparr>) = provenance B e" "provenance B (e\<lparr>measurement := m\<rparr>) = provenance B e"
  "provenance B (e\<lparr>pending := ts\<rparr>) = provenance B e" "provenance B (e\<lparr>next_remeasure_at := r\<rparr>) = provenance B e"
  "provenance B (e\<lparr>audio := a\<rparr>) = provenance B e" "provenance B (e\<lparr>clock_reads := c\<rparr>) = provenance B e"
  "provenance B (e\<lparr>id_draws := c\<rparr>) = provenance B e" "provenance B (e\<lparr>open_calls := c\<rparr>) = provenance B e"
  "provenance B (e\<lparr>scan_calls := c\<rparr>) = provenance B e" "provenance B (panic e) = provenance B e"
  "provenance B (e\<lparr>broadcast_due := x\<rparr>) = provenance B e" "provenance B (e\<lparr>enabled := b\<rparr>) = provenance B e"
  "provenance B (e\<lparr>epoch := n\<rparr>) = provenance B e" "provenance B (e\<lparr>next_gateway_id := g\<rparr>) = provenance B e"
  "provenance B (e\<lparr>wakes := w\<rparr>) = provenance B e" "provenance B (e\<lparr>last_alive_at := t\<rparr>) = provenance B e"
  "provenance B (e\<lparr>last_broadcast_at := t\<rparr>) = provenance B e"
  by (simp_all add: provenance_def panic_def ipv4_gateways_def)

lemma provenance_timeline [simp]:
  "asked B (tempo l) \<Longrightarrow> provenance B e \<Longrightarrow> provenance B (e\<lparr>timeline := l\<rparr>)"
  by (simp add: provenance_def ipv4_gateways_def)

lemma provenance_tempo [simp]: "provenance B e \<Longrightarrow> asked B (tempo (timeline e))"
  by (simp add: provenance_def)

lemma provenance_transmit [simp]:
  "provenance B (transmit xs e) \<longleftrightarrow> provenance B e \<and> (\<forall>x \<in> set xs. honest B x)"
  by (auto simp: provenance_def transmit_def ipv4_gateways_def)

lemma provenance_basic [simp]:
  "provenance B (notify e) = provenance B e" "provenance B (snd (now e)) = provenance B e"
  by (simp_all add: notify_def now_def)

lemma provenance_send_alive [simp]:
  "provenance B (send_alive t e) = provenance B e" "(i, gw) \<in> set (gateways e) \<Longrightarrow> provenance B (send_alive_on gw e) = provenance B e"
  "provenance B (schedule_broadcast e) = provenance B e"
proof -
  have s: "provenance B (send_alive t e) = provenance B e" for t e
    using honest_about_itself(1) [of B e] by (auto simp: send_alive_def)
  then show "provenance B (send_alive t e) = provenance B e" .
  show "provenance B (send_alive_on gw e) = provenance B e" if "(i, gw) \<in> set (gateways e)"
    using honest_about_itself(1) [OF _ that, of B] by (auto simp: send_alive_on_def)
  show "provenance B (schedule_broadcast e) = provenance B e"
    using s by (simp add: schedule_broadcast_def now_def Let_def)
qed

lemma provenance_sends [simp]:
  "provenance B (send_via gw bs dst e) = provenance B e" "provenance B (send_all ms e) = provenance B e"
  "provenance B (send_request ch stop e) = provenance B e" "provenance B (send_byes chs e) = provenance B e"
  "provenance B (send_datagrams ds ns e) = provenance B e" "provenance B (send_ping g dst bs e) = provenance B e"
proof -
  show v: "provenance B (send_via gw bs dst e) = provenance B e" for gw bs dst e
    by (simp add: send_via_def split: option.split)
  show a: "provenance B (send_all ms e) = provenance B e" for ms e
    unfolding send_all_def
  proof (induction ms arbitrary: e)
    case (Cons m ms)
    then show ?case by (cases m) (simp add: v)
  qed simp
  show "provenance B (send_request ch stop e) = provenance B e" "provenance B (send_byes chs e) = provenance B e"
    "provenance B (send_datagrams ds ns e) = provenance B e" "provenance B (send_ping g dst bs e) = provenance B e"
    by (simp_all add: send_request_def send_byes_def send_datagrams_def send_ping_def v a Let_def split: option.split)
qed

section \<open>Every operation keeps it\<close>

lemma provenance_audio [simp]:
  "provenance B (handle_audio_datagram gw src buf e) = provenance B e" "provenance B (store_sink ch k e) = provenance B e"
  "provenance B (peer_left n e) = provenance B e" "provenance B (gateway_closed g e) = provenance B e"
  "provenance B (audio_shutdown e) = provenance B e" "provenance B (enable_audio name e) = provenance B e"
  "provenance B (disable_audio e) = provenance B e" "provenance B (unpublish ch e) = provenance B e"
  "provenance B (subscribe ch q e) = provenance B e" "provenance B (unsubscribe ch e) = provenance B e"
  "provenance B (snd (publish name e)) = provenance B e"
proof -
  show "provenance B (handle_audio_datagram gw src buf e) = provenance B e"
    by (simp add: handle_audio_datagram_def handle_audio_message_def handle_announcement_def now_def Let_def
        split: option.split sum.split audio_message.split)
  have sh: "provenance B (audio_shutdown e) = provenance B e" for e
    by (simp add: audio_shutdown_def split: option.split)
  then show "provenance B (audio_shutdown e) = provenance B e" "provenance B (disable_audio e) = provenance B e"
    by (simp_all add: disable_audio_def)
qed (simp_all add: store_sink_def peer_left_def gateway_closed_def enable_audio_def unpublish_def subscribe_def
    unsubscribe_def publish_def random_id_def now_def Let_def split: option.split)

lemma provenance_write [simp]: "provenance B (write_sink ch samples rate nc b q e) = provenance B e"
  by (simp add: write_sink_def now_def Let_def split: option.split sum.split)

lemma provenance_audio_housekeeping [simp]: "provenance B (snd (audio_housekeeping t e)) = provenance B e"
proof -
  have f: "provenance B (foldl (\<lambda>e i. send_request i False e) e due) = provenance B e" for e due
    by (induction due arbitrary: e) simp_all
  have a: "provenance B (announce t e) = provenance B e" for e
    by (simp add: announce_def Let_def split: option.split)
  have x: "provenance B (snd (audio_expire t nx e)) = provenance B e" for nx e
    by (simp add: audio_expire_def Let_def split: option.split)
  show ?thesis by (simp add: audio_housekeeping_def Let_def f a x split: option.split)
qed

lemma provenance_measuring [simp]:
  "provenance B (start_next_measurement e) = provenance B e"
  "provenance B (queue_measurement g s ps pur e) = provenance B e" "provenance B (queue_remeasure e) = provenance B e"
  "provenance B (measurement_failed m e) = provenance B e"
proof -
  show s: "provenance B (start_next_measurement e) = provenance B e" for e
    by (simp add: start_next_measurement_def now_def Let_def split: list.split option.split)
  show "provenance B (queue_measurement g s ps pur e) = provenance B e" "provenance B (queue_remeasure e) = provenance B e"
    by (simp_all add: queue_measurement_def queue_remeasure_def Let_def s split: option.split)
  show "provenance B (measurement_failed m e) = provenance B e"
    by (simp add: measurement_failed_def now_def Let_def s split: purpose.split)
qed

lemma provenance_evaluate_join [simp]: "provenance B e \<Longrightarrow> provenance B (evaluate_join sess d e)"
proof -
  assume p: "provenance B e"
  have "asked B (tempo (clamped l))" if "map_of (foreign_timelines e) sess = Some l" for l
    using p map_of_SomeD [OF that] asked_legal by (fastforce simp: provenance_def clamped_def)
  with p show ?thesis by (simp add: evaluate_join_def now_def Let_def split: option.split)
qed

lemma provenance_check_session_loss [simp]: "provenance B e \<Longrightarrow> provenance B (check_session_loss e)"
  by (simp add: check_session_loss_def reset_session_def now_def random_id_def Let_def split: option.split)

lemma provenance_departed [simp]: "provenance B (departed lost e) = provenance B e"
  unfolding departed_def by (induction lost arbitrary: e) simp_all

lemma provenance_measurement [simp]: "provenance B e \<Longrightarrow> provenance B (handle_measurement_datagram g src buf e)"
proof -
  have s: "provenance B e \<Longrightarrow> provenance B (measurement_succeeded m d e)" for m d e
    by (simp add: measurement_succeeded_def now_def Let_def split: purpose.split)
  have "provenance B e \<Longrightarrow> provenance B (handle_pong g src p e)" for p e
    by (simp add: handle_pong_def finish_or_chain_def now_def s split: option.split)
  then show "provenance B e \<Longrightarrow> ?thesis"
    by (simp add: handle_measurement_datagram_def now_def Let_def split: sum.split sync_message.split)
qed

lemma provenance_follow:
  assumes "provenance B e" and "honest_state B ps"
  shows "provenance B (follow_session g ps sess e)"
proof -
  have a: "provenance B (adopt_timeline (ps_timeline ps) e)" if "provenance B e" for e
    using that assms(2) asked_legal
    by (auto simp: adopt_timeline_def honest_state_def clamped_def split: option.split intro!: provenance_timeline)
  have x: "provenance B (adopt_start_stop x e) = provenance B e" for x e
    by (simp add: adopt_start_stop_def Let_def split: option.split)
  have "provenance B (cache_timeline sess (ps_timeline ps) e)"
    using assms by (auto simp: cache_timeline_def honest_state_def provenance_def ipv4_gateways_def
        split: option.split dest!: mem_update)
  then show ?thesis using a assms(1) x by (simp add: follow_session_def Let_def split: option.split)
qed

lemma provenance_discovery:
  assumes "provenance B e" and "honest_bytes B buf"
  shows "provenance B (handle_discovery_datagram g src buf e)"
proof -
  have b: "provenance B e \<Longrightarrow> provenance B (handle_bye n g e)" for n e
    by (simp add: handle_bye_def and_then_def)
  have r: "provenance B (record_peer g n ttl ps e) = provenance B e" for n ttl ps e
    by (simp add: record_peer_def now_def)
  have p: "provenance B e \<Longrightarrow> honest_state B ps \<Longrightarrow> provenance B (process_peer_state g n ttl ps e)" for n ttl ps e
    by (simp add: process_peer_state_def r provenance_follow Let_def split: option.split)
  have a: "provenance B (respond g src e)"
    using assms(1) honest_about_itself(2) [OF assms(1)] by (auto simp: respond_def dest: map_of_SomeD split: option.split)
  show ?thesis
    using assms a by (auto simp: handle_discovery_datagram_def Let_def b p honest_bytes_def split: sum.split disc_message.split)
qed

lemma provenance_housekeeping: "provenance B e \<Longrightarrow> provenance B (snd (housekeeping_pass e))"
proof -
  have [simp]: "provenance B (alive_step t e) = provenance B e" "provenance B (snd (broadcast_step t x)) = provenance B (snd x)"
    "provenance B (snd (retry_step t x)) = provenance B (snd x)" "provenance B (snd (remeasure_step t x)) = provenance B (snd x)"
    for t e x
    by (simp add: alive_step_def)
      (cases x; simp add: broadcast_step_def retry_step_def remeasure_step_def Let_def split: option.split)+
  have p: "provenance B (snd x) \<Longrightarrow> provenance B (snd (prune_step t x))" for t x
    by (cases x) (simp add: prune_step_def prune_peers_def Let_def)
  show "provenance B e \<Longrightarrow> ?thesis"
    by (simp add: housekeeping_pass_def now_def Let_def case_prod_unfold p)
qed

lemma provenance_or_panic [simp]: "provenance B (or_panic (r, e)) = provenance B e"
  by (simp add: or_panic_def split: option.split)

lemma provenance_call:
  assumes "provenance B e" and "\<And>bpm. c = Set_tempo bpm \<Longrightarrow> bpm \<in> B"
  shows "provenance B (perform c e)"
proof (cases c)
  case (Set_tempo bpm)
  then have "asked B (bpm_to_tempo bpm)" using assms(2) by (simp add: asked_def)
  then show ?thesis using assms(1) by (simp add: Set_tempo set_tempo_def now_def Let_def split: option.split)
qed (use assms(1) in \<open>simp_all add: set_is_playing_def enable_start_stop_sync_def capture_session_def subscribe_channel_def
    poll_channel_def has_requesters_def write_channel_def now_def Let_def split: option.split\<close>)

lemma provenance_fewer: "provenance B e \<Longrightarrow> set gs \<subseteq> set (gateways e) \<Longrightarrow> provenance B (e\<lparr>gateways := gs\<rparr>)"
  by (auto simp: provenance_def ipv4_gateways_def list_all_iff)

lemma provenance_close_address: "provenance B e \<Longrightarrow> provenance B (close_address addr e)"
proof -
  have c: "provenance B e \<Longrightarrow> provenance B (and_then (close_gateway i) e)" for i e
    by (auto simp: and_then_def close_gateway_def Let_def split: option.split
        intro!: provenance_check_session_loss provenance_fewer dest: mem_delete)
  have "provenance B e \<Longrightarrow> provenance B (foldl (\<lambda>e i. and_then (close_gateway i) e) e ids)" for ids
    by (induction ids arbitrary: e) (simp_all add: c)
  then show "provenance B e \<Longrightarrow> ?thesis" by (simp add: close_address_def Let_def)
qed

lemma provenance_open: "provenance B e \<Longrightarrow> provenance B (snd (open_gateway addr e))"
  by (auto simp: open_gateway_def Let_def provenance_def ipv4_gateways_def ipv4_env_def list_all_iff
      split: option.split dest!: mem_update)

lemma provenance_announce: "provenance B e \<Longrightarrow> provenance B (open_and_announce addr e)"
proof -
  assume p: "provenance B e"
  obtain gw e1 where o: "open_gateway addr e = (gw, e1)" by (cases "open_gateway addr e")
  have "(gw_id g, g) \<in> set (gateways e1)" if "gw = Some g" for g
    using o that by (auto simp: open_gateway_def Let_def split: option.splits intro: in_update)
  then show ?thesis
    using provenance_open [OF p, of addr] o by (auto simp: open_and_announce_def split: option.split)
qed

lemma provenance_rescan: "provenance B e \<Longrightarrow> provenance B (apply_plan pl ep e)"
proof -
  have c: "provenance B e \<Longrightarrow> provenance B (foldl (\<lambda>e addr. if panicked e then e else close_address addr e) e as)" for as
    by (induction as arbitrary: e) (simp_all add: provenance_close_address)
  have o: "provenance B e \<Longrightarrow> provenance B (foldl (\<lambda>e addr. open_and_announce addr e) e as)" for as e
    by (induction as arbitrary: e) (simp_all add: provenance_announce)
  show "provenance B e \<Longrightarrow> ?thesis" by (simp add: apply_plan_def Let_def and_then_def c o)
qed

lemma provenance_opened_up: "provenance B e \<Longrightarrow> provenance B (opened_up e)"
proof -
  have "provenance B e \<Longrightarrow> provenance B (foldl (\<lambda>e addr. snd (open_gateway addr e)) e as)" for as e
    by (induction as arbitrary: e) (simp_all add: provenance_open)
  moreover have "provenance B e \<Longrightarrow> provenance B (snd (initial_addrs e))"
    by (simp add: initial_addrs_def split: gateways_config.split)
  ultimately show "provenance B e \<Longrightarrow> ?thesis" by (simp add: opened_up_def)
qed

lemma provenance_found_session: "provenance B e \<Longrightarrow> provenance B (snd (found_session e))"
  by (cases "env_ids (env e) (id_draws e)")
    (simp_all add: found_session_def random_id_def now_def Let_def, simp_all add: provenance_def ipv4_gateways_def panic_def)

lemma provenance_enable: "provenance B e \<Longrightarrow> provenance B (enable e)"
  by (cases e rule: enable_cases) (simp_all add: provenance_found_session provenance_opened_up)

lemma provenance_leave: "provenance B e \<Longrightarrow> provenance B (disable e)" "provenance B e \<Longrightarrow> provenance B (simulate_crash e)"
  by (auto simp: disable_def simulate_crash_def Let_def intro!: provenance_fewer)

section \<open>The whole network\<close>

lemma own_step_provenance: "own_step B s s' \<Longrightarrow> provenance B (eng s) \<Longrightarrow> provenance B (eng s')"
  by (induction rule: own_step.induct)
    (auto simp: provenance_housekeeping provenance_call provenance_enable provenance_leave provenance_rescan scan_def)

lemma net_provenance: "net_reachable B ns \<Longrightarrow> s \<in> set ns \<Longrightarrow> provenance B (eng s)"
proof (induction arbitrary: s rule: net_reachable.induct)
  case (start ns)
  then obtain bpm c v where "s = \<lparr>eng = new_engine bpm c v, scans = Map.empty\<rparr>" "bpm \<in> B" "ipv4_env v" by blast
  then show ?case by (simp add: provenance_def new_engine_def Let_def asked_def ipv4_gateways_def)
next
  case (step ns ns')
  from step.hyps(2) show ?case
  proof cases
    case (act i t)
    then have "provenance B (eng t)" using own_step_provenance step.IH by (meson nth_mem)
    then show ?thesis using step.prems step.IH act(1) by (auto dest!: set_update_subset_insert [THEN subsetD])
  next
    case (deliver i j x r bs gw ep src)
    have "honest B x" using step.IH [of "ns ! j"] deliver by (simp add: provenance_def)
    then have h: "r = McastDiscovery \<or> r = UnicastDiscovery \<longrightarrow> honest_bytes B bs" using deliver by (simp add: honest_def)
    have "provenance B (eng (ns ! i))" using step.IH deliver by simp
    then have "provenance B (receive gw ep src bs r (eng (ns ! i)))"
      using h by (simp add: receive_def dispatch_def provenance_discovery split: role.split)
    then show ?thesis using step.prems step.IH deliver(1) by (auto dest!: set_update_subset_insert [THEN subsetD])
  qed
qed

text \<open>C7: A tempo comes from an application. In a network of any number of peers of this implementation, which loses,
  repeats, delays and reorders datagrams as it likes, every peer's tempo, and every tempo in a datagram that
  announces a peer, is one that the application of some peer has asked for, at its creation or by a call: none is
  made up by gossip, elections, measurements, joining, leaving and crashing.\<close>

theorem tempo_provenance:
  assumes "net_reachable B ns" and "s \<in> set ns"
  shows "tempo (timeline (eng s)) \<in> bpm_to_tempo ` B \<and>
    (\<forall>x \<in> set (sent (eng s)). \<forall>f ps l. fst (carried x) \<in> {McastDiscovery, UnicastDiscovery} \<longrightarrow>
      decode_disc (snd (carried x)) = Inr f \<longrightarrow> df_message f = Alive ps \<or> df_message f = Response ps \<longrightarrow>
      ps_timeline ps = Some l \<longrightarrow> tempo l \<in> bpm_to_tempo ` B)"
proof -
  have p: "provenance B (eng s)" by (rule net_provenance [OF assms])
  then have "asked B (tempo (timeline (eng s)))" by simp
  moreover have "asked B (tempo l)" if "x \<in> set (sent (eng s))" "fst (carried x) \<in> {McastDiscovery, UnicastDiscovery}"
    "decode_disc (snd (carried x)) = Inr f" "df_message f = Alive ps \<or> df_message f = Response ps" "ps_timeline ps = Some l"
    for x f ps l
  proof -
    have "honest B x" using p that(1) by (simp add: provenance_def)
    then show ?thesis
      using that(2-5) by (auto simp: honest_def honest_bytes_def honest_state_def case_prod_unfold)
  qed
  ultimately show ?thesis unfolding asked_def by blast
qed


text \<open>An application chooses a tempo and its peer joins the network, as another has; the other hears of it.\<close>

definition example_speaker :: "u64 \<Rightarrow> system" where
  "example_speaker k = \<lparr>eng = new_engine (Fin 120) \<lparr>cf_gateways = Explicit [0x7F000001], fill_audio_datagrams = False\<rparr>
     (example_env\<lparr>env_ids := \<lambda>n. Some (Id (word_of_nat n + k))\<rparr>), scans = Map.empty\<rparr>"

definition acting :: "nat \<Rightarrow> (engine \<Rightarrow> engine) \<Rightarrow> system list \<Rightarrow> system list" where
  "acting i f ns = ns[i := (ns ! i)\<lparr>eng := f (eng (ns ! i))\<rparr>]"

definition example_speakers :: "system list" where
  "example_speakers = acting 0 enable (acting 1 enable
     (acting 0 (perform (Set_tempo (Fin 90))) [example_speaker 1, example_speaker 101]))"

definition example_net :: "system list" where
  "example_net = acting 1 (receive 0 1 (V4 0x7F000001 PORT)
     (snd (carried (hd (sent (eng (example_speakers ! 0)))))) McastDiscovery) example_speakers"

lemma act_reachable:
  "net_reachable B ns \<Longrightarrow> i < length ns \<Longrightarrow> own_step B (ns ! i) ((ns ! i)\<lparr>eng := f (eng (ns ! i))\<rparr>) \<Longrightarrow>
    net_reachable B (acting i f ns)"
  unfolding acting_def by (rule net_reachable.step, assumption, rule net_step.act)

lemma acting_enable:
  "net_reachable B ns \<Longrightarrow> i < length ns \<Longrightarrow> fresh_epoch (ns ! i) \<Longrightarrow> net_reachable B (acting i enable ns)"
  by (rule act_reachable) (auto intro: own_step.enable)

lemma acting_set_tempo:
  "net_reachable B ns \<Longrightarrow> i < length ns \<Longrightarrow> bpm \<in> B \<Longrightarrow> net_reachable B (acting i (perform (Set_tempo bpm)) ns)"
  by (rule act_reachable) (auto intro!: own_step.call simp del: perform.simps)

lemma length_acting [simp]: "length (acting i f ns) = length ns"
  by (simp add: acting_def)

lemma enable_sends:
  assumes "\<not> enabled e" "gateways e = []" "sent e = []" "next_gateway_id e = 0"
    "cf_gateways (config e) = Explicit [addr]" "env_open (env e) (open_calls e) addr = Some (m, au)"
    "\<And>n. env_ids (env e) n \<noteq> None"
  shows "\<exists>bs. sent (enable e) = [Send_multicast 0 bs]"
  using assms(1-6) assms(7) [of "id_draws e"] by (auto simp: enable_def found_session_def random_id_def now_def initial_addrs_def open_gateway_def
      send_alive_def notify_def transmit_def Let_def)

lemma example_sent: "\<exists>bs. sent (eng (example_speakers ! 0)) = [Send_multicast 0 bs]"
proof -
  let ?e = "set_tempo (Fin 90) (eng (example_speaker 1))"
  have "\<not> enabled ?e" "gateways ?e = []" "sent ?e = []" "next_gateway_id ?e = 0" "open_calls ?e = 0"
    "cf_gateways (config ?e) = Explicit [0x7F000001]" "env_open (env ?e) = env_open example_env"
    "env_ids (env ?e) = (\<lambda>n. Some (Id (word_of_nat n + 1)))"
    by (simp_all add: set_tempo_def example_speaker_def new_engine_def now_def schedule_broadcast_def panic_def
        Let_def split: option.split)
  then have "\<exists>bs. sent (enable ?e) = [Send_multicast 0 bs]" by (intro enable_sends) (simp_all add: example_env_def)
  then show ?thesis by (simp add: example_speakers_def acting_def)
qed

lemma example_net_reachable: "net_reachable {Fin 120, Fin 90} example_net"
proof -
  let ?B = "{Fin 120, Fin 90}" and ?x = "hd (sent (eng (example_speakers ! 0)))"
  have v: "ipv4_env (example_env\<lparr>env_ids := d\<rparr>)" for d by (simp add: ipv4_env_def example_env_def ipv4_endpoint_def)
  have "net_reachable ?B [example_speaker 1, example_speaker 101]"
    by (rule net_reachable.start) (use v in \<open>auto simp: example_speaker_def\<close>)
  then have "net_reachable ?B (acting 0 (perform (Set_tempo (Fin 90))) [example_speaker 1, example_speaker 101])"
    by (rule acting_set_tempo) simp_all
  then have "net_reachable ?B example_speakers"
    unfolding example_speakers_def
    by (intro acting_enable) (simp_all add: acting_def example_speaker_def fresh_epoch_def)
  moreover have "net_step ?B example_speakers example_net"
    unfolding example_net_def acting_def
  proof (rule net_step.deliver [where j = 0 and x = ?x])
    obtain bs where bs: "sent (eng (example_speakers ! 0)) = [Send_multicast 0 bs]" using example_sent ..
    then show "?x \<in> set (sent (eng (example_speakers ! 0)))" "carried ?x = (McastDiscovery, snd (carried ?x))" by simp_all
  qed (simp_all add: example_speakers_def)
  ultimately show ?thesis by (rule net_reachable.step)
qed

lemma tempo_provenance_witness:
  "tempo (timeline (eng (example_net ! 1))) \<in> bpm_to_tempo ` {Fin 120, Fin 90}"
  using tempo_provenance [OF example_net_reachable, of "example_net ! 1"] by (simp add: example_net_def example_speakers_def acting_def)

end
