(* ===== verification/Clock_Sync.thy ===== *)
theory Clock_Sync
  imports Propagation
begin

text \<open>
  A clock measurement from its first ping to the offset it settles on, \<^verbatim>\<open>crates/tactus/src/engine.rs\<close>:
  one exchange between two peers, the accuracy of its samples and of their median, and the two ways
  a measurement ends.
\<close>

section \<open>One exchange\<close>

lemma send_ping_Some:
  "map_of (gateways e) g = Some gw \<Longrightarrow> send_ping g dst bs e = transmit [Send_measurement (gw_id gw) bs dst] e"
  by (simp add: send_ping_def)

text \<open>The responder keeps no state: a datagram that decodes to a ping of at most 32 bytes of payload is
  answered by the pong that echoes it.\<close>

lemma answer_ping:
  assumes "enabled e" and "map_of (gateways e) g = Some gw" and "decode_sync buf = Inr (Ping ping)"
    and "length (ping_payload ping) \<le> MAX_PING_PAYLOAD"
  shows "handle_measurement_datagram g src buf e = transmit [Send_measurement (gw_id gw)
    (encode_pong (session e) (fst (now e) + ghost_offset e) (ping_payload ping)) src] (snd (now e))"
  using assms by (simp add: handle_measurement_datagram_def now_def Let_def send_ping_Some)

text \<open>A pong that the running measurement admits.\<close>

definition admits :: "measurement \<Rightarrow> nat \<Rightarrow> socket_addr \<Rightarrow> pong \<Rightarrow> bool" where
  "admits m g src pong \<longleftrightarrow> mt_gateway (m_task m) = g \<and> mt_target (m_task m) = src \<and>
     mt_session (m_task m) = pong_session pong"

lemma handle_admitted:
  assumes "enabled e" and "measurement e = Some m" and "decode_sync buf = Inr (Pong pong)"
    and "admits m g src pong"
  shows "handle_measurement_datagram g src buf e =
    finish_or_chain (fst (now e)) (pong_ghost_time pong) (take_samples (fst (now e)) pong m) (snd (now e))"
  using assms by (simp add: handle_measurement_datagram_def handle_pong_def admits_def now_def)

text \<open>One exchange between two peers. The responder \<open>b\<close> answers the initiator's ping, whatever its
  state, with one datagram to the sender and changes nothing else; the initiator \<open>a\<close>, measuring \<open>b\<close>'s
  session at the address the answer comes from, takes from it the samples of exactly the four times of
  the exchange: its own sending and receiving times, \<open>b\<close>'s ghost time and the previous ghost time.\<close>

theorem measurement_exchange:
  assumes "enabled a" and "measurement a = Some m" and "enabled b" and "map_of (gateways b) gb = Some gw"
    and "mt_session (m_task m) = session b"
  shows "\<exists>answer. sent (handle_measurement_datagram gb src (encode_ping h prev) b) =
      sent b @ [Send_measurement (gw_id gw) answer src] \<and>
    quiet b (handle_measurement_datagram gb src (encode_ping h prev) b) \<and>
    handle_measurement_datagram (mt_gateway (m_task m)) (mt_target (m_task m)) answer a =
      finish_or_chain (fst (now a)) (fst (now b) + ghost_offset b)
        (m\<lparr>m_samples := m_samples m @
          pong_samples (fst (now a)) (fst (now b) + ghost_offset b) (Some h) prev\<rparr>) (snd (now a))"
proof -
  let ?payload = "concat (map entry_bytes (ping_entries h prev))" and ?g = "fst (now b) + ghost_offset b"
  let ?answer = "encode_pong (session b) ?g ?payload"
  have "length ?payload \<le> MAX_PING_PAYLOAD"
    by (simp add: ping_entries_def MAX_PING_PAYLOAD_def split: option.split)
  then have b: "handle_measurement_datagram gb src (encode_ping h prev) b =
      transmit [Send_measurement (gw_id gw) ?answer src] (snd (now b))"
    using answer_ping [OF assms(3,4) decode_ping_bytes] by simp
  have "parse_echo ?payload = Inr (Some h, prev)" by (simp add: parse_echo_def fold_ping_entries)
  then have "take_samples t \<lparr>pong_session = session b, pong_ghost_time = ?g, pong_echo = ?payload\<rparr> m =
      m\<lparr>m_samples := m_samples m @ pong_samples t ?g (Some h) prev\<rparr>" for t
    by (simp add: take_samples_def echo_times_def)
  then have "handle_measurement_datagram (mt_gateway (m_task m)) (mt_target (m_task m)) ?answer a =
      finish_or_chain (fst (now a)) ?g (m\<lparr>m_samples := m_samples m @
        pong_samples (fst (now a)) ?g (Some h) prev\<rparr>) (snd (now a))"
    using handle_admitted [OF assms(1,2) decode_pong_bytes] assms(5) by (simp add: admits_def)
  moreover have "quiet b (transmit [Send_measurement (gw_id gw) ?answer src] (snd (now b)))"
    by (rule quiet_trans [OF quiet_now quiet_transmit])
  ultimately show ?thesis unfolding b by (auto simp: transmit_def now_def)
qed

definition example_measurement :: measurement where
  "example_measurement = \<lparr>m_task = \<lparr>mt_session = Id 1, mt_target = V4 0x7F000001 9000, mt_gateway = 0,
     mt_purpose = Join\<rparr>, m_samples = [], m_timeouts = 0, m_retry_deadline = 50000\<rparr>"

definition example_initiator :: engine where
  "example_initiator = (example_member (Id 2))\<lparr>session := Id 2, measurement := Some example_measurement\<rparr>"

lemma example_initiator_fields [simp]:
  "enabled example_initiator" "measurement example_initiator = Some example_measurement"
  "clock_reads example_initiator = 0" "env example_initiator = example_env"
  by (simp_all add: example_initiator_def)

lemma measurement_exchange_witness:
  "\<exists>answer. sent (handle_measurement_datagram 0 (V4 0x7F000001 9002) (encode_ping 999990 None) (example_member (Id 1)))
      = [Send_measurement 0 answer (V4 0x7F000001 9002)] \<and>
    handle_measurement_datagram 0 (V4 0x7F000001 9000) answer example_initiator =
      finish_or_chain 1000000 1000000 (example_measurement\<lparr>m_samples :=
        pong_samples 1000000 1000000 (Some 999990) None\<rparr>) (snd (now example_initiator))"
proof -
  have "fst (now example_initiator) = 1000000" "fst (now (example_member (Id 1))) = 1000000"
    by (simp_all add: now_def example_env_def)
  then show ?thesis
    using measurement_exchange [of example_initiator example_measurement "example_member (Id 1)" 0
        example_gateway "V4 0x7F000001 9002" 999990 None]
    by (auto simp: example_measurement_def example_gateway_def)
qed

section \<open>Accuracy\<close>

definition clock_range :: "i64 \<Rightarrow> bool" where
  "clock_range x \<longleftrightarrow> \<bar>sint x\<bar> \<le> 2 ^ 51"

lemma rnd_half: "\<bar>i\<bar> \<le> 2 ^ 53 \<Longrightarrow> rnd (of_int i / 2) = Fin (of_int i / 2)"
proof -
  assume i: "\<bar>i\<bar> \<le> 2 ^ 53"
  then have "\<bar>of_int i :: rat\<bar> \<le> of_int (2 ^ 53)" by (simp only: of_int_abs [symmetric] of_int_le_iff)
  then have "\<bar>of_int i / 2 :: rat\<bar> < f64_limit" using f64_limit_big by simp
  with i show ?thesis by (simp add: rnd_exact representable_half)
qed

lemma f64_add_ints: "\<bar>i + j\<bar> \<le> 2 ^ 53 \<Longrightarrow> f64_add (Fin (of_int i)) (Fin (of_int j)) = Fin (of_int (i + j))"
  using f64_of_int_exact [of "i + j"] by (simp add: f64_of_int_def)

lemma f64_half: "\<bar>i\<bar> \<le> 2 ^ 53 \<Longrightarrow> f64_div (Fin (of_int i)) (Fin 2) = Fin (of_int i / 2)"
  using rnd_half [of i] by simp

lemma f64_of_i64_exact: "clock_range x \<Longrightarrow> f64_of_i64 x = Fin (of_int (sint x))"
  by (rule f64_of_int_exact) (simp add: clock_range_def)

lemma midpoint_exact:
  assumes "clock_range a" and "clock_range b"
  shows "f64_div (f64_add (f64_of_i64 a) (f64_of_i64 b)) (Fin 2) = Fin (of_int (sint a + sint b) / 2)"
proof -
  have s: "\<bar>sint a + sint b\<bar> \<le> 2 ^ 53" using assms by (simp add: clock_range_def abs_le_iff)
  show ?thesis unfolding f64_of_i64_exact [OF assms(1)] f64_of_i64_exact [OF assms(2)]
    by (simp only: f64_add_ints [OF s] f64_half [OF s])
qed

lemma sub_half:
  assumes "\<bar>2 * i - j\<bar> \<le> 2 ^ 53"
  shows "f64_sub (Fin (of_int i)) (Fin (of_int j / 2)) = Fin (of_int (2 * i - j) / 2)"
    "f64_sub (Fin (of_int j / 2)) (Fin (of_int i)) = Fin (of_int (j - 2 * i) / 2)"
proof -
  have "\<bar>j - 2 * i\<bar> \<le> 2 ^ 53" using assms by (simp only: abs_minus_commute)
  then show "f64_sub (Fin (of_int i)) (Fin (of_int j / 2)) = Fin (of_int (2 * i - j) / 2)"
    "f64_sub (Fin (of_int j / 2)) (Fin (of_int i)) = Fin (of_int (j - 2 * i) / 2)"
    using rnd_half [of "2 * i - j"] rnd_half [of "j - 2 * i"] assms
    by (simp_all add: f64_sub_def diff_divide_distrib)
qed

lemma pong_samples_exact:
  assumes "clock_range t" and "clock_range gt" and "clock_range h" and "clock_range p"
    and "gt \<noteq> 0" and "h \<noteq> 0" and "p \<noteq> 0"
  shows "pong_samples t gt (Some h) (Some p) =
    [Fin (of_int (2 * sint gt - (sint t + sint h)) / 2), Fin (of_int (sint gt + sint p - 2 * sint h) / 2)]"
proof -
  have b: "\<bar>2 * sint gt - (sint t + sint h)\<bar> \<le> 2 ^ 53" "\<bar>2 * sint h - (sint gt + sint p)\<bar> \<le> 2 ^ 53"
    using assms(1-4) by (simp_all add: clock_range_def abs_le_iff)
  have "f64_sub (f64_of_i64 gt) (f64_div (f64_add (f64_of_i64 t) (f64_of_i64 h)) (Fin 2)) =
      Fin (of_int (2 * sint gt - (sint t + sint h)) / 2)"
    by (simp only: midpoint_exact [OF assms(1,3)] f64_of_i64_exact [OF assms(2)] sub_half(1) [OF b(1)])
  moreover have "f64_sub (f64_div (f64_add (f64_of_i64 gt) (f64_of_i64 p)) (Fin 2)) (f64_of_i64 h) =
      Fin (of_int (sint gt + sint p - 2 * sint h) / 2)"
    by (simp only: midpoint_exact [OF assms(2,4)] f64_of_i64_exact [OF assms(3)] sub_half(2) [OF b(2)])
  ultimately show ?thesis using assms(5-7) by (simp only: pong_samples_def nonzero_def option.case if_False if_True not_False_eq_True)
qed

text \<open>C13: The samples of an exchange bracket the true offset \<open>d\<close> between the ghost clock and the local
  one. When the answer was made between the sending and the receiving of the exchange, the first sample
  is off by at most half the round trip of the ping; when the previous answer was made before this ping
  was sent, the second is off by at most half of the time between the two answers. No rounding error is
  added, for times up to \<open>2 ^ 51\<close> microseconds, some seventy years.\<close>

theorem sample_accuracy:
  assumes "clock_range t" and "clock_range gt" and "clock_range h" and "clock_range p"
    and "gt \<noteq> 0" and "h \<noteq> 0" and "p \<noteq> 0"
    and "sint h \<le> sint gt - d" and "sint gt - d \<le> sint t" and "sint p - d \<le> sint h"
  shows "\<exists>x y. pong_samples t gt (Some h) (Some p) = [Fin x, Fin y] \<and>
    2 * \<bar>x - of_int d\<bar> \<le> of_int (sint t - sint h) \<and> 2 * \<bar>y - of_int d\<bar> \<le> of_int (sint gt - sint p)"
proof -
  have i: "\<bar>2 * sint gt - (sint t + sint h) - 2 * d\<bar> \<le> sint t - sint h"
    "\<bar>sint gt + sint p - 2 * sint h - 2 * d\<bar> \<le> sint gt - sint p"
    using assms(8-10) by (simp_all add: abs_le_iff)
  have "2 * \<bar>of_int n / 2 - of_int d\<bar> \<le> (of_int k :: rat)" if "\<bar>n - 2 * d\<bar> \<le> k" for n k
  proof -
    have "of_int \<bar>n - 2 * d\<bar> \<le> (of_int k :: rat)" using that by (simp only: of_int_le_iff)
    moreover have "2 * \<bar>of_int n / 2 - of_int d :: rat\<bar> = of_int \<bar>n - 2 * d\<bar>" by (simp add: abs_if)
    ultimately show ?thesis by simp
  qed
  from this [OF i(1)] this [OF i(2)] show ?thesis
    unfolding pong_samples_exact [OF assms(1-7)] by blast
qed

lemma sample_accuracy_witness:
  "\<exists>x y. pong_samples 5000400 7000300 (Some 5000000) (Some 6999900) = [Fin x, Fin y] \<and>
    2 * \<bar>x - 2000000\<bar> \<le> 400 \<and> 2 * \<bar>y - 2000000\<bar> \<le> 400"
  using sample_accuracy [of 5000400 7000300 5000000 6999900 2000000] by (simp add: clock_range_def)

section \<open>The offset a measurement settles on\<close>

lemma start_next_measured [simp]: "measured (start_next_measurement e) = measured e"
  "ghost_offset (start_next_measurement e) = ghost_offset e" "session (start_next_measurement e) = session e"
  by (simp_all add: start_next_measurement_def now_def Let_def transmit_def split: list.split option.split)

lemma evaluate_join_measured:
  "map_of (measured e) sess = Some offset \<Longrightarrow> map_of (measured (evaluate_join sess offset e)) sess = Some offset"
  by (cases "sess = session e") (simp_all add: evaluate_join_def now_def Let_def update_conv' split: option.split)

lemma measurement_succeeded_measured:
  "map_of (measured (measurement_succeeded m offset e)) (mt_session (m_task m)) = Some offset"
  by (simp add: measurement_succeeded_def now_def Let_def evaluate_join_measured update_conv' split: purpose.split)

lemma remeasured_offset:
  "mt_purpose (m_task m) = Remeasure \<Longrightarrow> session e = mt_session (m_task m) \<Longrightarrow>
    ghost_offset (measurement_succeeded m offset e) = offset"
  by (simp add: measurement_succeeded_def now_def Let_def)

text \<open>C14: The pong that completes a measurement records an offset for the measured session that lies
  wherever the majority of all samples lies: with more than half of them within bounds, as
  \<open>sample_accuracy\<close> gives them, no number of outliers below that moves it out. A re-measurement of the
  current session adopts it as the peer's ghost clock.\<close>

theorem measured_offset_bounds:
  assumes "enabled e" and "measurement e = Some m" and "decode_sync buf = Inr (Pong pong)"
    and "admits m g src pong" and "NaN \<notin> set (m_samples m)"
    and "samples = m_samples (take_samples (fst (now e)) pong m)" and "SAMPLES_REQUIRED < length samples"
    and "\<bar>lo\<bar> \<le> 2 ^ 52" and "\<bar>hi\<bar> \<le> 2 ^ 52"
    and "length samples < 2 * length (filter (inside (Fin (of_int lo)) (Fin (of_int hi))) samples)"
  shows "\<exists>offset. map_of (measured (handle_measurement_datagram g src buf e)) (pong_session pong) = Some offset \<and>
    lo \<le> sint offset \<and> sint offset \<le> hi \<and>
    (if mt_purpose (m_task m) = Remeasure \<and> session e = pong_session pong
     then ghost_offset (handle_measurement_datagram g src buf e) = offset else True)"
proof -
  let ?m = "take_samples (fst (now e)) pong m" and ?e = "(snd (now e))\<lparr>measurement := None\<rparr>"
  have "NaN \<notin> set samples" unfolding assms(6) by (rule take_samples_no_NaN [OF assms(5)])
  then obtain offset where o: "median_round samples = Some offset" "lo \<le> sint offset" "sint offset \<le> hi"
    using median_round_between [OF _ assms(8-10)] by blast
  then have h: "handle_measurement_datagram g src buf e = measurement_succeeded ?m offset ?e"
    using assms(6,7) by (simp add: handle_admitted [OF assms(1-4)] finish_or_chain_def)
  have "session ?e = session e" by (simp add: now_def)
  then show ?thesis
    using o(2,3) assms(4) measurement_succeeded_measured [of ?m offset ?e] remeasured_offset [of ?m ?e offset]
    unfolding h by (simp add: admits_def)
qed

lemma measured_offset_bounds_witness:
  "\<exists>offset. map_of (measured (handle_measurement_datagram 0 (V4 0x7F000001 9000)
      (encode_pong (Id 1) 1000000 (concat (map entry_bytes (ping_entries 999990 None))))
      (example_initiator\<lparr>measurement := Some (example_measurement\<lparr>m_samples := replicate 100 (Fin 5)\<rparr>)\<rparr>)))
      (Id 1) = Some offset \<and> 4 \<le> sint offset \<and> sint offset \<le> 6"
proof -
  let ?m = "example_measurement\<lparr>m_samples := replicate 100 (Fin 5)\<rparr>"
  let ?e = "example_initiator\<lparr>measurement := Some ?m\<rparr>"
  let ?pong = "\<lparr>pong_session = Id 1, pong_ghost_time = 1000000,
    pong_echo = concat (map entry_bytes (ping_entries 999990 None))\<rparr>"
  obtain x where x: "m_samples (take_samples (fst (now ?e)) ?pong ?m) = replicate 100 (Fin 5) @ [x]"
    by (simp add: take_samples_def echo_times_def parse_echo_def fold_ping_entries pong_samples_def nonzero_def)
  have "inside (Fin 4) (Fin 6) (Fin 5)" by (simp add: inside_def)
  then have "length (filter (inside (Fin 4) (Fin 6)) (replicate 100 (Fin 5) @ [x])) \<ge> 100"
    by (simp add: filter_replicate)
  then show ?thesis
    using measured_offset_bounds [of ?e ?m "encode_pong (Id 1) 1000000 (pong_echo ?pong)" ?pong 0
        "V4 0x7F000001 9000" "replicate 100 (Fin 5) @ [x]" 4 6] x
    by (simp add: decode_pong_bytes admits_def example_measurement_def SAMPLES_REQUIRED_def)
qed

section \<open>The retry budget\<close>

fun due_in_turn :: "i64 list \<Rightarrow> i64 \<Rightarrow> bool" where
  "due_in_turn [] d \<longleftrightarrow> True"
| "due_in_turn (t # ts) d \<longleftrightarrow> d \<le>s t \<and> due_in_turn ts (t + MEASUREMENT_RETRY)"

lemma retry_counts:
  assumes "measurement e = Some m" and "m_timeouts m < MAX_MEASUREMENT_RETRIES" and "m_retry_deadline m \<le>s t"
  shows "measurement (snd (retry_step t (nx, e))) =
    Some (m\<lparr>m_timeouts := m_timeouts m + 1, m_retry_deadline := t + MEASUREMENT_RETRY\<rparr>)"
  using assms by (simp add: retry_step_def send_ping_def Let_def split: option.split)

lemma retries_counted:
  assumes "measurement (snd x) = Some m" and "m_timeouts m + length ts \<le> MAX_MEASUREMENT_RETRIES"
    and "due_in_turn ts (m_retry_deadline m)"
  shows "measurement (snd (fold retry_step ts x)) = Some (m\<lparr>m_timeouts := m_timeouts m + length ts,
    m_retry_deadline := (if ts = [] then m_retry_deadline m else last ts + MEASUREMENT_RETRY)\<rparr>)"
  using assms
proof (induction ts arbitrary: x m)
  case (Cons t ts)
  let ?m = "m\<lparr>m_timeouts := m_timeouts m + 1, m_retry_deadline := t + MEASUREMENT_RETRY\<rparr>"
  have "measurement (snd (retry_step t x)) = Some ?m"
    using retry_counts [of "snd x" m t "fst x"] Cons.prems by simp
  from Cons.IH [OF this] Cons.prems show ?case by simp
qed simp

text \<open>C15: An unanswered measurement ends. Five more expiries of its timer, each a retry with the same
  task, spend the budget of a new measurement, and the next one, whenever it comes, drops it and fails
  the task: a silent target cannot hold up the queue.\<close>

theorem unanswered_measurement_fails:
  assumes "measurement e = Some m" and "m_timeouts m + length ts = MAX_MEASUREMENT_RETRIES"
    and "due_in_turn (ts @ [t]) (m_retry_deadline m)"
  shows "\<exists>m'. measurement (snd (fold retry_step ts (nx, e))) = Some m' \<and> m_task m' = m_task m \<and>
    m_samples m' = m_samples m \<and>
    snd (retry_step t (fold retry_step ts (nx, e))) =
      measurement_failed m' ((snd (fold retry_step ts (nx, e)))\<lparr>measurement := None\<rparr>)"
proof -
  have due: "due_in_turn ts d \<and> (if ts = [] then d else last ts + MEASUREMENT_RETRY) \<le>s t"
    if "due_in_turn (ts @ [t]) d" for ts d
    using that by (induction ts d rule: due_in_turn.induct) auto
  obtain next' e' where f: "fold retry_step ts (nx, e) = (next', e')" by (cases "fold retry_step ts (nx, e)")
  have "measurement e' = Some (m\<lparr>m_timeouts := MAX_MEASUREMENT_RETRIES,
      m_retry_deadline := (if ts = [] then m_retry_deadline m else last ts + MEASUREMENT_RETRY)\<rparr>)"
    using retries_counted [of "(nx, e)" m ts] assms(1,2) due [OF assms(3)] f by simp
  with due [OF assms(3)] show ?thesis unfolding f by (simp add: retry_step_def)
qed

lemma unanswered_measurement_fails_witness:
  "\<exists>m'. measurement (snd (fold retry_step [50000, 100000, 150000, 200000, 250000] (0, example_initiator))) = Some m' \<and>
    snd (retry_step 300000 (fold retry_step [50000, 100000, 150000, 200000, 250000] (0, example_initiator))) =
      measurement_failed m' ((snd (fold retry_step [50000, 100000, 150000, 200000, 250000] (0, example_initiator)))
        \<lparr>measurement := None\<rparr>)"
proof -
  have "due_in_turn ([50000, 100000, 150000, 200000, 250000] @ [300000]) (m_retry_deadline example_measurement)"
    by (simp add: example_measurement_def MEASUREMENT_RETRY_def word_sle_eq)
  from unanswered_measurement_fails [OF example_initiator_fields(2) _ this] show ?thesis
    by (auto simp: example_measurement_def MAX_MEASUREMENT_RETRIES_def)
qed

definition started :: "engine \<Rightarrow> measurement \<Rightarrow> bool" where
  "started e m \<longleftrightarrow> m_task m \<in> set (pending e) \<and> m_timeouts m = 0 \<and> m_samples m = []"

lemma start_next_started:
  assumes "measurement e = None" and "measurement (start_next_measurement e) = Some m"
  shows "started e m"
  using assms by (auto simp: start_next_measurement_def now_def transmit_def notify_def started_def Let_def
      split: list.splits option.splits)

lemma measurement_idle [simp]:
  "measurement (evaluate_join sess i e) = measurement e" "pending (evaluate_join sess i e) = pending e"
  by (simp_all add: evaluate_join_def now_def Let_def split: option.split)

lemma outcome_started:
  assumes "measurement e = None"
  shows "measurement (measurement_failed m e) = Some m' \<Longrightarrow> started e m'"
    and "measurement (measurement_succeeded m i e) = Some m' \<Longrightarrow> started e m'"
  using assms start_next_started [of "if mt_purpose (m_task m) = Join then e else
      (snd (now e))\<lparr>next_remeasure_at := Some (fst (now e) + REMEASURE_PERIOD)\<rparr>" m']
  by (auto simp: measurement_failed_def measurement_succeeded_def started_def now_def Let_def
      dest!: start_next_started [rotated] split: purpose.splits if_splits)

lemma finish_or_chain_measurement:
  assumes "measurement (finish_or_chain t gt m e) = Some m'"
  shows "m' = m\<lparr>m_retry_deadline := t + MEASUREMENT_RETRY\<rparr> \<or> started e m'"
  using assms outcome_started(2) [of "e\<lparr>measurement := None\<rparr>"]
  by (auto simp: finish_or_chain_def send_ping_def panic_def started_def
      split: if_splits option.splits)

text \<open>The retry budget is spent over the whole life of a measurement. Whatever datagram arrives at a
  measurement socket, the measurement that runs afterwards is the one that ran before, with its
  retries as they were and no sample lost, or a task taken from the queue that starts afresh.\<close>

theorem pong_never_restores_budget:
  assumes "measurement e = Some m"
    and "measurement (handle_measurement_datagram g src buf e) = Some m'"
  shows "m_task m' = m_task m \<and> m_timeouts m' = m_timeouts m \<and> (\<exists>xs. m_samples m' = m_samples m @ xs)
    \<or> started e m'"
proof -
  have samples: "\<exists>xs. m_samples (take_samples t pong m) = m_samples m @ xs" for t pong
    by (simp add: take_samples_def split: prod.split)
  have none: "started (snd (now e)\<lparr>measurement := None\<rparr>) m' \<Longrightarrow> started e m'"
    by (simp add: started_def now_def)
  have pong: "m' = m \<or> (\<exists>t pong d. m' = take_samples t pong m\<lparr>m_retry_deadline := d\<rparr>) \<or> started e m'"
    if "measurement (handle_pong g src pong e) = Some m'" for pong
  proof (cases "measurement (handle_pong g src pong e) = measurement e")
    case False
    then consider "handle_pong g src pong e = measurement_failed m (snd (now e)\<lparr>measurement := None\<rparr>)"
      | "handle_pong g src pong e = finish_or_chain (fst (now e)) (pong_ghost_time pong)
          (take_samples (fst (now e)) pong m) (snd (now e))"
      using assms(1) by (auto simp: handle_pong_def now_def Let_def split: if_splits)
    then show ?thesis
    proof cases
      case 1
      then show ?thesis using that none outcome_started(1) by simp
    next
      case 2
      have "started (snd (now e)) m' \<Longrightarrow> started e m'" by (simp add: started_def now_def)
      with 2 show ?thesis using that finish_or_chain_measurement by metis
    qed
  qed (use that assms(1) in simp)
  have "m' = m \<or> (\<exists>t pong d. m' = take_samples t pong m\<lparr>m_retry_deadline := d\<rparr>) \<or> started e m'"
    using assms pong
    by (auto simp: handle_measurement_datagram_def send_ping_def transmit_def now_def Let_def
        split: if_splits sum.splits sync_message.splits option.splits)
  then show ?thesis using samples by auto
qed

lemma pong_never_restores_budget_witness:
  "\<exists>m'. measurement (handle_measurement_datagram 0 (V4 0x7F000001 9000) (encode_pong (Id 1) 1 [])
      (example_initiator\<lparr>measurement := Some (example_measurement\<lparr>m_timeouts := 3\<rparr>)\<rparr>)) = Some m' \<and>
    (m_timeouts m' = 3 \<or> started (example_initiator\<lparr>measurement := Some (example_measurement\<lparr>m_timeouts := 3\<rparr>)\<rparr>) m')"
proof -
  let ?m = "example_measurement\<lparr>m_timeouts := 3\<rparr>"
  let ?e = "example_initiator\<lparr>measurement := Some ?m\<rparr>"
  have "parse_echo [] = Inr (None, None)"
    using for_entries_concat [of "[]" ht_pgt_entry] by (simp add: parse_echo_def)
  then have t: "take_samples t \<lparr>pong_session = Id 1, pong_ghost_time = 1, pong_echo = []\<rparr> m = m" for t m
    by (simp add: take_samples_def echo_times_def pong_samples_def nonzero_def)
  have "measurement (handle_measurement_datagram 0 (V4 0x7F000001 9000) (encode_pong (Id 1) 1 []) ?e) \<noteq> None"
    using t by (subst handle_admitted [OF _ _ decode_pong_bytes, of ?e ?m])
      (simp_all add: admits_def example_measurement_def finish_or_chain_def SAMPLES_REQUIRED_def send_ping_def
        split: option.split)
  then obtain m' where "measurement (handle_measurement_datagram 0 (V4 0x7F000001 9000)
      (encode_pong (Id 1) 1 []) ?e) = Some m'" by blast
  with pong_never_restores_budget [OF _ this, of ?m] show ?thesis by auto
qed

end
