(* ===== verification/Audio_Stream.thy ===== *)
theory Audio_Stream
  imports Clock_Sync Membership
begin

text \<open>
  A channel from its sink to a subscriber: what the datagrams of a drained sink
  (\<^verbatim>\<open>drain_datagrams\<close>) do to the peer that handles them (\<^verbatim>\<open>handle_datagram\<close> of
  \<^verbatim>\<open>crates/tactus/src/audio.rs\<close>) and to the application that polls the channel.
\<close>

section \<open>One datagram\<close>

lemma deliver_total: "legal_tempo (tempo l) \<Longrightarrow> \<exists>s'. deliver s b l t = Some s'"
  using session_offset_Some by (fastforce simp: deliver_def)

lemma sink_datagram_sendable:
  assumes "datagram_of fill nc b" and "nc \<noteq> 0"
  shows "sendable (new_audio_frame n (AudioBuffer b))"
proof -
  have "length (ab_chunks b) \<le> 574" by (rule datagram_chunks [OF assms(1)])
  moreover have "length (ab_sample_data b) \<le> 1148"
    using datagram_facts(4) [OF assms(1)] by (simp add: sink_sizes split: if_splits)
  ultimately show ?thesis
    using datagram_facts(1) [OF assms]
    by (simp add: sendable_def length_audio_buffer_datagram) (simp add: new_audio_frame_def)
qed

lemma handle_buffer:
  assumes "enabled e" and "audio e = Some a" and "map_of (sources a) (ab_channel b) = Some s"
    and "session e = ab_session b" and "node e \<noteq> n" and "legal_tempo (tempo (timeline e))"
    and "sendable (new_audio_frame n (AudioBuffer b))"
  shows "\<exists>t s' a' c. deliver s b (timeline e) t = Some s' \<and> map_of (sources a') (ab_channel b) = Some s' \<and>
    handle_audio_datagram gw src (encode_audio (new_audio_frame n (AudioBuffer b))) e =
      e\<lparr>clock_reads := c, audio := Some a'\<rparr>"
proof -
  obtain s' where s': "deliver s b (timeline e) (fst (now e)) = Some s'"
    using deliver_total [OF assms(6)] by blast
  then have "handle_audio_datagram gw src (encode_audio (new_audio_frame n (AudioBuffer b))) e =
      (snd (now e))\<lparr>audio := Some (a\<lparr>sources := AList.update (ab_channel b) s' (sources a)\<rparr>)\<rparr>"
    using assms by (simp add: handle_audio_datagram_def decode_encode_audio handle_audio_message_def
        new_audio_frame_def now_def)
  with s' show ?thesis
    by (intro exI [of _ "fst (now e)"] exI [of _ s'] exI [of _ "a\<lparr>sources := AList.update (ab_channel b) s' (sources a)\<rparr>"]
        exI [of _ "clock_reads e + 1"]) (simp add: now_def update_conv')
qed

section \<open>A stream\<close>

definition hear_all :: "node_id \<Rightarrow> nat \<Rightarrow> socket_addr \<Rightarrow> audio_buffer list \<Rightarrow> engine \<Rightarrow> engine" where
  "hear_all n gw src = fold (\<lambda>b. handle_audio_datagram gw src (encode_audio (new_audio_frame n (AudioBuffer b))))"

definition newest :: "received_chunk list \<Rightarrow> received_chunk list" where
  "newest xs = drop (length xs - INBOX_LIMIT) xs"

lemma newest_short [simp]: "length xs \<le> INBOX_LIMIT \<Longrightarrow> newest xs = xs"
  by (simp add: newest_def)

lemma newest_newest [simp]: "newest (newest xs @ ys) = newest (xs @ ys)"
  by (cases "length ys \<le> INBOX_LIMIT"; cases "length xs \<le> INBOX_LIMIT") (auto simp: newest_def add.commute)

text \<open>The source keeps the newest units of all datagrams put together.\<close>

lemma hear_all_delivered:
  assumes "enabled e" and "audio e = Some a" and "map_of (sources a) ch = Some s"
    and "node e \<noteq> n" and "legal_tempo (tempo (timeline e))"
    and "\<forall>b \<in> set bs. ab_channel b = ch \<and> ab_session b = session e \<and> datagram_of fill nc b" and "nc \<noteq> 0"
    and "session_offset (timeline e) (so_quantum s) = Some delta" and "length (inbox s) \<le> INBOX_LIMIT"
    and "us = concat (map (\<lambda>b. units_of b delta) bs)"
  shows "\<exists>a' s'. audio (hear_all n gw src bs e) = Some a' \<and> map_of (sources a') ch = Some s' \<and>
    inbox s' = newest (inbox s @ us) \<and>
    lost_chunks s' = lost_chunks (expect_all (map c_seq (concat (map ab_chunks bs))) s)"
  using assms
proof (induction bs arbitrary: e a s us)
  case Nil
  then show ?case by (simp add: hear_all_def)
next
  case (Cons b bs)
  have b: "ab_channel b = ch" "session e = ab_session b" "datagram_of fill nc b"
    using Cons.prems(6) by simp_all
  obtain t s1 a1 c where d: "deliver s b (timeline e) t = Some s1" "map_of (sources a1) ch = Some s1"
    and h: "handle_audio_datagram gw src (encode_audio (new_audio_frame n (AudioBuffer b))) e =
      e\<lparr>clock_reads := c, audio := Some a1\<rparr>"
    using handle_buffer [OF Cons.prems(1,2) _ b(2) Cons.prems(4,5) sink_datagram_sendable [OF b(3)]]
      Cons.prems(3,7) b(1) by blast
  have i: "inbox s1 = newest (inbox s @ units_of b delta)"
    and cnt: "next_seq_expected s1 = next_seq_expected (expect_all (map c_seq (ab_chunks b)) s)"
      "lost_chunks s1 = lost_chunks (expect_all (map c_seq (ab_chunks b)) s)" "so_quantum s1 = so_quantum s"
    by (rule deliver_Some [OF d(1)], use Cons.prems(8) in \<open>simp add: units_of_def Let_def newest_def\<close>)+
  let ?e = "e\<lparr>clock_reads := c, audio := Some a1\<rparr>" and ?us = "concat (map (\<lambda>b. units_of b delta) bs)"
  have "\<exists>a' s'. audio (hear_all n gw src bs ?e) = Some a' \<and> map_of (sources a') ch = Some s' \<and>
      inbox s' = newest (inbox s1 @ ?us) \<and>
      lost_chunks s' = lost_chunks (expect_all (map c_seq (concat (map ab_chunks bs))) s1)"
    by (rule Cons.IH) (use Cons.prems d(2) cnt(3) in \<open>simp_all add: i newest_def\<close>)
  moreover have "hear_all n gw src (b # bs) e = hear_all n gw src bs ?e" by (simp add: hear_all_def h)
  moreover have "lost_chunks (expect_all (map c_seq (concat (map ab_chunks bs))) s1) =
      lost_chunks (expect_all (map c_seq (concat (map ab_chunks (b # bs)))) s)"
    using expect_all_cong [OF cnt(1,2), of "map c_seq (concat (map ab_chunks bs))"] by simp
  moreover have "us = units_of b delta @ ?us" using Cons.prems(10) by simp
  ultimately show ?case by (simp add: i)
qed

lemma stream_units:
  assumes "\<forall>b \<in> set bs. datagram_of fill nc b \<and> ab_num_channels b = nc \<and> ab_sample_rate b = rate" and "nc \<noteq> 0"
    and "us = concat (map (\<lambda>b. units_of b delta) bs)" and "cs = concat (map ab_chunks bs)"
  shows "concat (map rc_samples us) = concat (map buffer_samples bs)" and "map rc_seq us = map c_seq cs"
    and "\<forall>u \<in> set us. rc_sample_rate u = rate \<and> rc_channels u = nc"
    and "map rc_begin_app_beat us = map (\<lambda>c. f64_div (f64_of_int (sint (c_begin_beats c + delta))) (Fin 1000000)) cs"
proof -
  have whole: "concat (map rc_samples (units_of b delta)) = buffer_samples b" if "datagram_of fill nc b" "ab_num_channels b = nc" for b
    using units_of_whole [of b delta] datagram_facts(1) [OF that(1) assms(2)] datagram_chunks [OF that(1)] assms(2) that(2) by simp
  show "concat (map rc_samples us) = concat (map buffer_samples bs)"
    unfolding assms(3) using assms(1) whole by (induction bs) auto
  show "map rc_seq us = map c_seq cs"
    "map rc_begin_app_beat us = map (\<lambda>c. f64_div (f64_of_int (sint (c_begin_beats c + delta))) (Fin 1000000)) cs"
    by (simp_all add: assms(3,4) map_concat comp_def units_of_fields)
  show "\<forall>u \<in> set us. rc_sample_rate u = rate \<and> rc_channels u = nc"
    using units_of_fields(6) assms(1) by (fastforce simp: assms(3))
qed

lemma drained_identity:
  "drain_datagrams k ch s rate nc fill = Inr (k', bs) \<Longrightarrow>
    \<forall>b \<in> set bs. ab_channel b = ch \<and> ab_session b = s \<and> ab_sample_rate b = rate \<and> ab_num_channels b = nc"
proof (induction k ch s rate nc fill arbitrary: bs rule: drain_datagrams.induct)
  case (1 k ch s rate nc fill)
  obtain ts l x where p: "plan_segments fill nc (datagram_budget fill) (segments k) = (ts, l, x)"
    by (metis prod_cases3)
  show ?case
  proof (cases "ts = [] \<or> (\<not> x \<and> record_cost fill + frame_bytes nc \<le> l)")
    case True
    from drain_datagrams_stop [OF p True] 1(2) show ?thesis by simp
  next
    case False
    from 1(2) obtain k1 cs ds bs' where f: "fold_res (consume_take rate nc) (k, [], []) ts = Inr (k1, cs, ds)"
      and r: "drain_datagrams k1 ch s rate nc fill = Inr (k', bs')"
      and bs: "bs = \<lparr>ab_channel = ch, ab_session = s, ab_chunks = cs, ab_codec = CODEC_PCM_I16,
        ab_sample_rate = rate, ab_num_channels = nc, ab_sample_data = encode_samples ds\<rparr> # bs'"
      by (subst (asm) drain_datagrams.simps) (use False in \<open>auto simp: p Let_def bind_res_Inr\<close>)
    have "\<forall>b \<in> set bs'. ab_channel b = ch \<and> ab_session b = s \<and> ab_sample_rate b = rate \<and> ab_num_channels b = nc"
      using 1(1) [OF p [symmetric] refl refl False f refl refl r] .
    then show ?thesis by (simp add: bs)
  qed
qed

lemma nothing_lost:
  assumes "next_seq_expected s = None \<or> next_seq_expected s = Some q"
  shows "lost_chunks (expect_all (map (\<lambda>i. q + word_of_nat i) [0..<n]) s) = lost_chunks s \<and>
    (next_seq_expected (expect_all (map (\<lambda>i. q + word_of_nat i) [0..<n]) s) =
      (if n = 0 then next_seq_expected s else Some (q + word_of_nat n)))"
  using assms by (induction n) (auto simp: expect_seq_def add.assoc add.commute)

text \<open>Audio crosses the network unharmed. The datagrams that a sink sends, handled in order by an enabled
  peer of the session that subscribes to the channel and has read its inbox, give the application that polls the
  channel exactly the sent samples, in chunks numbered consecutively, in the format of the sink; none is
  counted as lost. The subscription is new or has heard everything the sink sent before, and the chunks
  do not overrun the inbox.\<close>

theorem stream_end_to_end:
  assumes "0 < uint rate" and "positive_tempos (segments k)" and "nc \<noteq> 0"
    and "drain_datagrams k ch (session e) rate nc fill = Inr (k', bs)"
    and "enabled e" and "node e \<noteq> n" and "legal_tempo (tempo (timeline e))"
    and "audio e = Some a" and "map_of (sources a) ch = Some s" and "inbox s = []"
    and "next_seq_expected s = None \<or> next_seq_expected s = Some (next_seq k)"
    and "length (concat (map ab_chunks bs)) \<le> INBOX_LIMIT"
  shows "\<exists>us. fst (poll_channel ch (hear_all n gw src bs e)) = us \<and>
    concat (map rc_samples us) @ whole_frames nc (segments k') = whole_frames nc (segments k) \<and>
    map rc_seq us = map (\<lambda>i. next_seq k + word_of_nat i) [0..<length us] \<and>
    list_all (\<lambda>u. rc_sample_rate u = rate \<and> rc_channels u = nc) us \<and>
    channel_lost_chunks ch (hear_all n gw src bs e) = channel_lost_chunks ch e"
proof -
  have d: "drained fill nc k k' bs"
    using drain_datagrams_spec [OF assms(1,2), of ch "session e" nc fill] assms(4) by auto
  have bs: "\<forall>b \<in> set bs. ab_channel b = ch \<and> ab_session b = session e \<and> datagram_of fill nc b \<and>
      ab_num_channels b = nc \<and> ab_sample_rate b = rate"
    using drained_identity [OF assms(4)] d by (simp add: drained_def)
  obtain delta where delta: "session_offset (timeline e) (so_quantum s) = Some delta"
    using session_offset_Some [OF assms(7)] by blast
  define us where "us = concat (map (\<lambda>b. units_of b delta) bs)"
  have u: "concat (map rc_samples us) = concat (map buffer_samples bs)" "map rc_seq us = map c_seq (concat (map ab_chunks bs))"
    "\<forall>u \<in> set us. rc_sample_rate u = rate \<and> rc_channels u = nc"
    by (rule stream_units [where fill = fill and rate = rate, OF _ assms(3) us_def refl]; use bs in simp)+
  have len: "length us = length (concat (map ab_chunks bs))" using u(2) by (metis length_map)
  have in_all: "\<forall>b \<in> set bs. ab_channel b = ch \<and> ab_session b = session e \<and> datagram_of fill nc b" using bs by simp
  obtain a' s' where h: "audio (hear_all n gw src bs e) = Some a'" "map_of (sources a') ch = Some s'" "inbox s' = us"
    "lost_chunks s' = lost_chunks (expect_all (map c_seq (concat (map ab_chunks bs))) s)"
    using hear_all_delivered [OF assms(5,8,9,6,7) in_all assms(3) delta _ us_def, of gw src] assms(10,12) len
    by (auto simp: INBOX_LIMIT_def)
  have q: "map c_seq (concat (map ab_chunks bs)) =
      map (\<lambda>i. next_seq k + word_of_nat i) [0..<length (concat (map ab_chunks bs))]"
    using d by (simp add: drained_def numbered_from_def)
  have "lost_chunks s' = lost_chunks s" unfolding h(4) q using nothing_lost [OF assms(11)] by blast
  then show ?thesis
    using h u d q len assms(8,9)
    by (simp add: poll_channel_def channel_lost_chunks_def drained_def list_all_iff)
qed

lemma chunks_le_samples:
  assumes "datagram_of fill nc b"
  shows "length (ab_chunks b) \<le> length (buffer_samples b)"
proof -
  obtain ns where ns: "\<forall>n \<in> set ns. 0 < n" "map c_num_frames (ab_chunks b) = map word_of_nat ns"
    "length (ab_sample_data b) = sum_list ns * frame_bytes nc"
    using assms by (auto simp: datagram_of_def planned_datagram_def)
  from ns(1) have "length ns \<le> sum_list ns" by (induction ns) auto
  also have "\<dots> \<le> sum_list ns * channel_count nc" by (simp add: Suc_leI)
  finally have "length ns \<le> sum_list ns * channel_count nc" .
  moreover have "length (ab_chunks b) = length ns" using ns(2) by (metis length_map)
  ultimately show ?thesis
    using ns(3) by (simp add: buffer_samples_def length_samples_of frame_bytes_def)
qed

definition example_subscriber :: engine where
  "example_subscriber = (example_member (Id 3))\<lparr>audio := Some ((new_audio_state [])\<lparr>sources := [(Id 1, example_source)]\<rparr>)\<rparr>"

lemma stream_end_to_end_witness:
  "\<exists>k' bs us. drain_datagrams (example_sink\<lparr>segments := [\<lparr>sg_begin = 0, sg_tempo = 500000, sg_samples = replicate 251 7\<rparr>]\<rparr>)
      (Id 1) (Id 1) 48000 1 False = Inr (k', bs) \<and> bs \<noteq> [] \<and>
    fst (poll_channel (Id 1) (hear_all (Id 9) 0 (V4 9 9) bs example_subscriber)) = us \<and>
    concat (map rc_samples us) @ whole_frames 1 (segments k') = replicate 251 7"
proof -
  let ?k = "example_sink\<lparr>segments := [\<lparr>sg_begin = 0, sg_tempo = 500000, sg_samples = replicate 251 7\<rparr>]\<rparr>"
  have rate: "0 < uint (48000 :: u32)" by simp
  have pos: "positive_tempos (segments ?k)" by (simp add: positive_tempos_def)
  obtain k' bs where r: "drain_datagrams ?k (Id 1) (Id 1) 48000 1 False = Inr (k', bs)" "drained False 1 ?k k' bs"
    using drain_datagrams_spec [OF rate pos] by blast
  have whole: "whole_frames 1 (segments ?k) = replicate 251 7" by (simp add: channel_count_def)
  have "length (concat (map ab_chunks bs)) \<le> length (concat (map buffer_samples bs))"
    if "\<forall>b \<in> set bs. datagram_of False 1 b" for bs
    using that by (induction bs) (auto intro: add_mono chunks_le_samples)
  moreover have "\<forall>b \<in> set bs. datagram_of False 1 b" using r(2) unfolding drained_def by (elim conjE)
  ultimately have "length (concat (map ab_chunks bs)) \<le> length (concat (map buffer_samples bs))" .
  also have "\<dots> \<le> length (concat (map buffer_samples bs) @ whole_frames 1 (segments k'))" by simp
  also have "\<dots> = 251" using r(2) whole by (simp only: drained_def) simp
  finally have len: "length (concat (map ab_chunks bs)) \<le> INBOX_LIMIT" by (simp add: INBOX_LIMIT_def)
  have "plan_segments False 1 (datagram_budget False) (segments ?k) = ([251], 0, False)"
    by (simp add: sink_sizes channel_count_def plan_segment.simps frame_bytes_def)
  then have "bs \<noteq> []" by (rule drain_emits [OF _ _ _ r(1)]) (simp_all add: frame_bytes_def)
  with stream_end_to_end [of 48000 ?k 1 "Id 1" example_subscriber False k' bs "Id 9" _ example_source 0 "V4 9 9"] r(1) len pos whole
  show ?thesis
    by (auto simp: example_subscriber_def example_source_def tempo_at_def legal_tempo_def)
qed

section \<open>A sample rate of zero\<close>

lemma frames_at_zero_rate: "frames_to_micro_beats n 0 t = None"
  by (simp add: frames_to_micro_beats_def round_div_def)

lemma drain_at_zero_rate:
  assumes "segments k = [sg]" and "record_cost fill + frame_bytes nc \<le> datagram_budget fill"
    and "datagram_budget fill \<le> length (sg_samples sg) div channel_count nc * frame_bytes nc"
  shows "\<exists>k'. drain_datagrams k ch s 0 nc fill = Inl k'"
proof -
  define frames where "frames = length (sg_samples sg) div channel_count nc"
  have pos: "0 < datagram_budget fill" using assms(2) frame_bytes_pos [of nc] by linarith
  then have f0: "0 < frames" using assms(3) by (auto simp: frames_def [symmetric] intro: gr0I)
  have "frames * channel_count nc \<le> length (sg_samples sg)" by (simp add: frames_def)
  then have m: "n * channel_count nc \<le> length (sg_samples sg)" if "n \<le> frames" for n
    using mult_le_mono1 [OF that, of "channel_count nc"] by linarith
  obtain ts l x where p: "plan_segment fill nc (datagram_budget fill) frames = (ts, l, x)" by (metis prod_cases3)
  note sp = plan_segment_spec [OF p]
  have "x \<or> l < record_cost fill + frame_bytes nc"
  proof (rule disjCI)
    assume "\<not> l < record_cost fill + frame_bytes nc"
    then have "\<not> plan_cost fill nc ts \<ge> datagram_budget fill" using sp frame_bytes_pos [of nc] by linarith
    moreover have "sum_list ts * frame_bytes nc \<le> plan_cost fill nc ts" by (simp add: plan_cost_def)
    ultimately have "sum_list ts \<noteq> frames" using assms(3) by (auto simp: frames_def)
    then show x using sp by (cases x) simp_all
  qed
  moreover have "ts \<noteq> []" using sp f0 assms(2) by (cases x) auto
  then obtain n ns where ts: "ts = n # ns" by (cases ts) auto
  moreover have "n \<le> frames" using sp by (simp add: ts)
  then have "\<exists>k'. consume_take 0 nc (k, [], []) n = Inl k'"
    using m [of n] m [of 1] f0
    by (simp add: consume_take_def assms(1) frames_at_zero_rate)
  ultimately show ?thesis
    by (subst drain_datagrams.simps) (auto simp: assms(1) p frames_def [symmetric])
qed

text \<open>Writing to a channel with a sample rate of zero panics as soon as a datagram is due: once some peer
  subscribes and the material fills one, the duration of its first chunk is a division by zero. Nothing
  on the path from the application's call rejects the rate.\<close>

theorem zero_rate_write_panics:
  assumes "audio e = Some a" and "List.find (\<lambda>k. sk_id k = ch) (sinks a) = Some k"
    and "legal_tempo (tempo (timeline e))" and "sk_format k \<noteq> Some (0, nc)"
    and "list_ex (\<lambda>r. fst (now e) <s snd r) (requesters k)"
    and "fill = fill_audio_datagrams (config e)"
    and "record_cost fill + frame_bytes nc \<le> datagram_budget fill"
    and "datagram_budget fill \<le> length samples div channel_count nc * frame_bytes nc"
  shows "panicked (write_channel ch samples 0 nc b q e)"
proof -
  obtain d where d: "session_offset (timeline e) (quantum_micro_beats q) = Some d"
    using session_offset_Some [OF assms(3)] by blast
  have r: "reformat 0 nc k = k\<lparr>segments := [], sk_format := Some (0, nc)\<rparr>"
    using assms(4) by (simp add: reformat_def)
  have live: "retain (\<lambda>_ expiry. env_clock (env e) (clock_reads e) <s expiry) (requesters k) \<noteq> []"
    using assms(5) by (auto simp: retain_def list_ex_iff filter_empty_conv now_def case_prod_unfold)
  define sg where "sg = \<lparr>sg_begin = f64_to_i64 (f64_round (f64_mul b (Fin 1000000))) - d,
    sg_tempo = tempo (timeline e), sg_samples = samples\<rparr>"
  obtain k' where "drain_datagrams (k\<lparr>sk_format := Some (0, nc), segments := [sg],
      requesters := retain (\<lambda>_ expiry. env_clock (env e) (clock_reads e) <s expiry) (requesters k)\<rparr>)
      ch (session e) 0 nc fill = Inl k'"
    using drain_at_zero_rate [of "k\<lparr>sk_format := Some (0, nc), segments := [sg], requesters :=
      retain (\<lambda>_ expiry. env_clock (env e) (clock_reads e) <s expiry) (requesters k)\<rparr>" sg fill nc ch
      "session e"] assms(7,8)
    by (auto simp: sg_def)
  then show ?thesis
    using assms(1,2,6) live d
    by (simp add: write_channel_def write_sink_def now_def r contiguous_def append_material_def Let_def
        panic_def sg_def)
qed

definition example_publisher :: engine where
  "example_publisher = (example_member (Id 3))\<lparr>audio := Some ((new_audio_state [])\<lparr>sinks := [example_sink]\<rparr>)\<rparr>"

lemma zero_rate_write_panics_witness:
  "panicked (write_channel (Id 1) (replicate 251 0) 0 1 (Fin 0) (Fin 4) example_publisher)"
  by (rule zero_rate_write_panics [of _ "(new_audio_state [])\<lparr>sinks := [example_sink]\<rparr>" _ example_sink _ False])
    (simp_all add: example_publisher_def example_sink_def tempo_at_def legal_tempo_def now_def example_env_def
      word_sless_alt sink_sizes frame_bytes_def channel_count_def example_member_def example_peer_def
      new_engine_def example_config_def Let_def)

end
