(* ===== verification/Joining.thy ===== *)
theory Joining
  imports Clock_Sync
begin

text \<open>
  From the first ping of a measurement to the decision to join, \<^verbatim>\<open>crates/tactus/src/engine.rs\<close>: two peers
  whose handlers pass the datagrams of a measurement back and forth until it completes.
\<close>

section \<open>Two peers exchanging pings and pongs\<close>

fun datagram :: "send \<Rightarrow> bytes" where
  "datagram (Send_multicast g bs) = bs"
| "datagram (Send_unicast g bs dst) = bs"
| "datagram (Send_measurement g bs dst) = bs"
| "datagram (Send_audio g bs dst) = bs"

text \<open>In each round the initiator's ping reaches gateway \<open>gb\<close> of the responder \<open>b\<close> from \<open>src\<close>, and the answer
  reaches gateway \<open>ga\<close> of the initiator \<open>a\<close> from \<open>tgt\<close>.\<close>

fun exchange ::
    "nat \<Rightarrow> socket_addr \<Rightarrow> nat \<Rightarrow> socket_addr \<Rightarrow> nat \<Rightarrow> bytes \<Rightarrow> engine \<times> engine \<Rightarrow> engine \<times> engine" where
  "exchange gb src ga tgt 0 ping (a, b) = (a, b)"
| "exchange gb src ga tgt (Suc n) ping (a, b) =
     (let b = handle_measurement_datagram gb src ping b;
          a = handle_measurement_datagram ga tgt (datagram (last (sent b))) a
      in exchange gb src ga tgt n (datagram (last (sent a))) (a, b))"

text \<open>What the clocks show: the ghost time of each answer and the local time at which it is received, after a
  first ping sent at \<open>h\<close>. They are in order when every answer is made between the sending of its ping and its
  receipt, \<open>d\<close> being the true offset from the initiator's clock to the responder's ghost clock, and no round
  trip takes longer than \<open>r\<close>.\<close>

definition round_times :: "nat \<Rightarrow> engine \<times> engine \<Rightarrow> (i64 \<times> i64) list" where
  "round_times n = (\<lambda>(a, b). map (\<lambda>k. (env_clock (env b) (clock_reads b + k) + ghost_offset b,
     env_clock (env a) (clock_reads a + k))) [0..<n])"

fun in_order :: "int \<Rightarrow> int \<Rightarrow> i64 \<Rightarrow> (i64 \<times> i64) list \<Rightarrow> bool" where
  "in_order d r h [] \<longleftrightarrow> True"
| "in_order d r h ((g, t) # rest) \<longleftrightarrow> clock_range h \<and> clock_range g \<and> clock_range t \<and> h \<noteq> 0 \<and> g \<noteq> 0 \<and>
     sint h \<le> sint g - d \<and> sint g - d \<le> sint t \<and> sint t - sint h \<le> r \<and> in_order d r t rest"

definition near :: "int \<Rightarrow> int \<Rightarrow> f64 \<Rightarrow> bool" where
  "near d r x \<longleftrightarrow> x \<noteq> NaN \<and> inside (Fin (of_int (d - r))) (Fin (of_int (d + r))) x"

lemma near_half:
  assumes "\<bar>n - 2 * d\<bar> \<le> 2 * r"
  shows "near d r (Fin (of_int n / 2))"
proof -
  have "2 * (d - r) \<le> n" "n \<le> 2 * (d + r)" using assms by (simp_all add: abs_le_iff)
  then have "of_int (2 * (d - r)) \<le> (of_int n :: rat)" "(of_int n :: rat) \<le> of_int (2 * (d + r))"
    by (simp_all only: of_int_le_iff)
  then show ?thesis by (simp add: near_def inside_def not_less)
qed

text \<open>A measurement under way.\<close>

definition exchanging :: "int \<Rightarrow> int \<Rightarrow> nat \<Rightarrow> nat \<Rightarrow> socket_addr \<Rightarrow> i64 \<Rightarrow> i64 option \<Rightarrow> measurement \<Rightarrow> engine \<times> engine \<Rightarrow> bool" where
  "exchanging d r gb ga tgt h prev m = (\<lambda>(a, b). enabled a \<and> enabled b \<and> measurement a = Some m \<and>
     mt_gateway (m_task m) = ga \<and> mt_target (m_task m) = tgt \<and> mt_session (m_task m) = session b \<and>
     map_of (gateways a) ga \<noteq> None \<and> map_of (gateways b) gb \<noteq> None \<and> list_all (near d r) (m_samples m) \<and>
     pred_option (\<lambda>p. clock_range p \<and> p \<noteq> 0 \<and> sint p - d \<le> sint h \<and> sint h - (sint p - d) \<le> r) prev)"

lemma pong_samples_near:
  assumes "in_order d r h [(g, t)]"
    and "pred_option (\<lambda>p. clock_range p \<and> p \<noteq> 0 \<and> sint p - d \<le> sint h \<and> sint h - (sint p - d) \<le> r) prev"
  shows "list_all (near d r) (pong_samples t g (Some h) prev) \<and>
    length (pong_samples t g (Some h) prev) = (if prev = None then 1 else 2)"
proof -
  note o = assms(1) [simplified]
  have n1: "near d r (Fin (of_int (2 * sint g - (sint t + sint h)) / 2))"
    by (rule near_half) (use o in \<open>simp add: abs_le_iff\<close>)
  show ?thesis
  proof (cases prev)
    case None
    have b: "\<bar>2 * sint g - (sint t + sint h)\<bar> \<le> 2 ^ 53" using o by (simp add: clock_range_def abs_le_iff)
    have c: "clock_range t" "clock_range h" "clock_range g" "g \<noteq> 0" "h \<noteq> 0" using o by simp_all
    have "f64_sub (f64_of_i64 g) (f64_div (f64_add (f64_of_i64 t) (f64_of_i64 h)) (Fin 2)) =
        Fin (of_int (2 * sint g - (sint t + sint h)) / 2)"
      by (simp only: midpoint_exact [OF c(1,2)] f64_of_i64_exact [OF c(3)] sub_half(1) [OF b])
    then have "pong_samples t g (Some h) None = [Fin (of_int (2 * sint g - (sint t + sint h)) / 2)]"
      using c(4,5) by (simp only: pong_samples_def nonzero_def option.case if_False if_True not_False_eq_True)
    with n1 None show ?thesis by simp
  next
    case (Some p)
    have n2: "near d r (Fin (of_int (sint g + sint p - 2 * sint h) / 2))"
      by (rule near_half) (use o assms(2) Some in \<open>simp add: abs_le_iff\<close>)
    show ?thesis using pong_samples_exact [of t g h p] o assms(2) Some n1 n2 by simp
  qed
qed

lemma now_parts: "now e = (env_clock (env e) (clock_reads e), e\<lparr>clock_reads := clock_reads e + 1\<rparr>)"
  by (simp add: now_def)

lemma exchange_round:
  assumes "exchanging d r gb ga tgt h prev m (a, b)"
    and "b' = handle_measurement_datagram gb src (encode_ping h prev) b"
    and "a' = handle_measurement_datagram ga tgt (datagram (last (sent b'))) a"
    and "t = fst (now a)" and "g = fst (now b) + ghost_offset b"
  shows "a' = finish_or_chain t g (m\<lparr>m_samples := m_samples m @ pong_samples t g (Some h) prev\<rparr>) (snd (now a))"
    and "\<exists>msgs. b' = transmit msgs (snd (now b))"
proof -
  let ?payload = "concat (map entry_bytes (ping_entries h prev))"
  have x: "enabled a" "enabled b" "measurement a = Some m" "mt_gateway (m_task m) = ga" "mt_target (m_task m) = tgt"
    "mt_session (m_task m) = session b" "map_of (gateways b) gb \<noteq> None"
    using assms(1) by (simp_all add: exchanging_def)
  obtain gw where gw: "map_of (gateways b) gb = Some gw" using x(7) by blast
  have "length ?payload \<le> MAX_PING_PAYLOAD"
    by (simp add: ping_entries_def MAX_PING_PAYLOAD_def split: option.split)
  then have b': "b' = transmit [Send_measurement (gw_id gw) (encode_pong (session b) g ?payload) src] (snd (now b))"
    using answer_ping [OF x(2) gw decode_ping_bytes] by (simp add: assms(2,5))
  then show "\<exists>msgs. b' = transmit msgs (snd (now b))" by blast
  have "parse_echo ?payload = Inr (Some h, prev)" by (simp add: parse_echo_def fold_ping_entries)
  then have "take_samples t \<lparr>pong_session = session b, pong_ghost_time = g, pong_echo = ?payload\<rparr> m =
      m\<lparr>m_samples := m_samples m @ pong_samples t g (Some h) prev\<rparr>"
    by (simp add: take_samples_def echo_times_def)
  moreover have "datagram (last (sent b')) = encode_pong (session b) g ?payload" by (simp add: b' transmit_def)
  ultimately show "a' = finish_or_chain t g (m\<lparr>m_samples := m_samples m @ pong_samples t g (Some h) prev\<rparr>) (snd (now a))"
    using handle_admitted [OF x(1,3) decode_pong_bytes, of ga tgt "session b" g ?payload] x(4-6)
    by (simp add: assms(3,4) admits_def)
qed

text \<open>A round that does not complete the measurement.\<close>

lemma exchange_continues:
  assumes "exchanging d r gb ga tgt h prev m (a, b)"
    and "b' = handle_measurement_datagram gb src (encode_ping h prev) b"
    and "a' = handle_measurement_datagram ga tgt (datagram (last (sent b'))) a"
    and "in_order d r h (round_times (Suc n) (a, b))"
    and "length (m_samples m) + (if prev = None then 1 else 2) \<le> SAMPLES_REQUIRED"
  shows "\<exists>m' t g. exchanging d r gb ga tgt t (Some g) m' (a', b') \<and> m_task m' = m_task m \<and>
    length (m_samples m') = length (m_samples m) + (if prev = None then 1 else 2) \<and>
    datagram (last (sent a')) = encode_ping t (Some g) \<and> in_order d r t (round_times n (a', b')) \<and>
    session a' = session a \<and> ghost_offset a' = ghost_offset a \<and> session b' = session b \<and>
    foreign_timelines a' = foreign_timelines a \<and> timeline a' = timeline a"
proof -
  define t where "t = fst (now a)"
  define g where "g = fst (now b) + ghost_offset b"
  let ?s = "pong_samples t g (Some h) prev"
  let ?m = "m\<lparr>m_samples := m_samples m @ ?s\<rparr>"
  note step = exchange_round [OF assms(1-3) t_def g_def]
  have x: "mt_gateway (m_task m) = ga" "map_of (gateways a) ga \<noteq> None"
    using assms(1) by (simp_all add: exchanging_def)
  have times: "round_times (Suc n) (a, b) = (g, t) #
      map (\<lambda>k. (env_clock (env b) (clock_reads b + 1 + k) + ghost_offset b,
        env_clock (env a) (clock_reads a + 1 + k))) [0..<n]"
    by (simp add: round_times_def t_def g_def now_parts upt_conv_Cons map_Suc_upt [symmetric] del: upt_Suc)
  have o: "in_order d r h [(g, t)]" using assms(4) unfolding times by simp
  have s: "list_all (near d r) ?s" "length ?s = (if prev = None then 1 else 2)"
    using pong_samples_near [OF o] assms(1) by (simp_all add: exchanging_def)
  have "\<not> SAMPLES_REQUIRED < length (m_samples ?m)" using s(2) assms(5) by simp
  then have a': "a' = notify (send_ping ga tgt (encode_ping t (Some g))
      ((snd (now a))\<lparr>measurement := Some (?m\<lparr>m_retry_deadline := t + MEASUREMENT_RETRY\<rparr>)\<rparr>))"
    using step(1) assms(1) by (simp add: finish_or_chain_def exchanging_def)
  obtain gw where gw: "map_of (gateways a) ga = Some gw" using x(2) by blast
  obtain msgs where b': "b' = transmit msgs (snd (now b))" using step(2) by blast
  let ?m' = "?m\<lparr>m_retry_deadline := t + MEASUREMENT_RETRY\<rparr>"
  have "exchanging d r gb ga tgt t (Some g) ?m' (a', b')"
    using assms(1) s(1) o unfolding a' b'
    by (simp add: exchanging_def now_parts transmit_def notify_def send_ping_def gw)
  moreover have "datagram (last (sent a')) = encode_ping t (Some g)"
    by (simp add: a' send_ping_def now_parts gw transmit_def notify_def)
  moreover have "in_order d r t (round_times n (a', b'))"
    using assms(4) unfolding times
    by (simp add: a' b' round_times_def now_parts transmit_def notify_def send_ping_def gw add.assoc)
  moreover have "session a' = session a" "ghost_offset a' = ghost_offset a" "session b' = session b"
    "foreign_timelines a' = foreign_timelines a" "timeline a' = timeline a"
    by (simp_all add: a' b' now_parts transmit_def notify_def send_ping_def gw)
  ultimately show ?thesis using s(2) by (intro exI [of _ ?m'] exI [of _ t] exI [of _ g]) simp
qed

lemma exchange_rounds:
  assumes "exchanging d r gb ga tgt h (Some p) m (a, b)" and "in_order d r h (round_times (n + k) (a, b))"
    and "length (m_samples m) + 2 * n \<le> SAMPLES_REQUIRED"
  shows "\<exists>h' p' m' a' b'. exchange gb src ga tgt (n + k) (encode_ping h (Some p)) (a, b) =
      exchange gb src ga tgt k (encode_ping h' (Some p')) (a', b') \<and>
    exchanging d r gb ga tgt h' (Some p') m' (a', b') \<and> m_task m' = m_task m \<and>
    length (m_samples m') = length (m_samples m) + 2 * n \<and> in_order d r h' (round_times k (a', b')) \<and>
    session a' = session a \<and> ghost_offset a' = ghost_offset a \<and> session b' = session b \<and>
    foreign_timelines a' = foreign_timelines a \<and> timeline a' = timeline a"
  using assms
proof (induction n arbitrary: h p m a b)
  case 0
  then show ?case by (intro exI [of _ h] exI [of _ p] exI [of _ m] exI [of _ a] exI [of _ b]) simp
next
  case (Suc n)
  define b1 where "b1 = handle_measurement_datagram gb src (encode_ping h (Some p)) b"
  define a1 where "a1 = handle_measurement_datagram ga tgt (datagram (last (sent b1))) a"
  have "in_order d r h (round_times (Suc (n + k)) (a, b))" using Suc.prems(2) by simp
  from exchange_continues [OF Suc.prems(1) b1_def a1_def this] Suc.prems(3)
  obtain m1 t g where c: "exchanging d r gb ga tgt t (Some g) m1 (a1, b1)" "m_task m1 = m_task m"
    "length (m_samples m1) = length (m_samples m) + 2" "datagram (last (sent a1)) = encode_ping t (Some g)"
    "in_order d r t (round_times (n + k) (a1, b1))" "session a1 = session a" "ghost_offset a1 = ghost_offset a"
    "session b1 = session b" "foreign_timelines a1 = foreign_timelines a" "timeline a1 = timeline a" by auto
  have "exchange gb src ga tgt (Suc n + k) (encode_ping h (Some p)) (a, b) =
      exchange gb src ga tgt (n + k) (encode_ping t (Some g)) (a1, b1)"
    by (simp add: b1_def [symmetric] a1_def [symmetric] c(4))
  moreover have "length (m_samples m1) + 2 * n \<le> SAMPLES_REQUIRED" using Suc.prems(3) c(3) by simp
  ultimately show ?case using Suc.IH [OF c(1,5)] c(2,3,6-10) by simp
qed

text \<open>The round that completes it.\<close>

lemma exchange_completes:
  assumes "exchanging d r gb ga tgt h prev m (a, b)" and "in_order d r h (round_times 1 (a, b))"
    and "SAMPLES_REQUIRED < length (m_samples m) + (if prev = None then 1 else 2)"
    and "\<bar>d\<bar> \<le> 2 ^ 51" and "0 \<le> r" and "r \<le> 2 ^ 51"
  shows "\<exists>offset m' e. fst (exchange gb src ga tgt 1 (encode_ping h prev) (a, b)) = measurement_succeeded m' offset e \<and>
    m_task m' = m_task m \<and> d - r \<le> sint offset \<and> sint offset \<le> d + r \<and>
    session e = session a \<and> ghost_offset e = ghost_offset a \<and>
    foreign_timelines e = foreign_timelines a \<and> timeline e = timeline a"
proof -
  define b' where "b' = handle_measurement_datagram gb src (encode_ping h prev) b"
  define a' where "a' = handle_measurement_datagram ga tgt (datagram (last (sent b'))) a"
  define t where "t = fst (now a)"
  define g where "g = fst (now b) + ghost_offset b"
  let ?s = "pong_samples t g (Some h) prev"
  let ?m = "m\<lparr>m_samples := m_samples m @ ?s\<rparr>"
  have o: "in_order d r h [(g, t)]" using assms(2) by (simp add: round_times_def t_def g_def now_parts)
  have "list_all (near d r) (m_samples ?m)"
    "length (m_samples ?m) = length (m_samples m) + (if prev = None then 1 else 2)"
    using pong_samples_near [OF o] assms(1) by (simp_all add: exchanging_def)
  then have n: "list_all (near d r) (m_samples ?m)" "SAMPLES_REQUIRED < length (m_samples ?m)"
    using assms(3) by simp_all
  have f: "filter (inside (Fin (of_int (d - r))) (Fin (of_int (d + r)))) (m_samples ?m) = m_samples ?m"
    using n(1) by (auto simp: list_all_iff near_def filter_id_conv)
  have nan: "NaN \<notin> set (m_samples ?m)" using n(1) by (auto simp: list_all_iff near_def)
  have "\<bar>d - r\<bar> \<le> 2 ^ 52" "\<bar>d + r\<bar> \<le> 2 ^ 52" using assms(4-6) by (simp_all add: abs_le_iff)
  moreover have "length (m_samples ?m) < 2 * length (filter (inside (Fin (of_int (d - r))) (Fin (of_int (d + r)))) (m_samples ?m))"
    unfolding f using n(2) by linarith
  ultimately obtain offset where off: "median_round (m_samples ?m) = Some offset" "d - r \<le> sint offset" "sint offset \<le> d + r"
    using median_round_between [OF nan, of "d - r" "d + r"] by blast
  have "a' = finish_or_chain t g ?m (snd (now a))"
    by (rule exchange_round(1) [OF assms(1) b'_def a'_def t_def g_def])
  then have "a' = measurement_succeeded ?m offset ((snd (now a))\<lparr>measurement := None\<rparr>)"
    using n(2) off(1) by (simp add: finish_or_chain_def)
  moreover have "fst (exchange gb src ga tgt 1 (encode_ping h prev) (a, b)) = a'"
    by (simp add: b'_def a'_def Let_def)
  ultimately show ?thesis using off(2,3)
    by (intro exI [of _ offset] exI [of _ ?m] exI [of _ "(snd (now a))\<lparr>measurement := None\<rparr>"])
      (simp add: now_parts)
qed

section \<open>From the first ping to the decision\<close>

text \<open>A peer that joins a session follows its ghost clock.\<close>

lemma evaluate_join_offset:
  "ghost_offset (evaluate_join s offset e) =
    (if s \<noteq> session e \<and> join_rule (offset - ghost_offset e) s (session e) then offset else ghost_offset e)"
proof -
  have "ghost_offset (schedule_broadcast e) = ghost_offset e" for e by (rule quiet_fields) simp
  then show ?thesis by (simp add: evaluate_join_def now_def Let_def split: option.split)
qed

lemma evaluate_join_timeline:
  "timeline (evaluate_join s offset e) =
    (if s \<noteq> session e \<and> join_rule (offset - ghost_offset e) s (session e)
     then (case map_of (foreign_timelines e) s of None \<Rightarrow> timeline e | Some l \<Rightarrow> clamped l) else timeline e)"
proof -
  have "timeline (schedule_broadcast e) = timeline e" for e by (rule quiet_fields) simp
  then show ?thesis by (simp add: evaluate_join_def now_def Let_def split: option.split)
qed

lemma start_next_timeline: "timeline (start_next_measurement e) = timeline e"
  by (simp add: start_next_measurement_def now_def transmit_def notify_def Let_def split: list.split option.split)

lemma join_succeeded:
  assumes "mt_purpose (m_task m) = Join"
  shows "(session (measurement_succeeded m offset e), ghost_offset (measurement_succeeded m offset e),
      timeline (measurement_succeeded m offset e)) =
    (if mt_session (m_task m) \<noteq> session e \<and> join_rule (offset - ghost_offset e) (mt_session (m_task m)) (session e)
     then (mt_session (m_task m), offset,
       case map_of (foreign_timelines e) (mt_session (m_task m)) of None \<Rightarrow> timeline e | Some l \<Rightarrow> clamped l)
     else (session e, ghost_offset e, timeline e))"
  using assms by (simp add: measurement_succeeded_def Let_def evaluate_join_session evaluate_join_offset
      evaluate_join_timeline start_next_timeline split: option.split)

text \<open>The decision on the true lead \<open>gap\<close> of the other session's ghost clock.\<close>

definition leads :: "int \<Rightarrow> session_id \<Rightarrow> session_id \<Rightarrow> bool" where
  "leads gap new cur \<longleftrightarrow> 500000 < gap \<or> \<bar>gap\<bar> < 500000 \<and> new < cur"

text \<open>Of two peers that see each other's clocks truly, exactly one joins the other.\<close>

lemma leads_one_side: "new \<noteq> cur \<Longrightarrow> \<bar>gap\<bar> \<noteq> 500000 \<Longrightarrow> leads gap new cur \<longleftrightarrow> \<not> leads (- gap) cur new"
  by (auto simp: leads_def)

text \<open>A measurement in which 51 pings in a row are answered completes and ends with the decision on the true
  clocks, where the lead is not within \<open>r\<close> of half a second either way.\<close>

lemma measurement_joins:
  assumes "enabled a" and "enabled b" and "measurement a = Some m" and "m_samples m = []"
    and "mt_purpose (m_task m) = Join" and "mt_session (m_task m) = session b" and "session a \<noteq> session b"
    and "map_of (gateways a) (mt_gateway (m_task m)) \<noteq> None" and "map_of (gateways b) gb \<noteq> None"
    and "in_order d r h (round_times 51 (a, b))" and "\<bar>d\<bar> \<le> 2 ^ 51" and "0 \<le> r" and "r \<le> 2 ^ 51"
    and "\<bar>sint (ghost_offset a)\<bar> \<le> 2 ^ 51" and "gap = d - sint (ghost_offset a)"
    and "r < \<bar>gap - 500000\<bar>" and "r < \<bar>gap + 500000\<bar>"
    and "a' = fst (exchange gb src (mt_gateway (m_task m)) (mt_target (m_task m)) 51 (encode_ping h None) (a, b))"
  shows "\<exists>offset. map_of (measured a') (session b) = Some offset \<and> \<bar>sint offset - d\<bar> \<le> r \<and>
    (session a', ghost_offset a', timeline a') = (if leads gap (session b) (session a) then (session b, offset,
        case map_of (foreign_timelines a) (session b) of None \<Rightarrow> timeline a | Some l \<Rightarrow> clamped l)
      else (session a, ghost_offset a, timeline a))"
proof -
  let ?ga = "mt_gateway (m_task m)" and ?tgt = "mt_target (m_task m)"
  have start: "exchanging d r gb ?ga ?tgt h None m (a, b)" using assms(1-9) by (simp add: exchanging_def)
  define b1 where "b1 = handle_measurement_datagram gb src (encode_ping h None) b"
  define a1 where "a1 = handle_measurement_datagram ?ga ?tgt (datagram (last (sent b1))) a"
  have "in_order d r h (round_times (Suc 50) (a, b))" using assms(10) by simp
  from exchange_continues [OF start b1_def a1_def this] assms(4)
  obtain m1 t g where c: "exchanging d r gb ?ga ?tgt t (Some g) m1 (a1, b1)" "m_task m1 = m_task m"
    "length (m_samples m1) = 1" "datagram (last (sent a1)) = encode_ping t (Some g)"
    "in_order d r t (round_times 50 (a1, b1))" "session a1 = session a" "ghost_offset a1 = ghost_offset a"
    "session b1 = session b" "foreign_timelines a1 = foreign_timelines a" "timeline a1 = timeline a"
    by (auto simp: SAMPLES_REQUIRED_def)
  have first: "exchange gb src ?ga ?tgt (Suc 50) (encode_ping h None) (a, b) =
      exchange gb src ?ga ?tgt 50 (encode_ping t (Some g)) (a1, b1)"
    by (simp only: exchange.simps Let_def b1_def [symmetric] a1_def [symmetric] c(4))
  have "in_order d r t (round_times (49 + 1) (a1, b1))" using c(5) by simp
  from exchange_rounds [OF c(1) this, of src] c(3)
  obtain h' p' m' a2 b2 where k: "exchange gb src ?ga ?tgt (49 + 1) (encode_ping t (Some g)) (a1, b1) =
      exchange gb src ?ga ?tgt 1 (encode_ping h' (Some p')) (a2, b2)"
    "exchanging d r gb ?ga ?tgt h' (Some p') m' (a2, b2)" "m_task m' = m_task m1"
    "length (m_samples m') = 99" "in_order d r h' (round_times 1 (a2, b2))"
    "session a2 = session a1" "ghost_offset a2 = ghost_offset a1" "foreign_timelines a2 = foreign_timelines a1"
    "timeline a2 = timeline a1" by (auto simp: SAMPLES_REQUIRED_def)
  from exchange_completes [OF k(2,5) _ assms(11-13), of src] k(4)
  obtain offset m'' e where o: "fst (exchange gb src ?ga ?tgt 1 (encode_ping h' (Some p')) (a2, b2)) =
      measurement_succeeded m'' offset e" "m_task m'' = m_task m'" "d - r \<le> sint offset" "sint offset \<le> d + r"
    "session e = session a2" "ghost_offset e = ghost_offset a2" "foreign_timelines e = foreign_timelines a2"
    "timeline e = timeline a2" by (auto simp: SAMPLES_REQUIRED_def)
  have a': "a' = measurement_succeeded m'' offset e"
    using assms(18) first k(1) o(1) by simp
  have task: "m_task m'' = m_task m" using o(2) k(3) c(2) by simp
  have e: "session e = session a" "ghost_offset e = ghost_offset a"
    "foreign_timelines e = foreign_timelines a" "timeline e = timeline a"
    using o(5-8) k(6-9) c(6,7,9,10) by simp_all
  have b: "\<bar>sint offset - sint (ghost_offset a)\<bar> \<le> 2 ^ 53"
    using o(3,4) assms(11,13,14) by (simp add: abs_le_iff)
  then have g: "sint (offset - ghost_offset a) = sint offset - sint (ghost_offset a)"
    by (simp add: sint_sub_i64 abs_le_iff)
  then have "sint (offset - ghost_offset a) \<noteq> - (2 ^ 63)" using b by (simp add: abs_le_iff)
  from join_rule_cases [OF this] have "join_rule (offset - ghost_offset a) (session b) (session a) \<longleftrightarrow>
      leads (sint offset - sint (ghost_offset a)) (session b) (session a)" by (simp add: leads_def g)
  also have "\<dots> \<longleftrightarrow> leads gap (session b) (session a)"
    using o(3,4) assms(12,15-17) by (auto simp: leads_def abs_if split: if_splits)
  finally have j: "join_rule (offset - ghost_offset a) (session b) (session a) \<longleftrightarrow> leads gap (session b) (session a)" .
  have "map_of (measured a') (session b) = Some offset"
    using measurement_succeeded_measured [of m'' offset e] assms(6) by (simp add: a' task)
  moreover have "\<bar>sint offset - d\<bar> \<le> r" using o(3,4) by (simp add: abs_le_iff)
  moreover have "(session a', ghost_offset a', timeline a') =
      (if leads gap (session b) (session a) then (session b, offset,
        case map_of (foreign_timelines a) (session b) of None \<Rightarrow> timeline a | Some l \<Rightarrow> clamped l)
      else (session a, ghost_offset a, timeline a))"
    using join_succeeded [of m'' offset e] assms(5-7) e j by (simp add: a' task split: option.split)
  ultimately show ?thesis by blast
qed

section \<open>From an Alive to the session\<close>

text \<open>An idle peer that hears of an unknown session starts to measure it at the endpoint it was told.\<close>

lemma endpoint_of_sender:
  assumes "fair_iteration (env e)" and "\<forall>x \<in> set (peers e). fst (fst x) \<noteq> sess"
    and "peers e' = AList.update (n, g) p (peers e)" and "env e' = env e"
    and "ps_measurement_endpoint (pe_state p) = Some ep"
  shows "or_else (find_endpoint (\<lambda>n _. n = sess) e') (Some (ep, g)) = Some (ep, g)"
proof -
  have "x = (ep, g)" if "x \<in> set (List.map_filter (\<lambda>((n, g), p). if n = sess
      then map_option (\<lambda>m. (m, g)) (ps_measurement_endpoint (pe_state p)) else None) (iter_peers (env e') (peers e')))" for x
  proof -
    have "set (iter_peers (env e') (peers e')) = set (AList.update (n, g) p (peers e))"
      using assms(1,3,4) by (simp add: fair_iteration_def)
    with that obtain y where y: "y \<in> set (AList.update (n, g) p (peers e))" "fst (fst y) = sess"
      "map_option (\<lambda>m. (m, snd (fst y))) (ps_measurement_endpoint (pe_state (snd y))) = Some x"
      by (auto simp: List.map_filter_def split: if_splits)
    from mem_update [OF y(1)] have "y = ((n, g), p) \<or> y \<in> set (peers e)" .
    with assms(2,5) y(2,3) show ?thesis by auto
  qed
  then show ?thesis by (auto simp: find_endpoint_def or_else_def split: list.split)
qed

lemma hearing_starts:
  assumes "fair_iteration (env a)" and "enabled a" and "measurement a = None" and "pending a = []"
    and "n \<noteq> node a" and "wire_peer_state ps" and "ps_session ps = Some sess" and "sess \<noteq> session a"
    and "map_of (measured a) sess = None" and "map_of (foreign_timelines a) sess = None"
    and "\<forall>x \<in> set (peers a). fst (fst x) \<noteq> sess" and "map_of (gateways a) g = Some gw"
    and "ps_measurement_endpoint ps = Some ep" and "ps_timeline ps = Some l"
    and "a' = handle_discovery_datagram g src (encode_disc (disc_alive n ps)) a"
    and "h = env_clock (env a) (clock_reads a + 1)"
  shows "measurement a' = Some \<lparr>m_task = \<lparr>mt_session = sess, mt_target = ep, mt_gateway = g, mt_purpose = Join\<rparr>,
      m_samples = [], m_timeouts = 0, m_retry_deadline = h + MEASUREMENT_RETRY\<rparr>"
    and "datagram (last (sent a')) = encode_ping h None"
    and "enabled a'" "session a' = session a" "ghost_offset a' = ghost_offset a" "gateways a' = gateways a"
    "env a' = env a" "clock_reads a' = clock_reads a + 2" "map_of (foreign_timelines a') sess = Some l"
    "timeline a' = timeline a"
proof -
  let ?q = "\<lparr>mt_session = sess, mt_target = ep, mt_gateway = g, mt_purpose = Join\<rparr>"
  define e2 where "e2 = record_peer g n DISC_TTL_SECONDS ps (respond g src a)"
  define e3 where "e3 = cache_timeline sess (Some l) e2"
  have e2: "session e2 = session a"
    by (simp add: e2_def record_peer_def now_def notify_def)
  have e3: "peers e3 = AList.update (n, g) \<lparr>pe_state = ps, pe_deadline = fst (now a) + ttl_micros DISC_TTL_SECONDS\<rparr> (peers a)"
    "env e3 = env a" "session e3 = session a" "measured e3 = measured a" "measurement e3 = None" "pending e3 = []"
    "gateways e3 = gateways a" "clock_reads e3 = clock_reads a + 1" "enabled e3"
    "ghost_offset e3 = ghost_offset a" "timeline e3 = timeline a" "map_of (foreign_timelines e3) sess = Some l"
    using assms(2-4,10,12)
    by (simp_all add: e3_def e2_def respond_def record_peer_def cache_timeline_def now_def transmit_def notify_def
        update_conv' split: option.split)
  have "a' = queue_measurement g sess ps Join e3"
    using assms(7-9,14) e2 e3(4)
    by (simp add: assms(15) handle_alive_process [OF assms(2,5,6)] process_peer_state_def follow_session_def
        Let_def e2_def [symmetric] e3_def [symmetric])
  moreover have "or_else (find_endpoint (\<lambda>n _. n = sess) e3) (Some (ep, g)) = Some (ep, g)"
    by (rule endpoint_of_sender [OF assms(1,11) e3(1,2)]) (simp add: assms(13))
  ultimately have "a' = start_next_measurement (e3\<lparr>pending := [?q]\<rparr>)"
    using assms(13) e3(5,6) by (simp add: queue_measurement_def measuring_def)
  then show "measurement a' = Some \<lparr>m_task = \<lparr>mt_session = sess, mt_target = ep, mt_gateway = g, mt_purpose = Join\<rparr>,
      m_samples = [], m_timeouts = 0, m_retry_deadline = h + MEASUREMENT_RETRY\<rparr>"
    and "datagram (last (sent a')) = encode_ping h None"
    and "enabled a'" "session a' = session a" "ghost_offset a' = ghost_offset a" "gateways a' = gateways a"
    "env a' = env a" "clock_reads a' = clock_reads a + 2" "map_of (foreign_timelines a') sess = Some l"
    "timeline a' = timeline a"
    using assms(12,16) e3
    by (simp_all add: start_next_measurement_def now_def transmit_def notify_def Let_def)
qed

text \<open>C3: An idle peer \<open>a\<close> that hears the Alive of a peer \<open>b\<close> of an unknown session ends with the decision that
  the true clocks ask for. It measures \<open>b\<close> at the endpoint of the Alive; when 51 pings in a row are answered,
  each answer made between the sending of its ping and its receipt and no round trip longer than \<open>r\<close>, the
  measured offset is within \<open>r\<close> of the true one, and \<open>a\<close> joins \<open>b\<close>'s session and follows its timeline exactly
  if that session's ghost clock is ahead by more than half a second, or is within half a second and has
  the lesser identifier; else \<open>a\<close> keeps its session, clock and timeline. The true lead is not within \<open>r\<close> of half
  a second either way, where the measured one may decide otherwise.\<close>

theorem hearing_joins:
  assumes "fair_iteration (env a)" and "enabled a" and "measurement a = None" and "pending a = []"
    and "map_of (measured a) (session b) = None" and "map_of (foreign_timelines a) (session b) = None"
    and "\<forall>x \<in> set (peers a). fst (fst x) \<noteq> session b" and "map_of (gateways a) ga = Some gwa"
    and "enabled b" and "node a \<noteq> node b" and "session a \<noteq> session b" and "map_of (gateways b) gb = Some gwb"
    and "ipv4_endpoint (gw_measurement gwb)" and "ipv4_endpoint (gw_audio gwb)"
    and "a1 = handle_discovery_datagram ga srca (encode_disc (disc_alive (node b) (build_state b gwb))) a"
    and "a' = fst (exchange gb src ga (gw_measurement gwb) 51 (datagram (last (sent a1))) (a1, b))"
    and "in_order d r (env_clock (env a) (clock_reads a + 1)) (round_times 51 (a1, b))"
    and "\<bar>d\<bar> \<le> 2 ^ 51" and "0 \<le> r" and "r \<le> 2 ^ 51" and "\<bar>sint (ghost_offset a)\<bar> \<le> 2 ^ 51"
    and "gap = d - sint (ghost_offset a)" and "r < \<bar>gap - 500000\<bar>" and "r < \<bar>gap + 500000\<bar>"
  shows "\<exists>offset. \<bar>sint offset - d\<bar> \<le> r \<and> (session a', ghost_offset a', timeline a') =
    (if leads gap (session b) (session a) then (session b, offset, clamped (timeline b))
     else (session a, ghost_offset a, timeline a))"
proof -
  let ?h = "env_clock (env a) (clock_reads a + 1)"
  let ?m = "\<lparr>m_task = \<lparr>mt_session = session b, mt_target = gw_measurement gwb, mt_gateway = ga, mt_purpose = Join\<rparr>,
    m_samples = [], m_timeouts = 0, m_retry_deadline = ?h + MEASUREMENT_RETRY\<rparr>"
  have ps: "node b \<noteq> node a" "session b \<noteq> session a" "wire_peer_state (build_state b gwb)"
    "ps_measurement_endpoint (build_state b gwb) = Some (gw_measurement gwb)"
    using assms(10,11) build_state_wire [OF assms(13,14)] by (simp_all add: build_state_def)
  note start = hearing_starts [OF assms(1-4) ps(1,3) build_state_fields(2) ps(2) assms(5-8) ps(4)
      build_state_fields(1) assms(15) refl]
  have "\<exists>offset. map_of (measured a') (session b) = Some offset \<and> \<bar>sint offset - d\<bar> \<le> r \<and>
    (session a', ghost_offset a', timeline a') = (if leads gap (session b) (session a1) then (session b, offset,
        case map_of (foreign_timelines a1) (session b) of None \<Rightarrow> timeline a1 | Some l \<Rightarrow> clamped l)
      else (session a1, ghost_offset a1, timeline a1))"
    by (rule measurement_joins [where m = ?m and gb = gb and h = ?h and src = src])
      (use start assms(8,9,11,12,16-24) in simp_all)
  then show ?thesis using start by auto
qed

text \<open>Two peers whose clocks advance by a second with every reading; the ghost clock of the responder is three
  seconds ahead of the clock of the newcomer.\<close>

definition example_responder :: engine where
  "example_responder = (example_member (Id 1))\<lparr>ghost_offset := 5000000,
     env := example_env\<lparr>env_clock := (\<lambda>n. 1000000 * (word_of_nat n + 1) - 10)\<rparr>\<rparr>"

definition example_newcomer :: engine where
  "example_newcomer = (example_member (Id 2))\<lparr>session := Id 2\<rparr>"

definition after_alive :: engine where
  "after_alive = handle_discovery_datagram 0 (V4 0x7F000001 9003)
     (encode_disc (disc_alive (node example_responder) (build_state example_responder example_gateway))) example_newcomer"

lemma hearing_joins_witness:
  "session (fst (exchange 0 (V4 0x7F000001 9002) 0 (gw_measurement example_gateway) 51
    (datagram (last (sent after_alive))) (after_alive, example_responder))) = Id 1"
proof -
  define a' where "a' = fst (exchange 0 (V4 0x7F000001 9002) 0 (gw_measurement example_gateway) 51
    (datagram (last (sent after_alive))) (after_alive, example_responder))"
  have b: "enabled example_responder" "session example_responder = Id 1" "node example_responder = Id 1"
    "map_of (gateways example_responder) 0 = Some example_gateway"
    by (simp_all add: example_responder_def)
  have a: "enabled example_newcomer" "session example_newcomer = Id 2" "node example_newcomer = Id 2"
    "ghost_offset example_newcomer = 0" "map_of (gateways example_newcomer) 0 = Some example_gateway"
    "env example_newcomer = example_env" "clock_reads example_newcomer = 0" "measurement example_newcomer = None"
    "pending example_newcomer = []" "measured example_newcomer = []" "foreign_timelines example_newcomer = []"
    "peers example_newcomer = []"
    by (simp_all add: example_newcomer_def example_member_def example_peer_def new_engine_def Let_def)
  have g: "ipv4_endpoint (gw_measurement example_gateway)" "ipv4_endpoint (gw_audio example_gateway)"
    by (simp_all add: example_gateway_def ipv4_endpoint_def)
  have ps: "wire_peer_state (build_state example_responder example_gateway)" by (rule build_state_wire [OF g])
  have q: "node example_responder \<noteq> node example_newcomer" "session example_responder \<noteq> session example_newcomer"
    "map_of (measured example_newcomer) (session example_responder) = None"
    "map_of (foreign_timelines example_newcomer) (session example_responder) = None"
    "\<forall>x \<in> set (peers example_newcomer). fst (fst x) \<noteq> session example_responder"
    "fair_iteration (env example_newcomer)" by (simp_all add: a b)
  have e: "ps_measurement_endpoint (build_state example_responder example_gateway) = Some (gw_measurement example_gateway)"
    by (simp add: build_state_def)
  note start = hearing_starts [OF q(6) a(1,8,9) q(1) ps build_state_fields(2) q(2-5) a(5) e build_state_fields(1)
      after_alive_def refl]
  have t: "env after_alive = example_env" "clock_reads after_alive = 2" using start(7,8) a by simp_all
  have o: "in_order 3000000 1000000 (env_clock (env example_newcomer) (clock_reads example_newcomer + 1))
      (round_times 51 (after_alive, example_responder))"
    by (simp add: round_times_def t a example_responder_def example_env_def clock_range_def upt_rec)
  have "\<exists>offset. \<bar>sint offset - 3000000\<bar> \<le> 1000000 \<and> (session a', ghost_offset a', timeline a') =
    (if leads 3000000 (session example_responder) (session example_newcomer)
     then (session example_responder, offset, clamped (timeline example_responder))
     else (session example_newcomer, ghost_offset example_newcomer, timeline example_newcomer))"
    by (rule hearing_joins [OF _ _ _ _ _ _ _ _ b(1) _ _ b(4) g after_alive_def a'_def o]) (simp_all add: a b)
  then show ?thesis by (auto simp: a'_def [symmetric] leads_def b)
qed

end
