(* ===== verification/Subscription.thy ===== *)
theory Subscription
  imports Audio_Stream Joining
begin

text \<open>
  How a subscription comes about and is kept alive, \<^verbatim>\<open>crates/tactus/src/audio.rs\<close>: an announcement makes
  a channel known, subscribing to it sends a request on the best path to its publisher, and the request
  makes the publisher send; requests are repeated.
\<close>

section \<open>Announcement\<close>

lemma sint_ttl [simp]: "sint (ttl_micros AUDIO_TTL_SECONDS) = 5000000"
  by (simp add: ttl_micros_def AUDIO_TTL_SECONDS_def)

lemma handle_framed:
  assumes "enabled e" and "audio e = Some a" and "sendable (new_audio_frame n m)" and "n \<noteq> node e"
  shows "handle_audio_datagram g src (encode_audio (new_audio_frame n m)) e =
    handle_audio_message (fst (now e)) g src (new_audio_frame n m) a (snd (now e))"
  using assms by (simp add: handle_audio_datagram_def decode_encode_audio new_audio_frame_def now_def)

lemma learned_channels:
  fixes kn :: "((channel_id \<times> nat) \<times> known_channel) list"
  assumes "\<forall>x \<in> set kn. fst (fst x) = ch \<longrightarrow> kc_peer (snd x) = n" and "\<And>c. kc_peer (f c) = n"
  shows "\<forall>x \<in> set (foldl (\<lambda>kn c. AList.update (ci_id c, g) (f c) kn) kn chs).
      fst (fst x) = ch \<longrightarrow> kc_peer (snd x) = n"
    and "ch \<in> ci_id ` set chs \<or> (ch, g) \<in> fst ` set kn \<Longrightarrow>
      (ch, g) \<in> fst ` set (foldl (\<lambda>kn c. AList.update (ci_id c, g) (f c) kn) kn chs)"
proof -
  show "\<forall>x \<in> set (foldl (\<lambda>kn c. AList.update (ci_id c, g) (f c) kn) kn chs). fst (fst x) = ch \<longrightarrow> kc_peer (snd x) = n"
    using assms(1)
  proof (induction chs arbitrary: kn)
    case (Cons c chs)
    have "\<forall>x \<in> set (AList.update (ci_id c, g) (f c) kn). fst (fst x) = ch \<longrightarrow> kc_peer (snd x) = n"
      by (rule ball_update) (use Cons.prems assms(2) in simp_all)
    from Cons.IH [OF this] show ?case by simp
  qed simp
  show "(ch, g) \<in> fst ` set (foldl (\<lambda>kn c. AList.update (ci_id c, g) (f c) kn) kn chs)"
    if "ch \<in> ci_id ` set chs \<or> (ch, g) \<in> fst ` set kn"
    using that
  proof (induction chs arbitrary: kn)
    case (Cons c chs)
    have "ch \<in> ci_id ` set chs \<or> (ch, g) \<in> fst ` set (AList.update (ci_id c, g) (f c) kn)"
      using Cons.prems by (auto simp: update_keys)
    from Cons.IH [OF this] show ?case by simp
  qed simp
qed

lemma best_path_exists:
  assumes "((n, g), p) \<in> set ps" and "ps_audio_endpoint (pe_state p) = Some ep"
  shows "\<exists>g' p' ep'. best_path ps pths n = Some (g', ep') \<and> ((n, g'), p') \<in> set ps \<and>
    ps_audio_endpoint (pe_state p') = Some ep'"
proof -
  let ?xs = "List.map_filter (\<lambda>((m, g), p). if m = n then map_option (\<lambda>ep. (g, ep)) (ps_audio_endpoint (pe_state p)) else None) ps"
  have mem: "(g', ep') \<in> set ?xs \<longleftrightarrow> (\<exists>p'. ((n, g'), p') \<in> set ps \<and> ps_audio_endpoint (pe_state p') = Some ep')" for g' ep'
    by (force simp: List.map_filter_def split: if_splits)
  have fold: "foldl (\<lambda>best y. if lt y best then best else y) x ys \<in> set (x # ys)" for lt and x :: "nat \<times> socket_addr" and ys
    by (induction ys arbitrary: x) (auto split: if_splits, (metis)?)
  from assms mem have "?xs \<noteq> []" by force
  then obtain x ys where xs: "?xs = x # ys" by (cases ?xs) auto
  define lt where "lt = (\<lambda>a b. f64_total_less ((\<lambda>g. case map_of pths (n, g) of None \<Rightarrow> Fin 0 | Some p \<Rightarrow> path_quality p) (fst (a :: nat \<times> socket_addr)))
    ((\<lambda>g. case map_of pths (n, g) of None \<Rightarrow> Fin 0 | Some p \<Rightarrow> path_quality p) (fst (b :: nat \<times> socket_addr))))"
  obtain g' ep' where b: "foldl (\<lambda>best y. if lt y best then best else y) x ys = (g', ep')" by (meson prod.exhaust)
  have "best_path ps pths n = Some (g', ep')"
    using b by (simp add: best_path_def Let_def xs max_by_def lt_def)
  moreover have "(g', ep') \<in> set ?xs" using fold [of lt x ys] unfolding xs b .
  ultimately show ?thesis using mem by blast
qed

section \<open>Subscribing\<close>

text \<open>What an announcement makes known, and the request that subscribing sends.\<close>

lemma announced:
  assumes "enabled s" and "audio s = Some a" and "node p \<noteq> node s"
    and "sendable (new_audio_frame (node p) (PeerAnnouncement sess name chs ping))"
    and "map_of (peers s) (node p, g) = Some pe" and "ps_audio_endpoint (pe_state pe) = Some src"
    and "ch \<in> ci_id ` set chs" and "\<forall>x \<in> set (known a). fst (fst x) \<noteq> ch"
    and "s1 = handle_audio_datagram g src (encode_audio (new_audio_frame (node p)
      (PeerAnnouncement sess name chs ping))) s"
  shows "\<exists>kn. audio s1 = Some (a\<lparr>known := kn\<rparr>) \<and> (\<forall>x \<in> set kn. fst (fst x) = ch \<longrightarrow> kc_peer (snd x) = node p) \<and>
      (\<exists>x \<in> set kn. fst (fst x) = ch)"
    and "node s1 = node s" "peers s1 = peers s" "gateways s1 = gateways s" "env s1 = env s"
proof -
  let ?f = "\<lambda>c. \<lparr>kc_peer = node p, kc_peer_name = name, kc_name = ci_name c,
    kc_deadline = fst (now s) + ttl_micros AUDIO_TTL_SECONDS\<rparr>"
  let ?kn = "foldl (\<lambda>kn c. AList.update (ci_id c, g) (?f c) kn) (known a) chs"
  have s1: "s1 = handle_audio_message (fst (now s)) g src (new_audio_frame (node p)
      (PeerAnnouncement sess name chs ping)) a (snd (now s))"
    unfolding assms(9) by (rule handle_framed [OF assms(1,2,4,3)])
  have "audio s1 = Some (a\<lparr>known := ?kn\<rparr>)"
    using assms(5,6) unfolding s1
    by (simp add: handle_audio_message_def handle_announcement_def new_audio_frame_def now_def notify_def Let_def
        send_via_def transmit_def split: option.split)
  moreover have "\<forall>x \<in> set ?kn. fst (fst x) = ch \<longrightarrow> kc_peer (snd x) = node p"
    by (rule learned_channels(1)) (use assms(8) in simp_all)
  moreover have "(ch, g) \<in> fst ` set ?kn"
    by (rule learned_channels(2) [where n = "node p"]) (use assms(7,8) in simp_all)
  ultimately show "\<exists>kn. audio s1 = Some (a\<lparr>known := kn\<rparr>) \<and>
      (\<forall>x \<in> set kn. fst (fst x) = ch \<longrightarrow> kc_peer (snd x) = node p) \<and> (\<exists>x \<in> set kn. fst (fst x) = ch)"
    by force
  have "sans_audio s1 = sans_audio s" unfolding assms(9) by (rule frame_simps)
  from sans_audio_fields [OF this]
  show "node s1 = node s" "peers s1 = peers s" "gateways s1 = gateways s" "env s1 = env s" by simp_all
qed

lemma find_by_channel:
  assumes "\<exists>x \<in> set xs. fst (fst x) = ch"
  obtains x where "List.find (\<lambda>((i, _), _). i = ch) xs = Some x" and "x \<in> set xs" and "fst (fst x) = ch"
proof -
  have "List.find (\<lambda>((i, _), _). i = ch) xs \<noteq> None" unfolding find_None_iff case_prod_unfold using assms by blast
  then obtain x where x: "List.find (\<lambda>((i, _), _). i = ch) xs = Some x" by blast
  then have "x \<in> set xs" "fst (fst x) = ch" by (auto simp: find_Some_iff case_prod_unfold)
  with x show ?thesis by (rule that)
qed

lemma request_sendable: "sendable (new_audio_frame n (ChannelRequest ch))"
  by (simp add: sendable_def new_audio_frame_def length_encode_audio audio_payload_def id_entry_def entry_bytes_def
      id_bytes_def)

lemma subscribe_sends:
  assumes "audio s = Some a" and "set (iter_known (env s) (known a)) = set (known a)"
    and "set (iter_peers (env s) (peers s)) = set (peers s)"
    and "\<forall>x \<in> set (known a). fst (fst x) = ch \<longrightarrow> kc_peer (snd x) = n" and "\<exists>x \<in> set (known a). fst (fst x) = ch"
    and "((n, g), pe) \<in> set (peers s)" and "ps_audio_endpoint (pe_state pe) = Some src"
    and "\<forall>x \<in> set (peers s). fst (fst x) = n \<longrightarrow> map_of (gateways s) (snd (fst x)) \<noteq> None"
    and "map_of (sources a) ch = None" and "s2 = subscribe ch q s"
  shows "\<exists>g' pe' ep gw. ((n, g'), pe') \<in> set (peers s) \<and> ps_audio_endpoint (pe_state pe') = Some ep \<and>
      map_of (gateways s) g' = Some gw \<and>
      sent s2 = sent s @ [Send_audio (gw_id gw) (encode_audio (new_audio_frame (node s) (ChannelRequest ch))) ep]"
    and "\<exists>a2. audio s2 = Some a2 \<and> map_of (sources a2) ch = Some \<lparr>so_quantum = q, last_request_at = fst (now s),
      last_buffer_at = word_of_int (- (2 ^ 62)), inbox = [], next_seq_expected = None, lost_chunks = 0\<rparr>"
proof -
  define a1 where "a1 = a\<lparr>sources := AList.update ch \<lparr>so_quantum = q, last_request_at = fst (now s),
    last_buffer_at = word_of_int (- (2 ^ 62)), inbox = [], next_seq_expected = None, lost_chunks = 0\<rparr> (sources a)\<rparr>"
  have s2: "s2 = notify (send_request ch False ((snd (now s))\<lparr>audio := Some a1\<rparr>))"
    using assms(1,9) by (simp add: assms(10) subscribe_def now_def a1_def)
  have "\<exists>x \<in> set (iter_known (env s) (known a)). fst (fst x) = ch" using assms(2,5) by simp
  then obtain x where x: "List.find (\<lambda>((i, _), _). i = ch) (iter_known (env s) (known a)) = Some x"
    "x \<in> set (iter_known (env s) (known a))" "fst (fst x) = ch" by (rule find_by_channel)
  then have n: "kc_peer (snd x) = n" using assms(2,4) by simp
  obtain g' pe' ep where b: "best_path (iter_peers (env s) (peers s)) (paths a) n = Some (g', ep)"
    "((n, g'), pe') \<in> set (peers s)" "ps_audio_endpoint (pe_state pe') = Some ep"
    using best_path_exists [of n g pe "iter_peers (env s) (peers s)" src "paths a"] assms(3,6,7) by auto
  obtain gw where gw: "map_of (gateways s) g' = Some gw" using assms(8) b(2) by fastforce
  have "send_request ch False ((snd (now s))\<lparr>audio := Some a1\<rparr>) =
      transmit [Send_audio (gw_id gw) (encode_audio (new_audio_frame (node s) (ChannelRequest ch))) ep]
        ((snd (now s))\<lparr>audio := Some a1\<rparr>)"
    using x(1) n b(1) gw by (cases x) (simp add: send_request_def a1_def now_def send_via_def)
  then have s2': "s2 = notify (transmit [Send_audio (gw_id gw)
      (encode_audio (new_audio_frame (node s) (ChannelRequest ch))) ep] ((snd (now s))\<lparr>audio := Some a1\<rparr>))"
    by (simp add: s2)
  then have "sent s2 = sent s @ [Send_audio (gw_id gw) (encode_audio (new_audio_frame (node s) (ChannelRequest ch))) ep]"
    by (simp add: notify_def transmit_def now_def)
  with b gw show "\<exists>g' pe' ep gw. ((n, g'), pe') \<in> set (peers s) \<and> ps_audio_endpoint (pe_state pe') = Some ep \<and>
      map_of (gateways s) g' = Some gw \<and>
      sent s2 = sent s @ [Send_audio (gw_id gw) (encode_audio (new_audio_frame (node s) (ChannelRequest ch))) ep]"
    by blast
  show "\<exists>a2. audio s2 = Some a2 \<and> map_of (sources a2) ch = Some \<lparr>so_quantum = q, last_request_at = fst (now s),
      last_buffer_at = word_of_int (- (2 ^ 62)), inbox = [], next_seq_expected = None, lost_chunks = 0\<rparr>"
    by (simp add: s2' notify_def transmit_def a1_def update_conv')
qed

lemma find_update_first:
  "\<exists>k \<in> set ks. P k \<Longrightarrow> (\<And>k. P (f k) = P k) \<Longrightarrow>
    \<exists>k. List.find P ks = Some k \<and> List.find P (update_first P f ks) = Some (f k)"
  by (induction ks) auto

lemma request_registers:
  assumes "enabled p" and "audio p = Some a" and "n \<noteq> node p" and "\<exists>k \<in> set (sinks a). sk_id k = ch"
    and "p1 = handle_audio_datagram g src (encode_audio (new_audio_frame n (ChannelRequest ch))) p"
  shows "\<exists>a1 k. audio p1 = Some a1 \<and> List.find (\<lambda>k. sk_id k = ch) (sinks a1) = Some k \<and>
    map_of (requesters k) n = Some (fst (now p) + ttl_micros AUDIO_TTL_SECONDS)"
proof -
  let ?f = "\<lambda>k. k\<lparr>requesters := AList.update n (fst (now p) + ttl_micros AUDIO_TTL_SECONDS) (requesters k)\<rparr>"
  have "p1 = handle_audio_message (fst (now p)) g src (new_audio_frame n (ChannelRequest ch)) a (snd (now p))"
    unfolding assms(5) by (rule handle_framed [OF assms(1,2) request_sendable assms(3)])
  then have "audio p1 = Some (a\<lparr>sinks := update_first (\<lambda>k. sk_id k = ch) ?f (sinks a)\<rparr>)"
    using assms(4) by (simp add: handle_audio_message_def new_audio_frame_def notify_def)
  moreover obtain k where "List.find (\<lambda>k. sk_id k = ch) (update_first (\<lambda>k. sk_id k = ch) ?f (sinks a)) = Some (?f k)"
    using find_update_first [of "sinks a" "\<lambda>k. sk_id k = ch" ?f] assms(4) by auto
  ultimately show ?thesis by (simp add: update_conv')
qed

text \<open>C8: A channel that is announced can be subscribed to. When a peer handles an announcement of a publisher that
  lists the channel, sent from the audio endpoint it knows of that publisher, and then subscribes, it sends
  one request, through an open gateway to an audio endpoint that the publisher advertises, and waits with
  an empty inbox; and when the publisher handles the request, the subscriber is a requester of the
  channel for five seconds.\<close>

theorem subscription_established:
  assumes "fair_iteration (env s)" and "enabled s" and "audio s = Some a" and "node p \<noteq> node s"
    and "sendable (new_audio_frame (node p) (PeerAnnouncement sess name chs ping))" and "ch \<in> ci_id ` set chs"
    and "map_of (peers s) (node p, g) = Some pe" and "ps_audio_endpoint (pe_state pe) = Some src"
    and "\<forall>x \<in> set (peers s). fst (fst x) = node p \<longrightarrow> map_of (gateways s) (snd (fst x)) \<noteq> None"
    and "\<forall>x \<in> set (known a). fst (fst x) \<noteq> ch" and "map_of (sources a) ch = None"
    and "s1 = handle_audio_datagram g src (encode_audio (new_audio_frame (node p)
      (PeerAnnouncement sess name chs ping))) s"
    and "s2 = subscribe ch q s1"
    and "enabled p" and "audio p = Some ap" and "\<exists>k \<in> set (sinks ap). sk_id k = ch"
    and "p1 = handle_audio_datagram gp srcp (datagram (last (sent s2))) p"
  shows "\<exists>g' pe' ep gw bs a2 r ap1 k. sent s2 = sent s1 @ [Send_audio (gw_id gw) bs ep] \<and>
    ((node p, g'), pe') \<in> set (peers s) \<and> ps_audio_endpoint (pe_state pe') = Some ep \<and>
    map_of (gateways s) g' = Some gw \<and>
    audio s2 = Some a2 \<and> map_of (sources a2) ch = Some r \<and> inbox r = [] \<and> next_seq_expected r = None \<and>
    audio p1 = Some ap1 \<and> List.find (\<lambda>k. sk_id k = ch) (sinks ap1) = Some k \<and>
    map_of (requesters k) (node s) = Some (fst (now p) + 5000000)"
proof -
  note an = announced [OF assms(2,3,4,5,7,8,6,10,12)]
  obtain kn where kn: "audio s1 = Some (a\<lparr>known := kn\<rparr>)" "\<forall>x \<in> set kn. fst (fst x) = ch \<longrightarrow> kc_peer (snd x) = node p"
    "\<exists>x \<in> set kn. fst (fst x) = ch" using an(1) by blast
  have i: "set (iter_known (env s1) (known (a\<lparr>known := kn\<rparr>))) = set (known (a\<lparr>known := kn\<rparr>))"
    "set (iter_peers (env s1) (peers s1)) = set (peers s1)"
    using assms(1) an(5) by (simp_all add: fair_iteration_def)
  have mem: "((node p, g), pe) \<in> set (peers s1)" using assms(7) an(3) by (simp add: map_of_SomeD)
  have open': "\<forall>x \<in> set (peers s1). fst (fst x) = node p \<longrightarrow> map_of (gateways s1) (snd (fst x)) \<noteq> None"
    using assms(9) an(3,4) by simp
  have src: "map_of (sources (a\<lparr>known := kn\<rparr>)) ch = None" using assms(11) by simp
  have k: "\<forall>x \<in> set (known (a\<lparr>known := kn\<rparr>)). fst (fst x) = ch \<longrightarrow> kc_peer (snd x) = node p"
    "\<exists>x \<in> set (known (a\<lparr>known := kn\<rparr>)). fst (fst x) = ch" using kn(2,3) by simp_all
  note sub = subscribe_sends [OF kn(1) i k mem assms(8) open' src assms(13)]
  obtain g' pe' ep gw where r: "((node p, g'), pe') \<in> set (peers s)" "ps_audio_endpoint (pe_state pe') = Some ep"
    "map_of (gateways s) g' = Some gw"
    "sent s2 = sent s1 @ [Send_audio (gw_id gw) (encode_audio (new_audio_frame (node s) (ChannelRequest ch))) ep]"
    using sub(1) an(2-4) by auto
  have p1: "p1 = handle_audio_datagram gp srcp (encode_audio (new_audio_frame (node s) (ChannelRequest ch))) p"
    by (simp add: assms(17) r(4))
  have "ttl_micros AUDIO_TTL_SECONDS = 5000000" by (simp add: ttl_micros_def AUDIO_TTL_SECONDS_def)
  then show ?thesis
    using r sub(2) request_registers [OF assms(14,15) assms(4) [symmetric] assms(16) p1] by fastforce
qed

definition example_listing :: audio_message where
  "example_listing = PeerAnnouncement (Id 1) [] [\<lparr>ci_name = [], ci_id = Id 1\<rparr>] None"

definition example_audience :: engine where
  "example_audience = (example_member (Id 2))\<lparr>audio := Some (new_audio_state []),
     peers := [((Id 3, 0), \<lparr>pe_state = \<lparr>ps_timeline = None, ps_session = Some (Id 1), ps_start_stop = None,
       ps_measurement_endpoint = None, ps_audio_endpoint = Some (V4 9 9)\<rparr>, pe_deadline = 9000000\<rparr>)]\<rparr>"

lemma subscription_established_witness:
  "\<exists>k ap1. audio (handle_audio_datagram 0 (V4 8 8) (datagram (last (sent (subscribe (Id 1) 0
      (handle_audio_datagram 0 (V4 9 9) (encode_audio (new_audio_frame (Id 3) example_listing)) example_audience))))) example_publisher)
      = Some ap1 \<and> List.find (\<lambda>k. sk_id k = Id 1) (sinks ap1) = Some k \<and> map_of (requesters k) (Id 2) = Some 6000000"
proof -
  have s: "fair_iteration (env example_audience)" "enabled example_audience" "audio example_audience = Some (new_audio_state [])"
    "node example_audience = Id 2" "gateways example_audience = [(0, example_gateway)]"
    "map_of (peers example_audience) (Id 3, 0) = Some \<lparr>pe_state = \<lparr>ps_timeline = None, ps_session = Some (Id 1),
       ps_start_stop = None, ps_measurement_endpoint = None, ps_audio_endpoint = Some (V4 9 9)\<rparr>, pe_deadline = 9000000\<rparr>"
    "\<forall>x \<in> set (peers example_audience). fst (fst x) = Id 3 \<longrightarrow> map_of (gateways example_audience) (snd (fst x)) \<noteq> None"
    by (simp_all add: example_audience_def)
  have p: "enabled example_publisher" "node example_publisher = Id 3" "fst (now example_publisher) = 1000000"
    "audio example_publisher = Some ((new_audio_state [])\<lparr>sinks := [example_sink]\<rparr>)"
    by (simp_all add: example_publisher_def now_def example_env_def)
  have w: "sendable (new_audio_frame (node example_publisher) example_listing)"
    by (simp add: sendable_def new_audio_frame_def length_encode_audio audio_payload_def example_listing_def id_entry_def
        entry_bytes_def id_bytes_def w_string_def w_u32_def w_bytes_def w_counted_def w_all_def w_channel_info_def w_id_def
        ping_entry_def)
  have k: "\<exists>k \<in> set (sinks ((new_audio_state [])\<lparr>sinks := [example_sink]\<rparr>)). sk_id k = Id 1" by (simp add: example_sink_def)
  define s1 where "s1 = handle_audio_datagram 0 (V4 9 9) (encode_audio (new_audio_frame (Id 3) example_listing)) example_audience"
  define s2 where "s2 = subscribe (Id 1) 0 s1"
  define p1 where "p1 = handle_audio_datagram 0 (V4 8 8) (datagram (last (sent s2))) example_publisher"
  have l: "PeerAnnouncement (Id 1) [] [\<lparr>ci_name = [], ci_id = Id 1\<rparr>] None = example_listing"
    by (simp add: example_listing_def)
  obtain k ap1 where "audio p1 = Some ap1" "List.find (\<lambda>k. sk_id k = Id 1) (sinks ap1) = Some k"
    "map_of (requesters k) (node example_audience) = Some (fst (now example_publisher) + 5000000)"
    using subscription_established [where sess = "Id 1" and name = "[]" and chs = "[\<lparr>ci_name = [], ci_id = Id 1\<rparr>]"
        and ping = None and ch = "Id 1" and p = example_publisher and src = "V4 9 9", unfolded l p(2),
        OF s(1-3) _ w [unfolded p(2)] _ s(6) _ s(7) _ _ s1_def s2_def p(1,4) k p1_def]
    by (auto simp: s(4) new_audio_state_def)
  then show ?thesis by (simp add: p1_def s2_def s1_def s(4) p(3))
qed

section \<open>Renewal\<close>

lemma find_stored:
  "List.find P ks = Some k \<Longrightarrow> P k' \<Longrightarrow> List.find P (update_first P (\<lambda>_. k') ks) = Some k'"
  by (induction ks) (auto split: if_splits)

text \<open>C33: A subscription lapses before it is renewed. A request is due again five seconds after it was sent, and it
  counts for five seconds after it was handled: when the renewal takes no less time to the publisher than the
  request did, whatever the publisher writes to the channel just before it handles the renewal is discarded,
  with all material that was pending.\<close>

theorem subscription_lapses:
  assumes "request_due h' r" and "last_request_at r = h" and "sint t1 - sint h \<le> sint (fst (now p)) - sint h'"
    and "sint h < 2 ^ 63 - 5000000" and "sint t1 < 2 ^ 63 - 5000000"
    and "audio p = Some a" and "List.find (\<lambda>k. sk_id k = ch) (sinks a) = Some k"
    and "requesters k = [(n, t1 + ttl_micros AUDIO_TTL_SECONDS)]"
    and "legal_tempo (tempo (timeline p))" and "rate \<noteq> 0"
  shows "\<exists>a' k'. sent (write_channel ch samples rate nc b q p) = sent p \<and>
    audio (write_channel ch samples rate nc b q p) = Some a' \<and>
    List.find (\<lambda>k. sk_id k = ch) (sinks a') = Some k' \<and> segments k' = [] \<and> requesters k' = []"
proof -
  have plus: "sint (x + y) = sint x + 5000000" if "sint x < 2 ^ 63 - 5000000" "sint y = 5000000" for x y :: i64
    using that i64_range [of x] by (subst sint_add_i64) simp_all
  have "sint h + 5000000 \<le> sint h'"
    using assms(1,2,4) plus [of h REQUEST_PERIOD] by (simp add: request_due_def word_sle_eq REQUEST_PERIOD_def)
  then have "sint (t1 + ttl_micros AUDIO_TTL_SECONDS) \<le> sint (fst (now p))"
    using assms(3,5) plus [of t1 "ttl_micros AUDIO_TTL_SECONDS"] by simp
  then have gone: "retain (\<lambda>_ expiry. fst (now p) <s expiry) (requesters k) = []"
    by (simp add: assms(8) retain_def word_sless_alt)
  obtain delta where d: "session_offset (timeline p) (quantum_micro_beats q) = Some delta"
    using session_offset_Some [OF assms(9)] by blast
  define k0 where "k0 = reformat rate nc k"
  define bw where "bw = f64_to_i64 (f64_round (f64_mul b (Fin 1000000))) - delta"
  have k0: "sk_id k0 = ch" "requesters k0 = requesters k"
    using assms(7) by (auto simp: k0_def reformat_def find_Some_iff)
  have "0 < uint rate" "0 < sint (tempo (timeline p))"
    using assms(9,10) by (simp_all add: word_neq_0_conv word_less_def legal_tempo_def)
  then obtain c where c: "contiguous rate nc (tempo (timeline p)) bw (segments k0) = Some c"
    using contiguous_Some by blast
  obtain t2 p1 where now: "now p = (t2, p1)" by (cases "now p")
  then have t: "timeline p1 = timeline p" "audio p1 = Some a" "sent p1 = sent p"
    using assms(6) by (auto simp: now_def)
  have "write_channel ch samples rate nc b q p = store_sink ch (k0\<lparr>requesters := [], segments := []\<rparr>) p1"
    using gone [unfolded now fst_conv]
    by (simp add: write_channel_def write_sink_def now t assms(7) d Let_def k0_def [symmetric] bw_def [symmetric] c k0(2))
  then show ?thesis
    using t find_stored [OF assms(7), of "k0\<lparr>requesters := [], segments := []\<rparr>"] k0(1)
    by (simp add: store_sink_def)
qed

definition example_lapsing :: engine where
  "example_lapsing = example_publisher\<lparr>clock_reads := 9,
     audio := Some ((new_audio_state [])\<lparr>sinks := [example_sink\<lparr>requesters := [(Id 2, 10000000)]\<rparr>]\<rparr>)\<rparr>"

lemma subscription_lapses_witness:
  "sent (write_channel (Id 1) (replicate 600 7) 48000 1 (Fin 0) (Fin 4) example_lapsing) = []"
proof -
  let ?r = "example_source\<lparr>last_request_at := 4900000\<rparr>"
  have p: "fst (now example_lapsing) = 10000000" "sent example_lapsing = []" "tempo (timeline example_lapsing) = 500000"
    by (simp_all add: example_lapsing_def example_publisher_def now_def example_env_def tempo_at_def)
  have "5000000 + ttl_micros AUDIO_TTL_SECONDS = 10000000" by (simp add: ttl_micros_def AUDIO_TTL_SECONDS_def)
  moreover have "request_due 9900000 ?r" by (simp add: request_due_def REQUEST_PERIOD_def word_sle_eq)
  ultimately show ?thesis
    using subscription_lapses [of 9900000 ?r 4900000 5000000 example_lapsing "(new_audio_state [])\<lparr>sinks :=
        [example_sink\<lparr>requesters := [(Id 2, 10000000)]\<rparr>]\<rparr>" "Id 1" "example_sink\<lparr>requesters := [(Id 2, 10000000)]\<rparr>" "Id 2"
        48000 "replicate 600 7" 1 "Fin 0" "Fin 4"] p
    by (simp add: example_lapsing_def example_sink_def legal_tempo_def)
qed

end
