(* ===== verification/Broadcast.thy ===== *)
theory Broadcast
  imports Subscription Tempo_Burst
begin

text \<open>
  A broadcast from the application that writes to the application that polls: a sequence of writes to a
  channel (\<^verbatim>\<open>Link::write_channel\<close>), the datagrams that reach one endpoint, and the peer there that handles
  them. What is written is what is polled, and it starts at the beat it was written for.
\<close>

section \<open>Pending material\<close>

text \<open>An application that writes whole frames leaves no residue: the segments of its sink hold whole frames,
  and at least one.\<close>

definition filled :: "u8 \<Rightarrow> segment list \<Rightarrow> bool" where
  "filled nc sgs \<longleftrightarrow> (\<forall>sg \<in> set sgs. sg_samples sg \<noteq> [] \<and> channel_count nc dvd length (sg_samples sg))"

lemma filled_simps [simp]:
  "filled nc []"
  "filled nc (sg # sgs) \<longleftrightarrow> sg_samples sg \<noteq> [] \<and> channel_count nc dvd length (sg_samples sg) \<and> filled nc sgs"
  "filled nc (as @ bs) \<longleftrightarrow> filled nc as \<and> filled nc bs"
  by (auto simp: filled_def)

lemma filled_skip [simp]: "filled nc sgs \<Longrightarrow> skip_residue nc sgs = sgs"
  by (cases sgs) (auto dest: dvd_imp_le)

lemma filled_whole: "filled nc sgs \<Longrightarrow> whole_frames nc sgs = concat (map sg_samples sgs)"
  by (induction sgs) simp_all

lemma filled_append:
  assumes "filled nc sgs" and "samples \<noteq> []" and "channel_count nc dvd length samples"
    and "contiguous rate nc tmpo b sgs = Some c"
  shows "filled nc (append_material c tmpo b samples sgs)"
    and "whole_frames nc (append_material c tmpo b samples sgs) = whole_frames nc sgs @ samples"
    and "sg_begin (hd (append_material c tmpo b samples sgs)) = (if sgs = [] then b else sg_begin (hd sgs))"
    and "append_material c tmpo b samples sgs \<noteq> []"
proof -
  have c: "sgs \<noteq> []" if c using that assms(4) contiguous_last [of rate nc tmpo b sgs] by simp
  show f: "filled nc (append_material c tmpo b samples sgs)"
  proof (cases c)
    case True
    then obtain xs x where "sgs = xs @ [x]" using c by (metis rev_exhaust)
    with True assms(1-3) show ?thesis by (simp add: append_material_def)
  qed (use assms in \<open>simp add: append_material_def\<close>)
  show "whole_frames nc (append_material c tmpo b samples sgs) = whole_frames nc sgs @ samples"
  proof (cases c)
    case True
    then obtain xs x where "sgs = xs @ [x]" using c by (metis rev_exhaust)
    with True f assms(1) show ?thesis unfolding filled_whole [OF f] by (simp add: append_material_def filled_whole)
  qed (use f assms(1) in \<open>simp only: filled_whole\<close>, simp add: append_material_def)
  show "sg_begin (hd (append_material c tmpo b samples sgs)) = (if sgs = [] then b else sg_begin (hd sgs))"
  proof (cases c)
    case True
    then obtain xs x where "sgs = xs @ [x]" using c by (metis rev_exhaust)
    with True show ?thesis by (cases xs) (simp_all add: append_material_def)
  qed (simp add: append_material_def hd_append)
  show "append_material c tmpo b samples sgs \<noteq> []" by (simp add: append_material_def)
qed

lemma consume_take_filled:
  assumes "consume_take rate nc (k, cs, ds) n = Inr (k', cs', ds')" and "filled nc (segments k)"
  shows "filled nc (segments k') \<and> (\<exists>c. cs' = cs @ [c] \<and> c_begin_beats c = sg_begin (hd (segments k)))"
  using assms by (auto simp: consume_take_def Let_def dvd_diff_nat split: list.splits if_splits option.splits)

lemma consume_takes_filled:
  "fold_res (consume_take rate nc) (k, cs, ds) ns = Inr (k', cs', ds') \<Longrightarrow> filled nc (segments k) \<Longrightarrow>
    filled nc (segments k') \<and> (cs \<noteq> [] \<longrightarrow> cs' \<noteq> [] \<and> hd cs' = hd cs) \<and>
    (cs = [] \<longrightarrow> ns \<noteq> [] \<longrightarrow> cs' \<noteq> [] \<and> c_begin_beats (hd cs') = sg_begin (hd (segments k)))"
proof (induction ns arbitrary: k cs ds)
  case (Cons n ns)
  obtain k1 cs1 ds1 where 1: "consume_take rate nc (k, cs, ds) n = Inr (k1, cs1, ds1)"
    "fold_res (consume_take rate nc) (k1, cs1, ds1) ns = Inr (k', cs', ds')"
    using Cons.prems(1) by (auto simp: bind_res_Inr)
  from consume_take_filled [OF 1(1) Cons.prems(2)] Cons.IH [OF 1(2)] show ?case by (cases cs) auto
qed auto

text \<open>Draining leaves whole frames, and the first chunk that is sent starts where the material started.\<close>

lemma drain_filled:
  "drain_datagrams k ch s rate nc fill = Inr (k', bs) \<Longrightarrow> filled nc (segments k) \<Longrightarrow>
    filled nc (segments k') \<and> (bs = [] \<longrightarrow> k' = k) \<and>
    (bs \<noteq> [] \<longrightarrow> ab_chunks (hd bs) \<noteq> [] \<and> c_begin_beats (hd (ab_chunks (hd bs))) = sg_begin (hd (segments k)))"
proof (induction k ch s rate nc fill arbitrary: bs rule: drain_datagrams.induct)
  case (1 k ch s rate nc fill)
  obtain ts l x where p: "plan_segments fill nc (datagram_budget fill) (segments k) = (ts, l, x)"
    by (metis prod_cases3)
  show ?case
  proof (cases "ts = [] \<or> (\<not> x \<and> record_cost fill + frame_bytes nc \<le> l)")
    case True
    from drain_datagrams_stop [OF p True] 1(2,3) show ?thesis by simp
  next
    case False
    from 1(2) obtain k1 cs ds bs' where f: "fold_res (consume_take rate nc) (k, [], []) ts = Inr (k1, cs, ds)"
      and r: "drain_datagrams k1 ch s rate nc fill = Inr (k', bs')"
      and bs: "bs = \<lparr>ab_channel = ch, ab_session = s, ab_chunks = cs, ab_codec = CODEC_PCM_I16,
        ab_sample_rate = rate, ab_num_channels = nc, ab_sample_data = encode_samples ds\<rparr> # bs'"
      by (subst (asm) drain_datagrams.simps) (use False in \<open>auto simp: p Let_def bind_res_Inr\<close>)
    note c = consume_takes_filled [OF f 1(3)]
    have "filled nc (segments k')"
      using 1(1) [OF p [symmetric] refl refl False f refl refl r] c by blast
    then show ?thesis using c False by (simp add: bs)
  qed
qed

section \<open>One write\<close>

text \<open>The audio datagrams for one endpoint among those sent from one state to a later one, and the endpoint that
  gets what is sent to a peer, and nothing that is sent to others.\<close>

definition arriving :: "socket_addr \<Rightarrow> engine \<Rightarrow> engine \<Rightarrow> bytes list" where
  "arriving ep e e' = List.map_filter (\<lambda>x. case x of Send_audio _ bs dst \<Rightarrow> if dst = ep then Some bs else None | _ \<Rightarrow> None)
     (drop (length (sent e)) (sent e'))"

definition reaches :: "engine \<Rightarrow> paths \<Rightarrow> node_id \<Rightarrow> socket_addr \<Rightarrow> bool" where
  "reaches e pths n ep \<longleftrightarrow>
     (\<exists>g. best_path (iter_peers (env e) (peers e)) pths n = Some (g, ep) \<and> map_of (gateways e) g \<noteq> None) \<and>
     (\<forall>m g. best_path (iter_peers (env e) (peers e)) pths m = Some (g, ep) \<longrightarrow> m = n)"

lemma map_filter_laws [simp]:
  "List.map_filter f (xs @ ys) = List.map_filter f xs @ List.map_filter f ys"
  "List.map_filter Some zs = zs" "List.map_filter (\<lambda>_. None) xs = []"
  by (induction xs) (simp_all add: List.map_filter_def split: option.split)

lemma map_filter_map [simp]: "List.map_filter f (map g xs) = List.map_filter (\<lambda>x. f (g x)) xs"
  by (induction xs) (simp_all split: option.split)

lemma arriving_refl [simp]: "sent e' = sent e \<Longrightarrow> arriving ep e e' = []"
  by (simp add: arriving_def)

lemma arriving_trans:
  "outgoing e e' \<Longrightarrow> outgoing e' e'' \<Longrightarrow> arriving ep e e'' = arriving ep e e' @ arriving ep e' e''"
  by (auto simp: arriving_def outgoing_def prefix_def)

lemma send_via_arriving:
  "arriving ep e (send_via g bs dst e) = (if dst = ep \<and> map_of (gateways e) g \<noteq> None then [bs] else [])"
  by (cases "map_of (gateways e) g") (simp_all add: send_via_def transmit_def arriving_def)

lemma send_all_arriving:
  "arriving ep e (send_all ms e) =
     List.map_filter (\<lambda>(g, bs, dst). if dst = ep \<and> map_of (gateways e) g \<noteq> None then Some bs else None) ms"
proof (induction ms arbitrary: e)
  case Nil
  then show ?case by (simp add: send_all_def)
next
  case (Cons m ms)
  obtain g bs dst where m: "m = (g, bs, dst)" by (cases m)
  let ?e = "send_via g bs dst e"
  have g: "gateways ?e = gateways e" by (simp add: send_via_def transmit_def split: option.split)
  have "outgoing e ?e" by (simp add: send_via_def split: option.split)
  from arriving_trans [OF this, of "send_all ms ?e" ep]
  have "arriving ep e (send_all ms ?e) = arriving ep e ?e @ arriving ep ?e (send_all ms ?e)" by simp
  moreover have "send_all (m # ms) e = send_all ms ?e" by (simp add: m send_all_def)
  ultimately show ?case using Cons.IH [of ?e] by (simp add: m g send_via_arriving)
qed

lemma send_datagrams_only: "\<exists>xs. send_datagrams ds ns e = e\<lparr>sent := xs\<rparr>"
proof -
  have self: "\<exists>xs. e = e\<lparr>sent := xs\<rparr>" for e :: engine by (rule exI [of _ "sent e"]) simp
  have v: "\<exists>xs. send_via g bs dst e = e\<lparr>sent := xs\<rparr>" for g bs dst e
    using self by (auto simp: send_via_def transmit_def split: option.split)
  have "\<exists>xs. send_all ms e = e\<lparr>sent := xs\<rparr>" for ms
    unfolding send_all_def
  proof (induction ms arbitrary: e)
    case (Cons m ms)
    obtain g bs dst xs where m: "m = (g, bs, dst)" "send_via g bs dst e = e\<lparr>sent := xs\<rparr>"
      using v by (cases m) blast
    from Cons.IH [of "e\<lparr>sent := xs\<rparr>"] show ?case by (auto simp: m)
  qed (use self in simp)
  then show ?thesis using self by (auto simp: send_datagrams_def split: option.split)
qed

lemma send_datagrams_arriving:
  assumes "audio e = Some a" and "reaches e (paths a) n ep" and "n \<in> set ns" and "distinct ns"
  shows "arriving ep e (send_datagrams ds ns e) = ds"
proof -
  let ?f = "\<lambda>(g, bs, dst). if dst = ep \<and> map_of (gateways e) g \<noteq> None then Some bs else None"
  let ?to = "\<lambda>m. case best_path (iter_peers (env e) (peers e)) (paths a) m of None \<Rightarrow> []
    | Some (g, ep) \<Rightarrow> map (\<lambda>bs. (g, bs, ep)) ds"
  have own: "List.map_filter ?f (?to n) = ds"
    using assms(2) by (auto simp: reaches_def)
  have other: "List.map_filter ?f (?to m) = []" if "m \<noteq> n" for m
  proof (cases "best_path (iter_peers (env e) (peers e)) (paths a) m")
    case (Some x)
    then have "snd x \<noteq> ep" using assms(2) that by (cases x) (auto simp: reaches_def)
    with Some show ?thesis by (cases x) simp
  qed simp
  have none: "List.map_filter ?f (concat (map ?to ms)) = []" if "n \<notin> set ms" for ms
    using that other by (induction ms) auto
  obtain xs ys where ns: "ns = xs @ n # ys" using assms(3) by (meson split_list)
  with assms(4) have "n \<notin> set xs" "n \<notin> set ys" by auto
  then show ?thesis
    using none own by (simp add: send_datagrams_def assms(1) send_all_arriving ns)
qed

text \<open>A publisher whose sink for the channel has whole frames of one format pending, and a requester, at an endpoint
  of its own, until a deadline.\<close>

definition publishes :: "engine \<Rightarrow> channel_id \<Rightarrow> u32 \<Rightarrow> u8 \<Rightarrow> node_id \<Rightarrow> socket_addr \<Rightarrow> i64 \<Rightarrow> sink \<Rightarrow> bool" where
  "publishes p ch rate nc n ep d k \<longleftrightarrow> fair_iteration (env p) \<and> legal_tempo (tempo (timeline p)) \<and>
     (\<exists>a. audio p = Some a \<and> List.find (\<lambda>k. sk_id k = ch) (sinks a) = Some k \<and> reaches p (paths a) n ep) \<and>
     well_keyed (requesters k) \<and> map_of (requesters k) n = Some d \<and>
     (segments k = [] \<or> sk_format k = Some (rate, nc)) \<and> filled nc (segments k) \<and> positive_tempos (segments k)"

text \<open>The wire beat at which an application beat falls, in micro-beats from the origin of the session.\<close>

definition wire_begin :: "f64 \<Rightarrow> i64 \<Rightarrow> i64" where
  "wire_begin b delta = f64_to_i64 (f64_round (f64_mul b (Fin 1000000))) - delta"

definition starts :: "sink \<Rightarrow> i64 \<Rightarrow> i64" where
  "starts k b = (if segments k = [] then b else sg_begin (hd (segments k)))"

definition sink_datagrams :: "engine \<Rightarrow> channel_id \<Rightarrow> u32 \<Rightarrow> u8 \<Rightarrow> audio_buffer list \<Rightarrow> bool" where
  "sink_datagrams p ch rate nc bs \<longleftrightarrow> (\<forall>b \<in> set bs. ab_channel b = ch \<and> ab_session b = session p \<and>
     ab_sample_rate b = rate \<and> ab_num_channels b = nc \<and> datagram_of (fill_audio_datagrams (config p)) nc b)"

definition moved :: "u8 \<Rightarrow> sink \<Rightarrow> i16 list \<Rightarrow> audio_buffer list \<Rightarrow> sink \<Rightarrow> bool" where
  "moved nc k samples bs k' \<longleftrightarrow>
     concat (map buffer_samples bs) @ whole_frames nc (segments k') = whole_frames nc (segments k) @ samples \<and>
     numbered_from (next_seq k) (concat (map ab_chunks bs)) \<and>
     next_seq k' = next_seq k + word_of_nat (length (concat (map ab_chunks bs)))"

definition begins :: "i64 \<Rightarrow> audio_buffer list \<Rightarrow> sink \<Rightarrow> bool" where
  "begins b bs k' \<longleftrightarrow> (if bs = [] then segments k' \<noteq> [] \<and> sg_begin (hd (segments k')) = b
     else ab_chunks (hd bs) \<noteq> [] \<and> c_begin_beats (hd (ab_chunks (hd bs))) = b)"

definition settled :: "bool \<Rightarrow> u8 \<Rightarrow> sink \<Rightarrow> bool" where
  "settled fill nc k \<longleftrightarrow> (\<exists>ch s rate. drain_datagrams k ch s rate nc fill = Inr (k, []))"

lemma write_step:
  assumes "publishes p ch rate nc n ep d k" and "0 < uint rate" and "samples \<noteq> []"
    and "channel_count nc dvd length samples" and "fst (now p) <s d"
    and "session_offset (timeline p) (quantum_micro_beats q) = Some delta"
    and "p' = write_channel ch samples rate nc b q p"
  obtains k' bs where "publishes p' ch rate nc n ep d k'" and "env p' = env p"
    and "clock_reads p' = Suc (clock_reads p)" and "outgoing p p'"
    and "node p' = node p \<and> session p' = session p \<and> timeline p' = timeline p \<and> config p' = config p"
    and "arriving ep p p' = map (\<lambda>b. encode_audio (new_audio_frame (node p) (AudioBuffer b))) bs"
    and "sink_datagrams p ch rate nc bs" and "moved nc k samples bs k'"
    and "begins (starts k (wire_begin b delta)) bs k'" and "settled (fill_audio_datagrams (config p)) nc k'"
proof -
  obtain a where a: "audio p = Some a" "List.find (\<lambda>k. sk_id k = ch) (sinks a) = Some k" "reaches p (paths a) n ep"
    and k: "fair_iteration (env p)" "legal_tempo (tempo (timeline p))" "well_keyed (requesters k)"
      "map_of (requesters k) n = Some d" "segments k = [] \<or> sk_format k = Some (rate, nc)" "filled nc (segments k)"
      "positive_tempos (segments k)"
    using assms(1) by (auto simp: publishes_def)
  obtain t p1 where now: "now p = (t, p1)" by (cases "now p")
  then have p1: "audio p1 = Some a" "timeline p1 = timeline p" "session p1 = session p" "config p1 = config p" "node p1 = node p"
    "env p1 = env p" "peers p1 = peers p" "gateways p1 = gateways p" "sent p1 = sent p" "clock_reads p1 = Suc (clock_reads p)"
    using a(1) by (auto simp: now_def)
  define k0 where "k0 = reformat rate nc k"
  have k0: "sk_id k0 = ch" "requesters k0 = requesters k" "segments k0 = segments k" "next_seq k0 = next_seq k"
    "sk_format k0 = Some (rate, nc)"
    using a(2) k(5) by (auto simp: k0_def reformat_def find_Some_iff)
  define w where "w = wire_begin b delta"
  let ?w = w and ?t = "tempo (timeline p)" and ?fill = "fill_audio_datagrams (config p)"
  have t: "0 < sint ?t" using k(2) by (simp add: legal_tempo_def)
  obtain c where c: "contiguous rate nc ?t ?w (segments k) = Some c" using contiguous_Some [OF assms(2) t] by blast
  note fa = filled_append [OF k(6) assms(3,4) c]
  define k1 where "k1 = k0\<lparr>segments := append_material c ?t ?w samples (segments k),
    requesters := retain (\<lambda>_ expiry. t <s expiry) (requesters k)\<rparr>"
  have pos: "positive_tempos (segments k1)"
    using append_material_tempos [OF c t k(7)] by (simp add: k1_def)
  obtain k' bs where dr: "drain_datagrams k1 ch (session p) rate nc ?fill = Inr (k', bs)" "drained ?fill nc k1 k' bs"
    "drain_datagrams k' ch (session p) rate nc ?fill = Inr (k', [])"
    using drain_datagrams_spec [OF assms(2) pos] by blast
  have df: "filled nc (segments k')" "bs = [] \<Longrightarrow> k' = k1"
    "bs \<noteq> [] \<Longrightarrow> ab_chunks (hd bs) \<noteq> [] \<and> c_begin_beats (hd (ab_chunks (hd bs))) = sg_begin (hd (segments k1))"
    using drain_filled [OF dr(1)] fa(1) by (simp_all add: k1_def)
  have s: "same_sink k1 k'" "positive_tempos (segments k')" using dr(2) by (simp_all add: drained_def)
  have live: "map_of (requesters k1) n = Some d"
    using k(3,4) assms(5) now by (simp add: k1_def map_of_retain)
  then have ne: "requesters k1 \<noteq> []" by auto
  define a' where "a' = a\<lparr>sinks := update_first (\<lambda>k. sk_id k = ch) (\<lambda>_. k') (sinks a)\<rparr>"
  define p2 where "p2 = p1\<lparr>audio := Some a'\<rparr>"
  define ns where "ns = map fst (iter_requesters (env p) (requesters k'))"
  define enc where "enc = (\<lambda>b. encode_audio (new_audio_frame (node p) (AudioBuffer b)))"
  have p': "p' = send_datagrams (map enc bs) ns p2"
  proof -
    have "p' = (case contiguous rate nc ?t w (segments k0) of None \<Rightarrow> panic (store_sink ch k0 p1)
      | Some contig \<Rightarrow>
          let k = k0\<lparr>segments := append_material contig ?t w samples (segments k0),
                 requesters := retain (\<lambda>_ expiry. t <s expiry) (requesters k0)\<rparr>
          in if requesters k = [] then store_sink ch (k\<lparr>segments := []\<rparr>) p1 else
             case drain_datagrams k ch (session p) rate nc ?fill of
               Inl k' \<Rightarrow> panic (store_sink ch k' p1)
             | Inr (k', buffers) \<Rightarrow> send_datagrams
                 (map (\<lambda>b. encode_audio (new_audio_frame (node p) (AudioBuffer b))) buffers)
                 (map fst (iter_requesters (env p) (requesters k'))) (store_sink ch k' p1))"
      by (simp only: assms(6,7) write_channel_def write_sink_def now p1 a(2) Let_def k0_def w_def wire_begin_def prod.case
          option.case)
    then show ?thesis
      using ne by (simp only: k0(2,3) c option.case Let_def k1_def [symmetric] if_False dr(1) sum.case prod.case)
        (simp add: store_sink_def p1 p2_def a'_def ns_def enc_def)
  qed
  have f2: "audio p2 = Some a'" "paths a' = paths a" "sent p2 = sent p" "env p2 = env p" "peers p2 = peers p" "gateways p2 = gateways p"
    by (simp_all add: p2_def a'_def p1)
  have "set ns = fst ` set (requesters k')" "distinct ns"
    using k(1) s(1) k(3) by (simp_all add: ns_def fair_iteration_def same_sink_def k1_def)
  moreover have live': "map_of (requesters k') n = Some d" "well_keyed (requesters k')"
    using live s(1) k(3) by (simp_all add: same_sink_def k1_def)
  ultimately have ns: "n \<in> set ns" "distinct ns" by (auto dest: map_of_SomeD simp: rev_image_eqI)
  have "reaches p2 (paths a') n ep" using a(3) f2 by (simp add: reaches_def)
  from send_datagrams_arriving [OF f2(1) this ns, of "map enc bs"] have arr: "arriving ep p2 p' = map enc bs"
    by (simp add: p')
  have "outgoing p2 p'"
    by (simp add: p' send_datagrams_def outgoing_refl split: option.split)
  then have more: "outgoing p p'" using f2(3) by (simp add: outgoing_def)
  obtain xs where p'2: "p' = p2\<lparr>sent := xs\<rparr>" using send_datagrams_only [of "map enc bs" ns p2] by (auto simp: p')
  have find: "List.find (\<lambda>k. sk_id k = ch) (sinks a') = Some k'"
    using find_stored [OF a(2), of k'] s(1) k0(1) by (simp add: a'_def same_sink_def k1_def)
  show thesis
  proof (rule that [of k' bs])
    show "arriving ep p p' = map (\<lambda>b. encode_audio (new_audio_frame (node p) (AudioBuffer b))) bs"
      using arr f2(3) by (simp add: enc_def arriving_def)
    show "outgoing p p'" by (rule more)
    show "publishes p' ch rate nc n ep d k'"
      using k(1,2) find live' df(1) s k0(5) a(3) f2(2,4,5,6)
      by (simp add: publishes_def p'2 p2_def p1 reaches_def same_sink_def k1_def)
    show "sink_datagrams p ch rate nc bs"
      using drained_identity [OF dr(1)] dr(2) by (simp add: sink_datagrams_def drained_def)
    show "moved nc k samples bs k'"
      using dr(2) fa(2) k0(4) by (simp add: moved_def drained_def k1_def)
    show "begins (starts k (wire_begin b delta)) bs k'"
      using df(2,3) fa(3,4) by (simp add: begins_def starts_def k1_def w_def)
    show "settled ?fill nc k'" using dr(3) by (auto simp: settled_def)
  qed (simp_all add: p'2 p2_def p1)
qed

section \<open>A sequence of writes\<close>

definition write_all :: "channel_id \<Rightarrow> u32 \<Rightarrow> u8 \<Rightarrow> f64 \<Rightarrow> (i16 list \<times> f64) list \<Rightarrow> engine \<Rightarrow> engine" where
  "write_all ch rate nc q = fold (\<lambda>(samples, b). write_channel ch samples rate nc b q)"

definition whole_writes :: "u8 \<Rightarrow> (i16 list \<times> f64) list \<Rightarrow> bool" where
  "whole_writes nc ws \<longleftrightarrow> (\<forall>(samples, b) \<in> set ws. samples \<noteq> [] \<and> channel_count nc dvd length samples)"

definition written :: "(i16 list \<times> f64) list \<Rightarrow> i16 list" where
  "written ws = concat (map fst ws)"

lemma moved_trans: "moved nc k xs bs k1 \<Longrightarrow> moved nc k1 ys cs k' \<Longrightarrow> moved nc k (xs @ ys) (bs @ cs) k'"
  unfolding moved_def by (auto simp: numbered_from_append)

lemma begins_trans: "begins b bs k1 \<Longrightarrow> begins (starts k1 b') cs k' \<Longrightarrow> begins b (bs @ cs) k'"
  by (auto simp: begins_def starts_def split: if_splits)

lemma write_steps:
  assumes "publishes p ch rate nc n ep d k" and "0 < uint rate" and "whole_writes nc ws"
    and "\<forall>i < length ws. env_clock (env p) (clock_reads p + i) <s d"
    and "session_offset (timeline p) (quantum_micro_beats q) = Some delta"
  shows "\<exists>k' bs. publishes (write_all ch rate nc q ws p) ch rate nc n ep d k' \<and>
    arriving ep p (write_all ch rate nc q ws p) = map (\<lambda>b. encode_audio (new_audio_frame (node p) (AudioBuffer b))) bs \<and>
    outgoing p (write_all ch rate nc q ws p) \<and> sink_datagrams p ch rate nc bs \<and> moved nc k (written ws) bs k' \<and>
    (if ws = [] then bs = [] \<and> k' = k
     else begins (starts k (wire_begin (snd (hd ws)) delta)) bs k' \<and> settled (fill_audio_datagrams (config p)) nc k')"
  using assms
proof (induction ws arbitrary: p k)
  case Nil
  then show ?case
    by (intro exI [of _ k] exI [of _ "[]"]) (simp add: write_all_def sink_datagrams_def moved_def written_def)
next
  case (Cons w ws)
  obtain xs b where w: "w = (xs, b)" by (cases w)
  have x: "xs \<noteq> []" "channel_count nc dvd length xs" "whole_writes nc ws"
    using Cons.prems(3) by (simp_all add: whole_writes_def w)
  have t: "fst (now p) <s d" using Cons.prems(4) by (auto simp: now_def dest: spec [of _ 0])
  let ?p = "write_channel ch xs rate nc b q p"
  obtain k1 bs1 where 1: "publishes ?p ch rate nc n ep d k1" "env ?p = env p" "clock_reads ?p = Suc (clock_reads p)"
    "outgoing p ?p" "node ?p = node p \<and> session ?p = session p \<and> timeline ?p = timeline p \<and> config ?p = config p"
    "arriving ep p ?p = map (\<lambda>b. encode_audio (new_audio_frame (node p) (AudioBuffer b))) bs1"
    "sink_datagrams p ch rate nc bs1" "moved nc k xs bs1 k1" "begins (starts k (wire_begin b delta)) bs1 k1"
    "settled (fill_audio_datagrams (config p)) nc k1"
    by (rule write_step [OF Cons.prems(1,2) x(1,2) t Cons.prems(5) refl])
  have clock: "\<forall>i < length ws. env_clock (env ?p) (clock_reads ?p + i) <s d" using Cons.prems(4) 1(2,3) by auto
  have off: "session_offset (timeline ?p) (quantum_micro_beats q) = Some delta" using Cons.prems(5) 1(5) by simp
  obtain k' bs where 2: "publishes (write_all ch rate nc q ws ?p) ch rate nc n ep d k'"
    "arriving ep ?p (write_all ch rate nc q ws ?p) = map (\<lambda>b. encode_audio (new_audio_frame (node ?p) (AudioBuffer b))) bs"
    "outgoing ?p (write_all ch rate nc q ws ?p)" "sink_datagrams ?p ch rate nc bs" "moved nc k1 (written ws) bs k'"
    "if ws = [] then bs = [] \<and> k' = k1
     else begins (starts k1 (wire_begin (snd (hd ws)) delta)) bs k' \<and> settled (fill_audio_datagrams (config ?p)) nc k'"
    using Cons.IH [OF 1(1) Cons.prems(2) x(3) clock off] by blast
  have all: "write_all ch rate nc q (w # ws) p = write_all ch rate nc q ws ?p" by (simp add: write_all_def w)
  have "sink_datagrams p ch rate nc (bs1 @ bs)" using 1(5,7) 2(4) by (auto simp: sink_datagrams_def)
  moreover have "moved nc k (written (w # ws)) (bs1 @ bs) k'" using moved_trans [OF 1(8) 2(5)] by (simp add: written_def w)
  moreover have "begins (starts k (wire_begin b delta)) (bs1 @ bs) k'"
    using 1(9) 2(6) begins_trans [OF 1(9)] by (auto split: if_splits)
  moreover have "settled (fill_audio_datagrams (config p)) nc k'" using 1(5,10) 2(6) by (auto split: if_splits)
  moreover have "arriving ep p (write_all ch rate nc q ws ?p) =
      map (\<lambda>b. encode_audio (new_audio_frame (node p) (AudioBuffer b))) (bs1 @ bs)"
    using arriving_trans [OF 1(4) 2(3), of ep] 1(5,6) 2(2) by simp
  ultimately show ?case
    using 2(1,3) 1(4) unfolding all
    by (intro exI [of _ k'] exI [of _ "bs1 @ bs"]) (auto simp: w intro: outgoing_trans)
qed

section \<open>What stays\<close>

lemma plan_segments_all:
  "plan_segments fill nc left sgs = (ts, l, False) \<Longrightarrow> sum_list ts = sum_list (frame_counts nc sgs)"
proof (induction sgs arbitrary: left ts)
  case (Cons sg sgs)
  let ?f = "length (sg_samples sg) div channel_count nc"
  obtain ts1 l1 x1 where 1: "plan_segment fill nc left ?f = (ts1, l1, x1)" by (metis prod_cases3)
  obtain ts2 l2 x2 where 2: "plan_segments fill nc l1 sgs = (ts2, l2, x2)" by (metis prod_cases3)
  from Cons.prems 1 2 have e: "\<not> x1" "ts = ts1 @ ts2" "\<not> x2" "l2 = l" by (auto split: if_splits)
  then have "sum_list ts2 = sum_list (frame_counts nc sgs)" using Cons.IH [of l1 ts2] 2 by simp
  with plan_segment_spec [OF 1] e show ?case by simp
qed simp

lemma length_whole_frames: "length (whole_frames nc sgs) = sum_list (frame_counts nc sgs) * channel_count nc"
  by (induction sgs) (simp_all add: add_mult_distrib)

text \<open>When a frame fits a datagram, less than a datagram stays pending.\<close>

lemma drained_rest:
  assumes "settled fill nc k"
    and "record_cost fill + frame_bytes nc \<le> datagram_budget fill"
  shows "2 * length (whole_frames nc (segments k)) \<le> datagram_budget fill"
proof -
  obtain ts l x where p: "plan_segments fill nc (datagram_budget fill) (segments k) = (ts, l, x)"
    by (metis prod_cases3)
  note ps = plan_segments_spec [OF p]
  have "ts = [] \<or> (\<not> x \<and> record_cost fill + frame_bytes nc \<le> l)"
    using drain_emits [OF p] assms(1) unfolding settled_def by (metis not_less)
  then have "\<not> x" using ps assms(2) by (auto simp: plan_cost_def)
  then have "sum_list (frame_counts nc (segments k)) * frame_bytes nc \<le> plan_cost fill nc ts"
    using plan_segments_all [of fill nc "datagram_budget fill" "segments k" ts l] p by (simp add: plan_cost_def)
  also have "\<dots> \<le> datagram_budget fill" using ps by linarith
  finally show ?thesis by (simp add: length_whole_frames frame_bytes_def mult_ac)
qed

section \<open>Beats\<close>

lemma round53_close:
  assumes "0 \<le> x" and "x \<le> 2 ^ n"
  shows "\<bar>round53 x - x\<bar> \<le> 2 ^ n / 2 ^ 53"
proof (cases "(2 :: rat) ^ n / 2 ^ 53 \<le> x")
  case True
  have "(2 :: rat) powi (- 1000) \<le> 1 / 2 ^ 53" by (simp add: power_int_minus field_simps)
  also have "\<dots> \<le> 2 ^ n / 2 ^ 53" by (simp add: divide_right_mono)
  finally have "\<bar>round53 x - x\<bar> \<le> x / 2 ^ 53" using True by (intro round53_relative_error) simp
  also have "\<dots> \<le> 2 ^ n / 2 ^ 53" using assms(2) by (simp add: divide_right_mono)
  finally show ?thesis .
next
  case False
  have "representable (2 ^ n / 2 ^ 53)"
    unfolding representable_def
    by (rule exI [of _ 1], rule exI [of _ "int n - 53"]) (simp add: power_int_diff)
  then have "round53 x \<le> 2 ^ n / 2 ^ 53" using round53_mono [of x "2 ^ n / 2 ^ 53"] False round53_representable by simp
  with round53_nonneg [OF assms(1)] assms(1) False show ?thesis by linarith
qed

lemma rnd_close:
  assumes "\<bar>x\<bar> \<le> 2 ^ n" and "n \<le> 90"
  obtains r where "rnd x = Fin r" and "\<bar>r - x\<bar> \<le> 2 ^ n / 2 ^ 53"
proof -
  have e: "\<bar>round53 x - x\<bar> \<le> 2 ^ n / 2 ^ 53"
  proof (cases "0 \<le> x")
    case False
    then have "\<bar>round53 (- x) - - x\<bar> \<le> 2 ^ n / 2 ^ 53" using assms(1) by (intro round53_close) simp_all
    then show ?thesis by (simp add: round53_minus abs_minus_commute)
  qed (use assms(1) round53_close in simp)
  have "(2 :: rat) ^ n / 2 ^ 53 \<le> 2 ^ n" by (simp add: field_simps)
  then have "\<bar>round53 x\<bar> \<le> 2 ^ n + 2 ^ n" using e assms(1) by linarith
  also have "\<dots> = 2 ^ Suc n" by simp
  also have "\<dots> \<le> 2 ^ 91" using assms(2) by (intro power_increasing) simp_all
  also have "\<dots> < f64_limit" using f64_limit_big by simp
  finally have "rnd x = Fin (round53 x)" by (auto simp: rnd_def Let_def)
  with e show thesis using that by blast
qed

text \<open>An application beat that goes over the wire comes back within two micro-beats.\<close>

lemma beat_over_wire:
  assumes "\<bar>x\<bar> \<le> 2 ^ 30"
  obtains y where "f64_div (f64_of_int (sint (wire_begin (Fin x) 0))) (Fin 1000000) = Fin y" and "\<bar>y - x\<bar> \<le> 2 / 1000000"
proof -
  have m: "\<bar>x * 1000000\<bar> \<le> 2 ^ 30 * 1000000" using assms by (simp add: abs_mult)
  have "(2 :: rat) ^ 30 * 1000000 \<le> 2 ^ 50" by simp
  with m have m50: "\<bar>x * 1000000\<bar> \<le> 2 ^ 50" by (rule order_trans)
  obtain r where r: "rnd (x * 1000000) = Fin r" "\<bar>r - x * 1000000\<bar> \<le> 2 ^ 50 / 2 ^ 53" by (rule rnd_close [OF m50]) simp
  then have rx: "\<bar>r - x * 1000000\<bar> \<le> 1 / 8" by simp
  define n where "n = round_half_away r"
  have nr: "\<bar>of_int n - r\<bar> \<le> 1 / 2"
  proof (cases "0 \<le> r")
    case True
    then have "n = \<lfloor>r + 1 / 2\<rfloor>" by (simp add: n_def round_half_away_def)
    then show ?thesis by linarith
  next
    case False
    then have "n = - \<lfloor>- r + 1 / 2\<rfloor>" by (simp add: n_def round_half_away_def)
    then show ?thesis by linarith
  qed
  have nx: "\<bar>of_int n - x * 1000000\<bar> \<le> 5 / 8" using rx nr by linarith
  have "\<bar>of_int n :: rat\<bar> \<le> 2 ^ 30 * 1000000 + 5 / 8" using nx m by linarith
  also have "\<dots> \<le> 2 ^ 50" by simp
  finally have "\<bar>of_int n :: rat\<bar> \<le> 2 ^ 50" .
  then have n: "\<bar>n\<bar> \<le> 2 ^ 50" by (simp flip: of_int_abs)
  then have w: "sint (wire_begin (Fin x) 0) = n"
    by (simp add: wire_begin_def r(1) n_def [symmetric] sint_of_int_i64)
  have d: "\<bar>of_int n / 1000000 - x\<bar> \<le> 5 / 8 / 1000000"
  proof -
    have "of_int n / 1000000 - x = (of_int n - x * 1000000) / 1000000" by (simp add: diff_divide_distrib)
    then have "\<bar>of_int n / 1000000 - x\<bar> = \<bar>of_int n - x * 1000000\<bar> / 1000000"
      by (simp only: abs_divide abs_numeral)
    with nx show ?thesis by simp
  qed
  have "\<bar>of_int n / 1000000 :: rat\<bar> \<le> 2 ^ 30 + 5 / 8 / 1000000" using d assms by linarith
  also have "\<dots> \<le> 2 ^ 31" by simp
  finally have q: "\<bar>of_int n / 1000000 :: rat\<bar> \<le> 2 ^ 31" .
  obtain y where y: "rnd (of_int n / 1000000) = Fin y" "\<bar>y - of_int n / 1000000\<bar> \<le> 2 ^ 31 / 2 ^ 53" by (rule rnd_close [OF q]) simp
  have "\<bar>y - of_int n / 1000000\<bar> \<le> 1 / 1000000" using y(2) by (rule order_trans) simp
  with d have "\<bar>y - x\<bar> \<le> 2 / 1000000" by linarith
  moreover have "f64_div (f64_of_int n) (Fin 1000000) = Fin y" using y(1) n f64_of_int_exact [of n] by simp
  ultimately show thesis using that w by simp
qed

section \<open>What the subscriber polls\<close>

text \<open>The receiver of a gateway's audio endpoint, turn by turn: it takes 2048 bytes of a datagram, and hands them to the
  peer while the gateway is open.\<close>

definition hear_audio :: "nat \<Rightarrow> u64 \<Rightarrow> socket_addr \<Rightarrow> bytes list \<Rightarrow> engine \<Rightarrow> engine" where
  "hear_audio gw epc src = fold (\<lambda>bs e. snd (receiver_turn gw epc Audio (Datagram src bs) e))"

lemma gateway_live_audio [simp]: "gateway_live gw epc (handle_audio_datagram g src bs e) = gateway_live gw epc e"
proof -
  have "enabled (handle_audio_datagram g src bs e) = enabled e" "epoch (handle_audio_datagram g src bs e) = epoch e"
    "gateways (handle_audio_datagram g src bs e) = gateways e"
    by (rule sans_audio_fields; simp add: frame_simps)+
  then show ?thesis by (simp add: gateway_live_def)
qed

lemma hear_audio_whole:
  "gateway_live gw epc e \<Longrightarrow> \<forall>bs \<in> set ds. length bs \<le> 2048 \<Longrightarrow>
    hear_audio gw epc src ds e = fold (handle_audio_datagram gw src) ds e"
  unfolding hear_audio_def by (induction ds arbitrary: e) (simp_all add: receiver_turn_def dispatch_def)

lemma hear_audio_all:
  "gateway_live gw epc e \<Longrightarrow> \<forall>b \<in> set bs. length (encode_audio (new_audio_frame n (AudioBuffer b))) \<le> 2048 \<Longrightarrow>
    hear_audio gw epc src (map (\<lambda>b. encode_audio (new_audio_frame n (AudioBuffer b))) bs) e = hear_all n gw src bs e"
  by (simp add: hear_audio_whole) (simp add: hear_all_def fold_map comp_def)

text \<open>A datagram of fill sizing always fits.\<close>

lemma fill_fits: "datagram_of True nc b \<Longrightarrow> length (encode_audio (new_audio_frame n (AudioBuffer b))) \<le> 2048"
  using datagram_facts(4) [of True nc b] by (simp add: length_audio_buffer_datagram sink_sizes)

lemma first_beat:
  assumes "begins (wire_begin b delta) bs k'" and "us = concat (map (\<lambda>b. units_of b delta) bs)"
    and "map rc_begin_app_beat us = map (\<lambda>c. f64_div (f64_of_int (sint (c_begin_beats c + delta))) (Fin 1000000))
      (concat (map ab_chunks bs))" and "us \<noteq> []"
  shows "rc_begin_app_beat (hd us) = f64_div (f64_of_int (sint (wire_begin b 0))) (Fin 1000000)"
proof -
  let ?cs = "concat (map ab_chunks bs)"
  have ne: "bs \<noteq> []" using assms(2,4) by auto
  then have c: "ab_chunks (hd bs) \<noteq> []" "c_begin_beats (hd (ab_chunks (hd bs))) = wire_begin b delta"
    using assms(1) by (simp_all add: begins_def)
  then have "?cs \<noteq> []" "hd ?cs = hd (ab_chunks (hd bs))" using ne by (cases bs; simp)+
  moreover have "rc_begin_app_beat (hd us) = hd (map rc_begin_app_beat us)" using assms(4) by (simp add: hd_map)
  ultimately show ?thesis unfolding assms(3) using c(2) by (simp add: hd_map wire_begin_def)
qed

text \<open>C2: What one application writes, the other one polls. The publisher's sink has nothing pending, and a peer of
  the same session and timeline requests the channel, by a request that has not expired at any of the writes;
  the publisher reaches it on one endpoint, where it sends to no other. It writes whole frames to the channel, in any number of writes,
  at a rate and with a number of channels that are not 0, and one frame fits a datagram. The subscriber's gateway
  is open, its subscription has the quantum of the writes and an empty inbox, and expects the next chunk or has
  heard none. The sizing is the filling one, or else no datagram is larger than the 2048 bytes that a receiver
  takes. When the receiver is given all the datagrams that are sent to its endpoint, in order, then
  the application there polls exactly the written samples, but for a rest of less than a datagram that waits
  at the publisher for more; of more than 256 chunks that come in before it polls, only the newest 256. The chunks
  are numbered consecutively, in the format of the writes, none counts as lost, and the first one starts at the
  beat of the first write to within two micro-beats, in the beats of the subscriber (for beats below \<open>2 ^ 30\<close>).\<close>

theorem broadcast_heard:
  assumes "publishes p ch rate nc (node s) ep d k" and "segments k = []"
    and "0 < uint rate" and "nc \<noteq> 0"
    and "record_cost (fill_audio_datagrams (config p)) + frame_bytes nc \<le> datagram_budget (fill_audio_datagrams (config p))"
    and "ws \<noteq> []" and "whole_writes nc ws" and "\<forall>i < length ws. env_clock (env p) (clock_reads p + i) <s d"
    and "p' = write_all ch rate nc q ws p"
    and "enabled s" and "node s \<noteq> node p" and "session s = session p" and "timeline s = timeline p"
    and "audio s = Some a" and "map_of (sources a) ch = Some r" and "inbox r = []"
    and "so_quantum r = quantum_micro_beats q"
    and "next_seq_expected r = None \<or> next_seq_expected r = Some (next_seq k)"
    and "gateway_live gw epc s"
    and "\<And>bs. \<not> fill_audio_datagrams (config p) \<Longrightarrow> bs \<in> set (arriving ep p p') \<Longrightarrow> length bs \<le> 2048"
    and "s' = hear_audio gw epc src (arriving ep p p') s"
  shows "\<exists>us rest. fst (poll_channel ch s') = newest us \<and> concat (map rc_samples us) @ rest = written ws \<and>
    2 * length rest \<le> datagram_budget (fill_audio_datagrams (config p)) \<and>
    map rc_seq us = map (\<lambda>i. next_seq k + word_of_nat i) [0..<length us] \<and>
    list_all (\<lambda>u. rc_sample_rate u = rate \<and> rc_channels u = nc) us \<and>
    channel_lost_chunks ch s' = channel_lost_chunks ch s \<and>
    (\<forall>x. us \<noteq> [] \<longrightarrow> snd (hd ws) = Fin x \<longrightarrow> \<bar>x\<bar> \<le> 2 ^ 30 \<longrightarrow>
      (\<exists>y. rc_begin_app_beat (hd us) = Fin y \<and> \<bar>y - x\<bar> \<le> 2 / 1000000))"
proof -
  have l: "legal_tempo (tempo (timeline p))" using assms(1) by (simp add: publishes_def)
  obtain delta where delta: "session_offset (timeline p) (quantum_micro_beats q) = Some delta"
    using session_offset_Some [OF l] by blast
  obtain k' bs where w: "arriving ep p p' = map (\<lambda>b. encode_audio (new_audio_frame (node p) (AudioBuffer b))) bs"
    "sink_datagrams p ch rate nc bs" "moved nc k (written ws) bs k'" "begins (wire_begin (snd (hd ws)) delta) bs k'"
    "settled (fill_audio_datagrams (config p)) nc k'"
    using write_steps [OF assms(1,3,7,8) delta] assms(2,6) by (auto simp: assms(9) starts_def)
  define us where "us = concat (map (\<lambda>b. units_of b delta) bs)"
  define cs where "cs = concat (map ab_chunks bs)"
  have bs: "\<forall>b \<in> set bs. datagram_of (fill_audio_datagrams (config p)) nc b \<and> ab_num_channels b = nc \<and> ab_sample_rate b = rate"
    "\<forall>b \<in> set bs. ab_channel b = ch \<and> ab_session b = session s \<and> datagram_of (fill_audio_datagrams (config p)) nc b"
    using w(2) assms(12) by (simp_all add: sink_datagrams_def)
  note u = stream_units [OF bs(1) assms(4) us_def cs_def]
  have len: "length us = length cs" using u(2) by (metis length_map)
  have l': "legal_tempo (tempo (timeline s))" "session_offset (timeline s) (so_quantum r) = Some delta"
    using l delta assms(13,17) by simp_all
  have fit: "length (encode_audio (new_audio_frame (node p) (AudioBuffer b))) \<le> 2048" if "b \<in> set bs" for b
  proof (cases "fill_audio_datagrams (config p)")
    case True
    then show ?thesis using bs(1) that by (auto intro: fill_fits)
  next
    case False
    then show ?thesis using assms(20) that by (simp add: w(1))
  qed
  obtain a' r' where h: "audio s' = Some a'" "map_of (sources a') ch = Some r'" "inbox r' = newest us"
    "lost_chunks r' = lost_chunks (expect_all (map c_seq cs) r)"
    using hear_all_delivered [OF assms(10,14,15,11) l'(1) bs(2) assms(4) l'(2) _ us_def, of gw src] assms(16)
    by (auto simp: assms(21) w(1) hear_audio_all [OF assms(19)] fit cs_def)
  have seq: "map c_seq cs = map (\<lambda>i. next_seq k + word_of_nat i) [0..<length cs]"
    using w(3) by (simp add: moved_def numbered_from_def cs_def)
  have lost: "lost_chunks r' = lost_chunks r" unfolding h(4) seq using nothing_lost [OF assms(18)] by blast
  note beat = first_beat [OF w(4) us_def u(4) [unfolded cs_def]]
  show ?thesis
  proof (intro exI conjI)
    show "fst (poll_channel ch s') = newest us" by (simp add: poll_channel_def h)
    show "concat (map rc_samples us) @ whole_frames nc (segments k') = written ws"
      using w(3) u(1) assms(2) by (simp add: moved_def)
    show "2 * length (whole_frames nc (segments k')) \<le> datagram_budget (fill_audio_datagrams (config p))"
      by (rule drained_rest [OF w(5) assms(5)])
    show "map rc_seq us = map (\<lambda>i. next_seq k + word_of_nat i) [0..<length us]" using u(2) seq len by simp
    show "list_all (\<lambda>u. rc_sample_rate u = rate \<and> rc_channels u = nc) us" using u(3) by (simp add: list_all_iff)
    show "channel_lost_chunks ch s' = channel_lost_chunks ch s"
      by (simp add: channel_lost_chunks_def h(1,2) assms(14,15) lost)
    show "\<forall>x. us \<noteq> [] \<longrightarrow> snd (hd ws) = Fin x \<longrightarrow> \<bar>x\<bar> \<le> 2 ^ 30 \<longrightarrow>
      (\<exists>y. rc_begin_app_beat (hd us) = Fin y \<and> \<bar>y - x\<bar> \<le> 2 / 1000000)"
      using beat beat_over_wire by metis
  qed
qed

definition example_broadcaster :: engine where
  "example_broadcaster = (example_member (Id 3))\<lparr>
     peers := [((Id 2, 0), \<lparr>pe_state = \<lparr>ps_timeline = None, ps_session = Some (Id 1), ps_start_stop = None,
       ps_measurement_endpoint = None, ps_audio_endpoint = Some (V4 9 8)\<rparr>, pe_deadline = 9000000\<rparr>)],
     config := example_config\<lparr>fill_audio_datagrams := True\<rparr>,
     audio := Some ((new_audio_state [])\<lparr>sinks := [example_sink\<lparr>segments := []\<rparr>]\<rparr>)\<rparr>"

definition example_listener :: engine where
  "example_listener = (example_member (Id 2))\<lparr>audio := Some ((new_audio_state [])\<lparr>sources :=
     [(Id 1, example_source\<lparr>so_quantum := quantum_micro_beats (Fin 4)\<rparr>)]\<rparr>)\<rparr>"

abbreviation example_writes :: "(i16 list \<times> f64) list" where
  "example_writes \<equiv> [(replicate 700 7, Fin 8), (replicate 500 5, Fin 9)]"

lemma broadcast_heard_witness:
  "\<exists>us rest y. fst (poll_channel (Id 1) (hear_audio 0 0 (V4 9 9) (arriving (V4 9 8) example_broadcaster
      (write_all (Id 1) 48000 1 (Fin 4) example_writes example_broadcaster)) example_listener)) = newest us \<and>
    concat (map rc_samples us) @ rest = replicate 700 7 @ replicate 500 5 \<and> length rest \<le> 574 \<and>
    rc_begin_app_beat (hd us) = Fin y \<and> \<bar>y - 8\<bar> \<le> 2 / 1000000"
proof -
  let ?k = "example_sink\<lparr>segments := []\<rparr>" and ?r = "example_source\<lparr>so_quantum := quantum_micro_beats (Fin 4)\<rparr>"
  have b: "env example_broadcaster = example_env" "timeline example_broadcaster = tempo_at 500000 0"
    "session example_broadcaster = Id 1" "node example_broadcaster = Id 3" "clock_reads example_broadcaster = 0"
    "gateways example_broadcaster = [(0, example_gateway)]" "fill_audio_datagrams (config example_broadcaster)"
    "audio example_broadcaster = Some ((new_audio_state [])\<lparr>sinks := [?k]\<rparr>)"
    by (simp_all add: example_broadcaster_def example_member_def example_peer_def new_engine_def Let_def)
  have l: "enabled example_listener" "node example_listener = Id 2" "session example_listener = Id 1"
    "timeline example_listener = tempo_at 500000 0" "gateway_live 0 0 example_listener"
    "audio example_listener = Some ((new_audio_state [])\<lparr>sources := [(Id 1, ?r)]\<rparr>)"
    by (simp_all add: example_listener_def gateway_live_def) (simp add: example_member_def example_peer_def new_engine_def Let_def)
  have path: "best_path (iter_peers example_env (peers example_broadcaster)) [] m = (if m = Id 2 then Some (0, V4 9 8) else None)" for m
    by (simp add: best_path_def example_env_def example_broadcaster_def max_by_def)
  have "publishes example_broadcaster (Id 1) 48000 1 (node example_listener) (V4 9 8) 9000000 ?k"
    using path by (auto simp: publishes_def b l(2) reaches_def new_audio_state_def example_sink_def tempo_at_def legal_tempo_def
        positive_tempos_def)
  moreover have "map_of (sources ((new_audio_state [])\<lparr>sources := [(Id 1, ?r)]\<rparr>)) (Id 1) = Some ?r" by simp
  moreover have "whole_writes 1 example_writes" by (simp add: whole_writes_def channel_count_def)
  moreover have "\<forall>i < length example_writes. env_clock (env example_broadcaster) (clock_reads example_broadcaster + i) <s 9000000"
    by (auto simp: b example_env_def word_sless_alt less_Suc_eq)
  moreover have fits: "record_cost True + frame_bytes 1 \<le> datagram_budget True" "datagram_budget True = 1148"
    by (simp_all add: sink_sizes frame_bytes_def channel_count_def)
  ultimately obtain us rest where
    "fst (poll_channel (Id 1) (hear_audio 0 0 (V4 9 9) (arriving (V4 9 8) example_broadcaster
      (write_all (Id 1) 48000 1 (Fin 4) example_writes example_broadcaster)) example_listener)) = newest us"
    "concat (map rc_samples us) @ rest = written example_writes" "2 * length rest \<le> 1148"
    "\<forall>x. us \<noteq> [] \<longrightarrow> Fin 8 = Fin x \<longrightarrow> \<bar>x\<bar> \<le> 2 ^ 30 \<longrightarrow> (\<exists>y. rc_begin_app_beat (hd us) = Fin y \<and> \<bar>y - x\<bar> \<le> 2 / 1000000)"
    using broadcast_heard [of example_broadcaster "Id 1" 48000 1 example_listener "V4 9 8" 9000000 ?k example_writes _ "Fin 4"
        _ ?r 0 0 _ "V4 9 9", OF _ _ _ _ _ _ _ _ refl l(1) _ _ _ l(6) _ _ _ _ l(5) _ refl]
    by (auto simp: b l(2-4) example_source_def)
  moreover from this have "us \<noteq> []"
  proof -
    have "length rest \<noteq> 1200" using calculation(3) by simp
    then show ?thesis using calculation(2) by (auto simp: written_def)
  qed
  ultimately show ?thesis by (fastforce simp: written_def)
qed

section \<open>Frames that fit no datagram\<close>

text \<open>The default sizing has room for 502 bytes of samples: a frame of 252 channels or more never fits. Such material is
  accepted, never sent and kept, all of it, for as long as somebody requests the channel.\<close>

lemma wide_frames_pile_up:
  assumes "publishes p ch rate nc n ep d k" and "0 < uint rate" and "whole_writes nc ws"
    and "\<not> fill_audio_datagrams (config p)" and "252 \<le> nc"
    and "\<forall>i < length ws. env_clock (env p) (clock_reads p + i) <s d"
  shows "\<exists>k'. publishes (write_all ch rate nc q ws p) ch rate nc n ep d k' \<and> arriving ep p (write_all ch rate nc q ws p) = [] \<and>
    whole_frames nc (segments k') = whole_frames nc (segments k) @ written ws"
proof -
  have l: "legal_tempo (tempo (timeline p))" using assms(1) by (simp add: publishes_def)
  obtain delta where "session_offset (timeline p) (quantum_micro_beats q) = Some delta"
    using session_offset_Some [OF l] by blast
  from write_steps [OF assms(1-3,6) this] obtain k' bs where w: "publishes (write_all ch rate nc q ws p) ch rate nc n ep d k'"
    "arriving ep p (write_all ch rate nc q ws p) = map (\<lambda>b. encode_audio (new_audio_frame (node p) (AudioBuffer b))) bs"
    "sink_datagrams p ch rate nc bs" "moved nc k (written ws) bs k'" by blast
  have wide: "502 < frame_bytes nc"
    using assms(5) by (simp add: frame_bytes_def channel_count_def word_le_nat_alt)
  have "\<not> datagram_of False nc b" for b
  proof
    assume "datagram_of False nc b"
    then obtain ns where "planned_datagram False nc ns" by (auto simp: datagram_of_def)
    then obtain m ms where "ns = m # ms" "0 < m" "plan_cost False nc ns \<le> 502"
      by (cases ns) (auto simp: planned_datagram_def sink_sizes)
    with wide show False by (simp add: sink_sizes) (metis One_nat_def add_leD1 leD le_trans mult_le_mono1 nat_mult_1 Suc_leI)
  qed
  moreover have "fill_audio_datagrams (config p) = False" using assms(4) by simp
  ultimately have "b \<notin> set bs" for b using w(3) by (auto simp: sink_datagrams_def)
  then have "bs = []" by (meson list.set_sel(1))
  with w show ?thesis by (auto simp: moved_def)
qed

end
