(* ===== verification/Enumeration.thy ===== *)
theory Enumeration
  imports Iface
begin

text \<open>
  The host's interface list, the two \<open>sys::interfaces\<close> of \<^verbatim>\<open>crates/tactus/src/iface.rs\<close>: the walk over
  the nodes of \<open>getifaddrs\<close> on unix, and on Windows the calls of \<open>GetAdaptersAddresses\<close> with a buffer
  that grows, then the walk over adapters and their addresses. What the operating system returns is an
  argument: a linked list is the list of its nodes, a null pointer is \<open>None\<close>, and the platform's
  constants are a record.
\<close>

unbundle bit_operations_syntax

section \<open>Unix\<close>

text \<open>A socket address has a family and, where the family is \<open>AF_INET\<close>, the four octets of
  \<open>sin_addr.s_addr\<close> as they lie in memory; \<open>u32::from_be\<close> of the number read there is their
  big-endian value on every host.\<close>

record sockaddr =
  sa_family :: u32
  sin_addr :: bytes

record ifaddrs =
  ifa_addr :: "sockaddr option"
  ifa_flags :: u32

record libc =
  AF_INET :: u32
  IFF_UP :: u32
  IFF_RUNNING :: u32
  IFF_LOOPBACK :: u32
  IFF_MULTICAST :: u32
  IFF_POINTOPOINT :: u32

definition has_flag :: "ifaddrs \<Rightarrow> u32 \<Rightarrow> bool" where
  "has_flag ifa f \<longleftrightarrow> ifa_flags ifa AND f \<noteq> 0"

definition unix_interface :: "libc \<Rightarrow> ifaddrs \<Rightarrow> sockaddr \<Rightarrow> interface" where
  "unix_interface c ifa sa =
     \<lparr>if_addr = from_be (sin_addr sa),
      if_up = (has_flag ifa (IFF_UP c) \<and> has_flag ifa (IFF_RUNNING c)),
      if_loopback = has_flag ifa (IFF_LOOPBACK c),
      if_multicast = has_flag ifa (IFF_MULTICAST c),
      if_point_to_point = has_flag ifa (IFF_POINTOPOINT c)\<rparr>"

fun unix_walk :: "libc \<Rightarrow> ifaddrs list \<Rightarrow> interface list" where
  "unix_walk c [] = []"
| "unix_walk c (ifa # cur) = (case ifa_addr ifa of None \<Rightarrow> unix_walk c cur
     | Some sa \<Rightarrow> if sa_family sa \<noteq> AF_INET c then unix_walk c cur
         else unix_interface c ifa sa # unix_walk c cur)"

text \<open>\<open>None\<close> for a \<open>getifaddrs\<close> that fails.\<close>

definition unix_interfaces :: "libc \<Rightarrow> ifaddrs list option \<Rightarrow> interface list option" where
  "unix_interfaces c getifaddrs = (case getifaddrs of None \<Rightarrow> None | Some head \<Rightarrow> Some (unix_walk c head))"

section \<open>Windows\<close>

record adapter =
  adapter_flags :: u32
  oper_status :: u32
  if_type :: u32
  unicast_addresses :: "sockaddr option list"

record win32 =
  WIN_AF_INET :: u32
  NO_ERROR :: u32
  ERROR_BUFFER_OVERFLOW :: u32
  IfOperStatusUp :: u32
  IF_TYPE_SOFTWARE_LOOPBACK :: u32
  IP_ADAPTER_NO_MULTICAST :: u32
  IF_TYPE_PPP :: u32
  IF_TYPE_TUNNEL :: u32

text \<open>\<open>get n size\<close> is the outcome of the call after \<open>n\<close> failed attempts with a buffer of \<open>size\<close> bytes: the
  return code, the value the call leaves in \<open>size\<close>, and the adapters it wrote.\<close>

type_synonym get_adapters = "nat \<Rightarrow> u32 \<Rightarrow> u32 \<times> u32 \<times> adapter list"

function windows_fetch :: "win32 \<Rightarrow> get_adapters \<Rightarrow> nat \<Rightarrow> u32 \<Rightarrow> u32 + adapter list" where
  "windows_fetch c get attempts sz = (let (rc, sz, adapters) = get attempts sz in
     if rc = NO_ERROR c then Inr adapters
     else if rc = ERROR_BUFFER_OVERFLOW c \<and> attempts < 3 then windows_fetch c get (attempts + 1) sz
     else Inl rc)"
  by pat_completeness auto

termination
  by (relation "measure (\<lambda>(c, get, attempts, sz). 3 - attempts)") auto

declare windows_fetch.simps [simp del]

definition adapter_interface :: "win32 \<Rightarrow> adapter \<Rightarrow> sockaddr \<Rightarrow> interface" where
  "adapter_interface c a sa =
     \<lparr>if_addr = from_be (sin_addr sa),
      if_up = (oper_status a = IfOperStatusUp c),
      if_loopback = (if_type a = IF_TYPE_SOFTWARE_LOOPBACK c),
      if_multicast = (adapter_flags a AND IP_ADAPTER_NO_MULTICAST c = 0),
      if_point_to_point = (if_type a = IF_TYPE_PPP c \<or> if_type a = IF_TYPE_TUNNEL c)\<rparr>"

fun adapter_walk :: "win32 \<Rightarrow> adapter \<Rightarrow> sockaddr option list \<Rightarrow> interface list" where
  "adapter_walk c a [] = []"
| "adapter_walk c a (None # ua) = adapter_walk c a ua"
| "adapter_walk c a (Some sa # ua) = (if sa_family sa \<noteq> WIN_AF_INET c then adapter_walk c a ua
     else adapter_interface c a sa # adapter_walk c a ua)"

fun windows_walk :: "win32 \<Rightarrow> adapter list \<Rightarrow> interface list" where
  "windows_walk c [] = []"
| "windows_walk c (a # cur) = adapter_walk c a (unicast_addresses a) @ windows_walk c cur"

definition windows_interfaces :: "win32 \<Rightarrow> get_adapters \<Rightarrow> interface list option" where
  "windows_interfaces c get = (case windows_fetch c get 0 (16 * 1024) of
     Inl rc \<Rightarrow> None | Inr adapters \<Rightarrow> Some (windows_walk c adapters))"

text \<open>Other platforms have no enumeration.\<close>

definition other_interfaces :: "interface list option" where
  "other_interfaces = None"

section \<open>What the walks collect\<close>

lemma unix_walk_bex:
  "(\<exists>i \<in> set (unix_walk c nodes). P i) \<longleftrightarrow> (\<exists>ifa \<in> set nodes. \<exists>sa. ifa_addr ifa = Some sa \<and>
     sa_family sa = AF_INET c \<and> P (unix_interface c ifa sa))"
  by (induction c nodes rule: unix_walk.induct) (auto split: option.split)

lemma adapter_walk_set:
  "set (adapter_walk c a ua) =
     adapter_interface c a ` {sa. Some sa \<in> set ua \<and> sa_family sa = WIN_AF_INET c}"
  by (induction c a ua rule: adapter_walk.induct) auto

lemma windows_walk_bex:
  "(\<exists>i \<in> set (windows_walk c nodes). P i) \<longleftrightarrow> (\<exists>a \<in> set nodes. \<exists>sa. Some sa \<in> set (unicast_addresses a) \<and>
     sa_family sa = WIN_AF_INET c \<and> P (adapter_interface c a sa))"
  by (induction c nodes rule: windows_walk.induct) (auto simp: adapter_walk_set)

text \<open>The size of the buffer at each attempt when a call that finds it too small asks for more: 16 KiB, then
  what the call before asked for.\<close>

fun asked_size :: "(nat \<Rightarrow> u32) \<Rightarrow> nat \<Rightarrow> u32" where
  "asked_size need 0 = 16 * 1024"
| "asked_size need (Suc n) = need n"

definition grows :: "win32 \<Rightarrow> (nat \<Rightarrow> u32) \<Rightarrow> (nat \<Rightarrow> adapter list) \<Rightarrow> get_adapters" where
  "grows c need found n sz = (if need n \<le> sz then (NO_ERROR c, sz, found n)
     else (ERROR_BUFFER_OVERFLOW c, need n, []))"

lemma windows_fetch_grows:
  assumes "NO_ERROR c \<noteq> ERROR_BUFFER_OVERFLOW c" and "n \<le> 3"
  shows "windows_fetch c (grows c need found) n (asked_size need n) =
    (case List.find (\<lambda>k. need k \<le> asked_size need k) [n..<4] of
      Some k \<Rightarrow> Inr (found k) | None \<Rightarrow> Inl (ERROR_BUFFER_OVERFLOW c))"
  using assms(2)
proof (induction "3 - n" arbitrary: n)
  case 0
  then have "n = 3" by simp
  then show ?case using assms(1)
    by (subst windows_fetch.simps) (simp add: grows_def upt_rec)
next
  case (Suc d)
  then have n: "n < 3" by simp
  have "windows_fetch c (grows c need found) (n + 1) (need n) =
    (case List.find (\<lambda>k. need k \<le> asked_size need k) [Suc n..<4] of
      Some k \<Rightarrow> Inr (found k) | None \<Rightarrow> Inl (ERROR_BUFFER_OVERFLOW c))"
    using Suc.hyps(1) [of "Suc n"] Suc.hyps(2) n by simp
  moreover have "[n..<4] = n # [Suc n..<4]" using n by (simp add: upt_rec)
  ultimately show ?case using n assms(1)
    by (subst windows_fetch.simps) (simp add: grows_def)
qed

section \<open>Properties\<close>

text \<open>C39: On unix a peer opens exactly \<open>127.0.0.1\<close> and the addresses of the \<open>AF_INET\<close> nodes whose flags say
  up, running and multicast-capable and neither loopback nor point-to-point, where the address is
  neither unspecified nor in \<open>127.0.0.0/8\<close>. Nodes without an address or of another family are skipped,
  and a \<open>getifaddrs\<close> that fails leaves \<open>127.0.0.1\<close>.\<close>

theorem unix_gateways_exact:
  "a \<in> initial (unix_interfaces c getifaddrs) \<longleftrightarrow> a = LOCALHOST \<or>
    (\<exists>nodes. getifaddrs = Some nodes \<and> (\<exists>ifa \<in> set nodes. \<exists>sa. ifa_addr ifa = Some sa \<and>
      sa_family sa = AF_INET c \<and> from_be (sin_addr sa) = a \<and>
      ifa_flags ifa AND IFF_UP c \<noteq> 0 \<and> ifa_flags ifa AND IFF_RUNNING c \<noteq> 0 \<and>
      ifa_flags ifa AND IFF_MULTICAST c \<noteq> 0 \<and> ifa_flags ifa AND IFF_LOOPBACK c = 0 \<and>
      ifa_flags ifa AND IFF_POINTOPOINT c = 0 \<and> drop_bit 24 a \<noteq> 127 \<and> a \<noteq> 0))"
proof (cases getifaddrs)
  case None
  then show ?thesis by (simp add: admission_filter unix_interfaces_def)
next
  case (Some nodes)
  then show ?thesis
    by (simp add: admission_filter unix_interfaces_def unix_walk_bex unix_interface_def has_flag_def) blast
qed

text \<open>C40: On Windows the list is fetched with at most four calls. When a call that finds its buffer too small
  asks for the size it needs, the first of the four whose buffer is large enough provides the adapters,
  and the peer opens \<open>127.0.0.1\<close> and the addresses of the adapters that are up, can multicast and are
  neither loopback, PPP nor tunnels; it opens \<open>127.0.0.1\<close> alone where the list grew before each of them.\<close>

theorem windows_gateways_exact:
  assumes "NO_ERROR c \<noteq> ERROR_BUFFER_OVERFLOW c"
  shows "a \<in> initial (windows_interfaces c (grows c need found)) \<longleftrightarrow> a = LOCALHOST \<or>
    (\<exists>k. List.find (\<lambda>k. need k \<le> asked_size need k) [0, 1, 2, 3] = Some k \<and>
      (\<exists>ad \<in> set (found k). \<exists>sa. Some sa \<in> set (unicast_addresses ad) \<and> sa_family sa = WIN_AF_INET c \<and>
        from_be (sin_addr sa) = a \<and> oper_status ad = IfOperStatusUp c \<and>
        adapter_flags ad AND IP_ADAPTER_NO_MULTICAST c = 0 \<and> if_type ad \<noteq> IF_TYPE_SOFTWARE_LOOPBACK c \<and>
        if_type ad \<noteq> IF_TYPE_PPP c \<and> if_type ad \<noteq> IF_TYPE_TUNNEL c \<and> drop_bit 24 a \<noteq> 127 \<and> a \<noteq> 0))"
proof -
  define k where "k = List.find (\<lambda>k. need k \<le> asked_size need k) [0, 1, 2, 3]"
  have "[0..<4] = [0, 1, 2, 3 :: nat]" by (simp add: upt_rec)
  then have f: "windows_fetch c (grows c need found) 0 (16 * 1024) =
      (case k of Some k \<Rightarrow> Inr (found k) | None \<Rightarrow> Inl (ERROR_BUFFER_OVERFLOW c))"
    using windows_fetch_grows [OF assms, of 0 need found] by (simp only: k_def asked_size.simps)
  show ?thesis
  proof (cases k)
    case None
    then show ?thesis using f unfolding k_def [symmetric]
      by (simp add: admission_filter windows_interfaces_def)
  next
    case (Some j)
    then show ?thesis using f unfolding k_def [symmetric]
      by (simp add: admission_filter windows_interfaces_def windows_walk_bex adapter_interface_def) blast
  qed
qed

definition example_win32 :: win32 where
  "example_win32 = \<lparr>WIN_AF_INET = 2, NO_ERROR = 0, ERROR_BUFFER_OVERFLOW = 111, IfOperStatusUp = 1,
     IF_TYPE_SOFTWARE_LOOPBACK = 24, IP_ADAPTER_NO_MULTICAST = 16, IF_TYPE_PPP = 23, IF_TYPE_TUNNEL = 131\<rparr>"

definition example_adapter :: adapter where
  "example_adapter = \<lparr>adapter_flags = 0, oper_status = 1, if_type = 6,
     unicast_addresses = [None, Some \<lparr>sa_family = 2, sin_addr = [192, 168, 0, 5]\<rparr>]\<rparr>"

lemma windows_gateways_exact_witness:
  "0xC0A80005 \<in> initial (windows_interfaces example_win32
     (grows example_win32 (\<lambda>n. 20000) (\<lambda>n. [example_adapter])))"
proof -
  have "drop_bit 24 (0xC0A80005 :: u32) \<noteq> 127" by simp
  moreover have "from_be [192, 168, 0, 5] = (0xC0A80005 :: u32)" by (simp add: from_be_def)
  ultimately show ?thesis
    by (subst windows_gateways_exact) (simp_all add: example_win32_def example_adapter_def)
qed

end
