(* ===== verification/App_View.thy ===== *)
theory App_View
  imports System "HOL-Library.Product_Lexorder" "HOL-Library.Sublist"
begin

text \<open>
  What the application sees, \<^verbatim>\<open>crates/tactus/src/lib.rs\<close>: the phase a snapshot extrapolates to and the list
  of visible channels.
\<close>

section \<open>The phase of a snapshot\<close>

lemma trunc_rat_remainder:
  assumes "0 < b"
  shows "\<bar>a - of_int (trunc_rat (a / b)) * b\<bar> < b" and "0 \<le> a \<Longrightarrow> 0 \<le> a - of_int (trunc_rat (a / b)) * b"
proof -
  have f: "0 \<le> x - of_int \<lfloor>x / b\<rfloor> * b \<and> x - of_int \<lfloor>x / b\<rfloor> * b < b" for x
  proof -
    have "of_int \<lfloor>x / b\<rfloor> * b \<le> x" by (subst pos_le_divide_eq [OF assms, symmetric]) simp
    moreover have "x / b < of_int \<lfloor>x / b\<rfloor> + 1" by linarith
    then have "x < (of_int \<lfloor>x / b\<rfloor> + 1) * b" by (simp only: pos_divide_less_eq [OF assms])
    ultimately show ?thesis by (simp add: algebra_simps)
  qed
  show "\<bar>a - of_int (trunc_rat (a / b)) * b\<bar> < b"
    using f [of a] f [of "- a"] assms by (auto simp: trunc_rat_def abs_if minus_divide_left [symmetric])
  show "0 \<le> a - of_int (trunc_rat (a / b)) * b" if "0 \<le> a"
    using f [of a] assms that by (auto simp: trunc_rat_def)
qed

text \<open>Extrapolating the phase of a snapshot gives a value from zero to the quantum, for every finite
  beat and every positive quantum that a double holds.\<close>

theorem phase_at_range:
  assumes "sn_quantum s = Fin q" and "0 < q" and "representable q" and "q < f64_limit"
    and "beat_at s micros = Fin b"
  shows "\<exists>p. phase_at s micros = Fin p \<and> 0 \<le> p \<and> p \<le> q"
proof -
  define r where "r = b - of_int (trunc_rat (b / q)) * q"
  have r: "\<bar>r\<bar> < q" unfolding r_def by (rule trunc_rat_remainder(1) [OF assms(2)])
  show ?thesis
  proof (cases "r < 0")
    case True
    have "representable 0" using representable_of_int [of 0] by simp
    then have "\<exists>p. rnd (r + q) = Fin p \<and> 0 \<le> p \<and> p \<le> q"
      using assms(2-4) r True f64_limit_big by (intro rnd_Fin_between) simp_all
    with True show ?thesis
      using assms(1,2,5) by (simp add: phase_at_def f64_le_def f64_rem_euclid_def Let_def r_def)
  next
    case False
    with r show ?thesis
      using assms(1,2,5) by (simp add: phase_at_def f64_le_def f64_rem_euclid_def Let_def r_def)
  qed
qed

text \<open>Evaluation of a rounding: the exponent and the significand of the result are given and checked.\<close>

lemma ilog2_unique:
  assumes "2 powi e \<le> x" and "x < 2 powi (e + 1)"
  shows "ilog2 x = e"
proof -
  have "0 < x" using assms(1) by (rule less_le_trans [rotated]) simp
  note b = ilog2_bounds [OF this]
  have "\<not> e + 1 \<le> ilog2 x" using power_int_increasing [of "e + 1" "ilog2 x" "2 :: rat"] b(1) assms(2) by auto
  moreover have "\<not> ilog2 x + 1 \<le> e" using power_int_increasing [of "ilog2 x + 1" e "2 :: rat"] b(2) assms(1) by auto
  ultimately show ?thesis by linarith
qed

lemma rnd_eval:
  assumes "2 ^ 52 \<le> \<bar>x\<bar> * 2 ^ k" and "\<bar>x\<bar> * 2 ^ k < 2 ^ 53" and "k \<le> 1000"
    and "\<bar>of_int n - x * 2 ^ k\<bar> < 1 / 2" and "\<bar>n\<bar> \<le> 2 ^ 53"
  shows "rnd x = Fin (of_int n / 2 ^ k)"
proof -
  have p: "(2 :: rat) powi (52 - int k) = 2 ^ 52 / 2 ^ k" "(2 :: rat) powi (52 - int k + 1) = 2 ^ 53 / 2 ^ k"
    by (simp_all add: power_int_diff power_int_add)
  have "ilog2 \<bar>x\<bar> = 52 - int k"
    by (rule ilog2_unique) (use assms(1,2) in \<open>simp_all only: p pos_divide_le_eq pos_less_divide_eq zero_less_power zero_less_numeral\<close>)
  then have u: "ulp x = 1 / 2 ^ k" using assms(3) by (simp add: ulp_def max_def power_int_minus divide_inverse)
  have "round_half_even (x * 2 ^ k) = n"
    using assms(4) round_half_even_near [of "x * 2 ^ k"] by linarith
  moreover have "x \<noteq> 0" using assms(1) by auto
  ultimately have r: "round53 x = of_int n / 2 ^ k" by (simp add: round53_def u)
  have "\<bar>of_int n :: rat\<bar> \<le> of_int (2 ^ 53)" using assms(5) by (simp only: of_int_abs [symmetric] of_int_le_iff)
  moreover have "(1 :: rat) \<le> 2 ^ k" by simp
  then have "\<bar>of_int n / 2 ^ k :: rat\<bar> \<le> \<bar>of_int n\<bar>" by (simp add: divide_le_eq_1 mult_left_le abs_divide pos_divide_le_eq mult_le_cancel_left1)
  ultimately have "\<bar>of_int n / 2 ^ k :: rat\<bar> < f64_limit" using f64_limit_big by (simp add: order_le_less_trans)
  then have "of_int n / 2 ^ k < f64_limit" "- f64_limit < of_int n / (2 ^ k :: rat)"
    by (simp_all only: abs_less_iff, linarith)
  then show ?thesis by (simp add: rnd_def r Let_def)
qed

definition example_snapshot :: session_snapshot where
  "example_snapshot = \<lparr>at_micros = 103000, sn_quantum = Fin 4, tempo_bpm = tempo_to_bpm 412000,
     sn_beat = micro_to_beats 250000, sn_phase = micro_to_beats 250000, sn_is_playing = False,
     sn_enabled = True, sn_num_peers = 0, session_id = Id 1\<rparr>"

lemma example_beat: "beat_at example_snapshot 0 = Fin (- 1 / 2 ^ 54)"
proof -
  have ints: "f64_of_int 412000 = Fin 412000" "f64_of_int 250000 = Fin 250000" "f64_of_int (- 103000) = Fin (- 103000)"
    using f64_of_int_exact [of 412000] f64_of_int_exact [of 250000] f64_of_int_exact [of "- 103000"] by simp_all
  have bpm: "tempo_to_bpm 412000 = Fin (5123937682839612 / 2 ^ 45)"
    using rnd_eval [of "60000000 / 412000" 45 5123937682839612] by (simp add: tempo_to_bpm_def ints)
  have beat: "micro_to_beats 250000 = Fin (1 / 4)"
    using rnd_eval [of "1 / 4" 54 4503599627370496] by (simp add: micro_to_beats_def ints)
  have mul: "rnd (- 103000 * (5123937682839612 / 2 ^ 45)) = Fin (- 8053063680000001 / 2 ^ 29)"
    using rnd_eval [of "- 103000 * (5123937682839612 / 2 ^ 45)" 29 "- 8053063680000001"] by simp
  have quo: "rnd (- 8053063680000001 / 2 ^ 29 / 60000000) = Fin (- 4503599627370497 / 2 ^ 54)"
    using rnd_eval [of "- 8053063680000001 / 2 ^ 29 / 60000000" 54 "- 4503599627370497"] by simp
  have "rnd (1 / 4 + - 4503599627370497 / 2 ^ 54) = Fin (- 1 / 2 ^ 54)"
    using rnd_eval [of "- 1 / 2 ^ 54" 106 "- (2 ^ 52)"] by simp
  with mul quo show ?thesis by (simp add: beat_at_def example_snapshot_def bpm beat ints)
qed

lemma phase_at_range_witness: "\<exists>p. phase_at example_snapshot 0 = Fin p \<and> 0 \<le> p \<and> p \<le> 4"
  by (rule phase_at_range [OF _ _ _ _ example_beat])
    (use representable_of_int [of 4] f64_limit_big in \<open>simp_all add: example_snapshot_def\<close>)

text \<open>The upper end is reached. A snapshot taken a quarter of a beat after the origin of a timeline of
  412000 microseconds per beat extrapolates back to the origin with a phase of exactly the quantum,
  outside the range \<open>[0, quantum)\<close> that the documentation gives.\<close>

theorem phase_at_reaches_quantum:
  "phase_at example_snapshot 0 = Fin 4 \<and> sn_quantum example_snapshot = Fin 4"
proof -
  have "rnd (- 1 / 2 ^ 54 + 4) = Fin 4" using rnd_eval [of "- 1 / 2 ^ 54 + 4" 51 "2 ^ 53"] by simp
  moreover have "trunc_rat (- 1 / 2 ^ 54 / 4) = 0" by (simp add: trunc_rat_def floor_eq_iff)
  moreover have "sn_quantum example_snapshot = Fin 4" by (simp add: example_snapshot_def)
  ultimately show ?thesis by (simp add: phase_at_def f64_le_def f64_rem_euclid_def example_beat Let_def)
qed

section \<open>Lossy strings\<close>

text \<open>\<open>String::from_utf8_lossy\<close>: a string is its UTF-8 bytes; every maximal prefix of a character that the
  input does not complete becomes one replacement character. \<open>utf8_take\<close> gives the length of the
  character or of the broken prefix at the front, and whether it is a character.\<close>

definition byte_at :: "bytes \<Rightarrow> nat \<Rightarrow> byte" where
  "byte_at bs i = (if i < length bs then bs ! i else 0)"

definition continuation :: "byte \<Rightarrow> bool" where
  "continuation b \<longleftrightarrow> 0x80 \<le> b \<and> b \<le> 0xBF"

definition utf8_width :: "byte \<Rightarrow> nat" where
  "utf8_width b = (if b < 0x80 then 1 else if 0xC2 \<le> b \<and> b \<le> 0xDF then 2
     else if 0xE0 \<le> b \<and> b \<le> 0xEF then 3 else if 0xF0 \<le> b \<and> b \<le> 0xF4 then 4 else 0)"

definition utf8_second :: "byte \<Rightarrow> byte \<Rightarrow> bool" where
  "utf8_second b c \<longleftrightarrow> (if b = 0xE0 then 0xA0 else if b = 0xF0 then 0x90 else 0x80) \<le> c \<and>
     c \<le> (if b = 0xED then 0x9F else if b = 0xF4 then 0x8F else 0xBF)"

definition utf8_take :: "bytes \<Rightarrow> nat \<times> bool" where
  "utf8_take bs = (let w = utf8_width (byte_at bs 0) in
     if w = 0 then (1, False) else if w = 1 then (1, True)
     else if \<not> utf8_second (byte_at bs 0) (byte_at bs 1) then (1, False)
     else if w = 2 then (2, True)
     else if \<not> continuation (byte_at bs 2) then (2, False)
     else if w = 3 then (3, True)
     else if \<not> continuation (byte_at bs 3) then (3, False)
     else (4, True))"

function utf8_lossy :: "bytes \<Rightarrow> bytes" where
  "utf8_lossy bs = (if bs = [] then [] else
     (if snd (utf8_take bs) then take (fst (utf8_take bs)) bs else [0xEF, 0xBF, 0xBD])
       @ utf8_lossy (drop (fst (utf8_take bs)) bs))"
  by pat_completeness auto

termination
  by (relation "measure length") (auto simp: utf8_take_def Let_def)

declare utf8_lossy.simps [simp del]

section \<open>Visible channels\<close>

record visible_channel =
  vc_peer_name :: bytes
  vc_name :: bytes
  vc_id :: channel_id

text \<open>\<open>dedup_by_key\<close> drops the elements whose key is that of the last one kept.\<close>

fun dedup_by :: "('a \<Rightarrow> 'b) \<Rightarrow> 'a list \<Rightarrow> 'a list" where
  "dedup_by f (x # y # xs) = (if f x = f y then dedup_by f (x # xs) else x # dedup_by f (y # xs))"
| "dedup_by f xs = xs"

definition channel_key :: "visible_channel \<Rightarrow> bytes \<times> bytes \<times> channel_id" where
  "channel_key c = (vc_peer_name c, vc_name c, vc_id c)"

definition visible_of :: "(channel_id \<times> nat) \<times> known_channel \<Rightarrow> visible_channel" where
  "visible_of x = \<lparr>vc_peer_name = utf8_lossy (kc_peer_name (snd x)), vc_name = utf8_lossy (kc_name (snd x)),
     vc_id = fst (fst x)\<rparr>"

definition visible_channels :: "engine \<Rightarrow> visible_channel list" where
  "visible_channels e = (case audio e of None \<Rightarrow> [] | Some a \<Rightarrow>
     dedup_by vc_id (sort_key channel_key (map visible_of (iter_known (env e) (known a)))))"

lemma dedup_by_subset: "set (dedup_by f xs) \<subseteq> set xs"
  by (induction f xs rule: dedup_by.induct) auto

lemma dedup_by_sorted: "sorted (map k xs) \<Longrightarrow> sorted (map k (dedup_by f xs))"
proof (induction f xs rule: dedup_by.induct)
  case (1 f x y xs)
  show ?case
  proof (cases "f x = f y")
    case True
    have "sorted (map k (x # xs))" using "1.prems" by simp
    from "1.IH"(1) [OF True this] True show ?thesis by simp
  next
    case False
    have "sorted (map k (y # xs))" using "1.prems" by simp
    from "1.IH"(2) [OF False this] have "sorted (map k (dedup_by f (y # xs)))" .
    moreover have "\<forall>z \<in> set (y # xs). k x \<le> k z" using "1.prems" by simp
    then have "\<forall>z \<in> set (dedup_by f (y # xs)). k x \<le> k z" using dedup_by_subset [of f "y # xs"] by blast
    ultimately show ?thesis using False by simp
  qed
qed simp_all

text \<open>When elements with the same key are equal, each is kept once.\<close>

lemma dedup_by_distinct:
  assumes "sorted (map k xs)" and "inj k" and "\<forall>x \<in> set xs. \<forall>y \<in> set xs. f x = f y \<longrightarrow> x = y"
  shows "distinct (dedup_by f xs) \<and> set (dedup_by f xs) = set xs"
  using assms
proof (induction f xs rule: dedup_by.induct)
  case (1 f x y xs)
  have tail: "sorted (map k (y # xs))" using "1.prems"(1) by simp
  have inj_tail: "\<forall>x \<in> set (y # xs). \<forall>y \<in> set (y # xs). f x = f y \<longrightarrow> x = y"
    by (intro ballI impI, rule "1.prems"(3) [rule_format]) simp_all
  show ?case
  proof (cases "f x = f y")
    case True
    have xy: "x = y" by (rule "1.prems"(3) [rule_format]) (simp_all add: True)
    have "dedup_by f (x # y # xs) = dedup_by f (x # xs)" using True by simp
    moreover have "distinct (dedup_by f (x # xs)) \<and> set (dedup_by f (x # xs)) = set (x # xs)"
      using "1.IH"(1) [OF True] tail inj_tail "1.prems"(2) by (simp only: xy)
    ultimately show ?thesis by (simp add: xy)
  next
    case False
    have "x \<notin> set (y # xs)"
    proof
      assume x: "x \<in> set (y # xs)"
      have "k x \<le> k y" using "1.prems"(1) by simp
      moreover have "k y \<le> k x" using x "1.prems"(1) by auto
      ultimately have "k x = k y" by simp
      then have "x = y" by (rule injD [OF "1.prems"(2)])
      with False show False by simp
    qed
    moreover have "distinct (dedup_by f (y # xs)) \<and> set (dedup_by f (y # xs)) = set (y # xs)"
      by (rule "1.IH"(2) [OF False tail "1.prems"(2) inj_tail])
    moreover have "dedup_by f (x # y # xs) = x # dedup_by f (y # xs)" using False by simp
    ultimately show ?thesis by simp
  qed
qed simp_all

lemma inj_channel_key: "inj channel_key"
  by (rule injI) (simp add: channel_key_def)

text \<open>The list of visible channels is exact. When the gateways agree on the names of a channel, it holds
  every channel that some gateway has heard of once, with its names as strings, in the order of peer
  name, channel name and identifier.\<close>

theorem visible_channels_exact:
  assumes "fair_iteration (env e)" and "audio e = Some a"
    and "\<forall>x \<in> set (known a). \<forall>y \<in> set (known a). fst (fst x) = fst (fst y) \<longrightarrow>
      kc_peer_name (snd x) = kc_peer_name (snd y) \<and> kc_name (snd x) = kc_name (snd y)"
  shows "sorted (map channel_key (visible_channels e)) \<and> distinct (map vc_id (visible_channels e)) \<and>
    set (visible_channels e) = visible_of ` set (known a)"
proof -
  define xs where "xs = sort_key channel_key (map visible_of (iter_known (env e) (known a)))"
  have set_xs: "set xs = visible_of ` set (known a)"
    using assms(1) by (simp add: xs_def fair_iteration_def)
  have same: "x = y" if "x \<in> set xs" "y \<in> set xs" "vc_id x = vc_id y" for x y
    using that assms(3) unfolding set_xs by (force simp: visible_of_def)
  have d: "distinct (dedup_by vc_id xs)" "set (dedup_by vc_id xs) = set xs"
    using dedup_by_distinct [of channel_key xs vc_id] same inj_channel_key by (auto simp: xs_def)
  moreover have "inj_on vc_id (set xs)" using same by (auto intro: inj_onI)
  ultimately have "distinct (map vc_id (dedup_by vc_id xs))" by (simp add: distinct_map)
  moreover have "sorted (map channel_key (dedup_by vc_id xs))" by (rule dedup_by_sorted) (simp add: xs_def)
  ultimately show ?thesis using assms(2) d(2) set_xs by (simp add: visible_channels_def xs_def)
qed

definition heard :: "bytes \<Rightarrow> bytes \<Rightarrow> known_channel" where
  "heard p n = \<lparr>kc_peer = Id 9, kc_peer_name = p, kc_name = n, kc_deadline = 0\<rparr>"

definition example_listener :: "((channel_id \<times> nat) \<times> known_channel) list \<Rightarrow> engine" where
  "example_listener kn = (new_engine (Fin 120) example_config example_env)
     \<lparr>audio := Some ((new_audio_state [])\<lparr>known := kn\<rparr>)\<rparr>"

lemma visible_channels_exact_witness:
  "distinct (map vc_id (visible_channels (example_listener
    [((Id 1, 0), heard [0x61] [0xFF]), ((Id 1, 1), heard [0x61] [0xFF]), ((Id 2, 0), heard [0x62] [])])))"
  using visible_channels_exact [of "example_listener
      [((Id 1, 0), heard [0x61] [0xFF]), ((Id 1, 1), heard [0x61] [0xFF]), ((Id 2, 0), heard [0x62] [])]"]
  by (auto simp: example_listener_def new_engine_def Let_def)

text \<open>Repeats are removed only where they are neighbours: a channel that two gateways have heard under
  different names is listed twice when another channel sorts between them.\<close>

lemma utf8_lossy_ascii: "b < 0x80 \<Longrightarrow> utf8_lossy [b] = [b]" "utf8_lossy [] = []"
  by (simp_all add: utf8_lossy.simps [of "[]"] utf8_lossy.simps [of "[b]"] utf8_take_def utf8_width_def byte_at_def)

lemma channel_listed_twice:
  "map vc_id (visible_channels (example_listener
    [((Id 1, 0), heard [0x61] []), ((Id 2, 0), heard [0x62] []), ((Id 1, 1), heard [0x63] [])])) = [Id 1, Id 2, Id 1]"
  by (simp add: visible_channels_def example_listener_def new_engine_def example_env_def visible_of_def heard_def
      utf8_lossy_ascii channel_key_def sort_key_def Let_def)

end
