(* ===== verification/Text_Format.thy ===== *)
theory Text_Format
  imports App_View
begin

text \<open>
  What the command-line peer uses of Rust's strings and numbers: splitting a line into words, reading an
  integer and a floating-point number, printing a number in decimal and with a fixed number of places,
  splitting at a pattern; and the printed forms of identifiers and errors (types.rs and codec.rs). A string
  is its UTF-8 bytes. The lemmas: numbers read back as printed, printed identifiers are told apart, and text
  without spaces is a field that can be split off.
\<close>

section \<open>Words of a line\<close>

text \<open>The number of bytes of the white space character at the front, zero when there is none.\<close>

definition space_width :: "bytes \<Rightarrow> nat" where
  "space_width bs = (let a = byte_at bs 0; b = byte_at bs 1; c = byte_at bs 2 in
     if 0x09 \<le> a \<and> a \<le> 0x0D \<or> a = 0x20 then 1
     else if a = 0xC2 \<and> (b = 0x85 \<or> b = 0xA0) then 2
     else if a = 0xE1 \<and> b = 0x9A \<and> c = 0x80 \<or> a = 0xE3 \<and> b = 0x80 \<and> c = 0x80 \<or>
       a = 0xE2 \<and> (b = 0x80 \<and> (0x80 \<le> c \<and> c \<le> 0x8A \<or> c = 0xA8 \<or> c = 0xA9 \<or> c = 0xAF) \<or> b = 0x81 \<and> c = 0x9F)
     then 3 else 0)"

fun words_from :: "bytes \<Rightarrow> bytes \<Rightarrow> bytes list" where
  "words_from w [] = (if w = [] then [] else [w])"
| "words_from w (b # bs) = (let n = space_width (b # bs) in
     if n = 0 then words_from (w @ [b]) bs
     else (if w = [] then [] else [w]) @ words_from [] (drop (n - 1) bs))"

definition split_whitespace :: "bytes \<Rightarrow> bytes list" where
  "split_whitespace line = words_from [] line"

section \<open>Reading numbers\<close>

definition is_digit :: "byte \<Rightarrow> bool" where
  "is_digit b \<longleftrightarrow> 0x30 \<le> b \<and> b \<le> 0x39"

definition digits_value :: "bytes \<Rightarrow> nat" where
  "digits_value ds = foldl (\<lambda>n d. 10 * n + unat (d - 0x30)) 0 ds"

definition all_digits :: "bytes \<Rightarrow> bool" where
  "all_digits ds \<longleftrightarrow> ds \<noteq> [] \<and> list_all is_digit ds"

definition parse_usize :: "bytes \<Rightarrow> nat option" where
  "parse_usize bs = (let ds = (if take 1 bs = [0x2B] then drop 1 bs else bs) in
     if all_digits ds \<and> digits_value ds < 2 ^ 64 then Some (digits_value ds) else None)"

text \<open>Whether a sign is negative, and what follows it.\<close>

definition split_sign :: "bytes \<Rightarrow> bool \<times> bytes" where
  "split_sign bs = (if take 1 bs = [0x2D] then (True, drop 1 bs)
     else if take 1 bs = [0x2B] then (False, drop 1 bs) else (False, bs))"

fun parse_exponent :: "bytes \<Rightarrow> int option" where
  "parse_exponent [] = Some 0"
| "parse_exponent (b # bs) = (let (negative, ds) = split_sign bs in
     if b \<noteq> 0x65 \<and> b \<noteq> 0x45 \<or> \<not> all_digits ds then None
     else Some (if negative then - int (digits_value ds) else int (digits_value ds)))"

definition parse_number :: "bytes \<Rightarrow> rat option" where
  "parse_number bs =
     (let whole = takeWhile is_digit bs; rest = dropWhile is_digit bs;
          (places, rest) = (if take 1 rest = [0x2E]
            then (takeWhile is_digit (drop 1 rest), dropWhile is_digit (drop 1 rest)) else ([], rest))
      in if whole = [] \<and> places = [] then None
         else map_option (\<lambda>x. of_nat (digits_value (whole @ places)) * 10 powi (x - int (length places)))
           (parse_exponent rest))"

definition to_lower :: "byte \<Rightarrow> byte" where
  "to_lower b = (if 0x41 \<le> b \<and> b \<le> 0x5A then b + 0x20 else b)"

text \<open>\<open>str::parse::<f64>\<close>: the nearest double to the number as written.\<close>

definition parse_f64 :: "bytes \<Rightarrow> f64 option" where
  "parse_f64 bs =
     (let (negative, rest) = split_sign bs; name = map to_lower rest;
          value = (if name = ascii ''inf'' \<or> name = ascii ''infinity'' then Some PInf
            else if name = ascii ''nan'' then Some NaN else map_option rnd (parse_number rest))
      in map_option (if negative then f64_neg else id) value)"

section \<open>Printing\<close>

definition digit :: "nat \<Rightarrow> byte" where
  "digit n = 0x30 + word_of_nat n"

fun decimal :: "nat \<Rightarrow> bytes" where
  "decimal n = (if n < 10 then [digit n] else decimal (n div 10) @ [digit (n mod 10)])"

declare decimal.simps [simp del]

text \<open>A double with a fixed positive number of places: the exact value rounded to nearest, ties to even.\<close>

fun fixed :: "nat \<Rightarrow> f64 \<Rightarrow> bytes" where
  "fixed places (Fin x) = (let n = nat (round_half_even (\<bar>x\<bar> * 10 ^ places));
      part = decimal (n mod 10 ^ places)
    in (if x < 0 then [0x2D] else []) @ decimal (n div 10 ^ places) @ [0x2E] @
       replicate (places - length part) 0x30 @ part)"
| "fixed places PInf = ascii ''inf''"
| "fixed places NInf = ascii ''-inf''"
| "fixed places NaN = ascii ''NaN''"

section \<open>Splitting at a pattern\<close>

function split_from :: "bytes \<Rightarrow> bytes \<Rightarrow> bytes \<Rightarrow> bytes list" where
  "split_from pat part text = (if text = [] then [part]
     else if pat \<noteq> [] \<and> take (length pat) text = pat then part # split_from pat [] (drop (length pat) text)
     else split_from pat (part @ [hd text]) (tl text))"
  by pat_completeness auto

termination
  by (relation "measure (\<lambda>(_, _, text). length text)") auto

declare split_from.simps [simp del]

definition split_at_pattern :: "bytes \<Rightarrow> bytes \<Rightarrow> bytes list" where
  "split_at_pattern pat text = split_from pat [] text"

section \<open>Diagnostics\<close>

text \<open>An identifier is shown as its bytes in hexadecimal, an error as its message.\<close>

definition hex_digit :: "nat \<Rightarrow> byte" where
  "hex_digit n = (if n < 10 then digit n else 0x57 + word_of_nat n)"

definition hex_byte :: "byte \<Rightarrow> bytes" where
  "hex_byte b = [hex_digit (unat b div 16), hex_digit (unat b mod 16)]"

fun display_id :: "id \<Rightarrow> bytes" where
  "display_id (Id w) = concat (map hex_byte (to_be 8 w))"

fun display_error :: "error \<Rightarrow> bytes" where
  "display_error Truncated = ascii ''read past end of buffer''"
| "display_error BadMagic = ascii ''bad frame magic''"
| "display_error (UnknownMessageType t) = ascii ''unknown message type '' @ decimal (unat t)"
| "display_error (Malformed why) = ascii ''malformed message: '' @ ascii why"

section \<open>Numbers read back as printed\<close>

lemma digit_simps [simp]:
  assumes "n < 10"
  shows "is_digit (digit n)" and "unat (digit n - 0x30) = n" and "digit n \<noteq> 0x20"
proof -
  have "unat (digit n) = 0x30 + n"
    using assms by (simp add: digit_def unat_word_ariths unat_of_nat take_bit_eq_mod)
  then show "is_digit (digit n)" "digit n \<noteq> 0x20"
    using assms by (auto simp: is_digit_def word_le_nat_alt)
  show "unat (digit n - 0x30) = n"
    using assms by (simp add: digit_def unat_of_nat take_bit_eq_mod)
qed

lemma decimal_nonempty [simp]: "decimal n \<noteq> []"
  by (subst decimal.simps) simp

lemma decimal_digits [simp]: "list_all is_digit (decimal n)"
  by (induction n rule: decimal.induct) (subst decimal.simps, simp)

lemma decimal_all_digits [simp]: "all_digits (decimal n)"
  by (simp add: all_digits_def)

lemma digits_value_snoc: "digits_value (ds @ [d]) = 10 * digits_value ds + unat (d - 0x30)"
  by (simp add: digits_value_def)

lemma digits_value_decimal [simp]: "digits_value (decimal n) = n"
proof (induction n rule: decimal.induct)
  case (1 n)
  then show ?case
    by (subst decimal.simps) (simp add: digits_value_snoc, simp add: digits_value_def)
qed

lemma decimal_inj [simp]: "decimal m = decimal n \<longleftrightarrow> m = n"
  by (metis digits_value_decimal)

lemma parse_usize_decimal: "n < 2 ^ 64 \<Longrightarrow> parse_usize (decimal n) = Some n"
proof -
  have "take 1 (decimal n) \<noteq> [0x2B]"
    using decimal_digits [of n] by (cases "decimal n") (auto simp: is_digit_def)
  then show "n < 2 ^ 64 \<Longrightarrow> parse_usize (decimal n) = Some n"
    by (simp add: parse_usize_def Let_def)
qed

lemma digits_value_append:
  "digits_value (as @ bs) = digits_value as * 10 ^ length bs + digits_value bs"
  by (induction bs rule: rev_induct) (simp_all add: digits_value_snoc digits_value_def [of "[]"] algebra_simps flip: append_assoc)

lemma digits_value_zeros: "digits_value (replicate k 0x30 @ ds) = digits_value ds"
proof -
  have "digits_value (replicate k 0x30) = 0"
    by (induction k) (simp_all add: digits_value_def)
  then show ?thesis by (simp add: digits_value_append)
qed

lemma length_decimal: "n < 10 ^ p \<Longrightarrow> 0 < p \<Longrightarrow> length (decimal n) \<le> p"
proof (induction n arbitrary: p rule: decimal.induct)
  case (1 n)
  show ?case
  proof (cases "n < 10")
    case True
    with 1(3) show ?thesis by (subst decimal.simps) simp
  next
    case False
    with 1(2,3) obtain q where q: "p = Suc q" "0 < q" by (cases p; cases "p - 1") auto
    have "length (decimal (n div 10)) \<le> q" using 1(1) [OF False, of q] 1(2) q by simp
    with False q show ?thesis by (subst decimal.simps) simp
  qed
qed

lemma takeWhile_digits:
  assumes "list_all is_digit ds" and "rest = [] \<or> \<not> is_digit (hd rest)"
  shows "takeWhile is_digit (ds @ rest) = ds" and "dropWhile is_digit (ds @ rest) = rest"
  using assms by (auto simp: list_all_iff takeWhile_append dropWhile_append takeWhile_eq_Nil_iff dropWhile_eq_self_iff)

lemma parse_number_fixed:
  assumes "list_all is_digit ds" and "list_all is_digit ps" and "ds \<noteq> []"
  shows "parse_number (ds @ [0x2E] @ ps) = Some (of_nat (digits_value (ds @ ps)) / 10 ^ length ps)"
proof -
  note w = takeWhile_digits [OF assms(1), of "0x2E # ps"]
  have p: "takeWhile is_digit ps = ps" "dropWhile is_digit ps = []"
    using takeWhile_digits [OF assms(2), of "[]"] by simp_all
  have "\<not> is_digit 0x2E" by (simp add: is_digit_def)
  with assms(3) show ?thesis
    by (simp add: parse_number_def Let_def power_int_minus divide_inverse w p)
qed

lemma split_sign_digits: "list_all is_digit ds \<Longrightarrow> ds \<noteq> [] \<Longrightarrow> split_sign (ds @ rest) = (False, ds @ rest)"
  by (cases ds) (auto simp: split_sign_def is_digit_def)

lemma not_a_name:
  assumes "is_digit d"
  shows "map to_lower (d # rest) \<notin> {ascii ''inf'', ascii ''infinity'', ascii ''nan''}"
proof -
  have d: "d \<le> 0x39" using assms by (simp add: is_digit_def)
  then have "to_lower d = d" by (auto simp: to_lower_def dest: order_trans)
  with d show ?thesis by (auto simp: ascii_def of_char_def)
qed

text \<open>A finite number printed with a fixed number of places reads back as the double nearest to the decimal.\<close>

lemma parse_f64_fixed:
  assumes "0 < places" and "0 \<le> x"
  shows "parse_f64 (fixed places (Fin x)) = Some (rnd (of_int (round_half_even (x * 10 ^ places)) / 10 ^ places))"
proof -
  define n where "n = nat (round_half_even (x * 10 ^ places))"
  have n: "of_int (round_half_even (x * 10 ^ places)) = (of_nat n :: rat)"
    using assms(2) round_half_even_ge [of 0 "x * 10 ^ places"] by (simp add: n_def)
  let ?part = "decimal (n mod 10 ^ places)" and ?whole = "decimal (n div 10 ^ places)"
  let ?ps = "replicate (places - length ?part) 0x30 @ ?part"
  have f: "fixed places (Fin x) = ?whole @ [0x2E] @ ?ps"
    using assms(2) by (simp add: n_def Let_def)
  have len: "length ?ps = places" using length_decimal [of "n mod 10 ^ places" places] assms(1) by simp
  have ps: "list_all is_digit ?ps" by (auto simp: list_all_iff is_digit_def) (use decimal_digits in \<open>simp_all add: list_all_iff is_digit_def\<close>)
  have "digits_value (?whole @ ?ps) = n"
    by (simp only: digits_value_append [of ?whole] len digits_value_zeros digits_value_decimal div_mult_mod_eq)
  then have num: "parse_number (?whole @ [0x2E] @ ?ps) = Some (of_nat n / 10 ^ places)"
    using parse_number_fixed [of ?whole ?ps] ps len by simp
  obtain d r where d: "?whole @ [0x2E] @ ?ps = d # r" "is_digit d"
    using decimal_digits [of "n div 10 ^ places"] by (cases ?whole) auto
  have "split_sign (?whole @ [0x2E] @ ?ps) = (False, ?whole @ [0x2E] @ ?ps)" by (rule split_sign_digits) simp_all
  with not_a_name [OF d(2), of r] num show ?thesis
    unfolding f n parse_f64_def by (simp only: d(1) Let_def prod.case) simp
qed

section \<open>Identifiers are told apart\<close>

lemma hex_digit_inj: "m < 16 \<Longrightarrow> n < 16 \<Longrightarrow> hex_digit m = hex_digit n \<longleftrightarrow> m = n"
proof -
  have u: "unat (hex_digit k) = (if k < 10 then 0x30 + k else 0x57 + k)" if "k < 16" for k
    using that by (auto simp: hex_digit_def digit_def unat_word_ariths unat_of_nat take_bit_eq_mod)
  show "m < 16 \<Longrightarrow> n < 16 \<Longrightarrow> hex_digit m = hex_digit n \<longleftrightarrow> m = n"
    using u [of m] u [of n] by (auto simp: word_unat_eq_iff split: if_splits)
qed

lemma hex_byte_inj: "hex_byte b @ r = hex_byte c @ r' \<longleftrightarrow> b = c \<and> r = r'"
proof -
  have "unat b div 16 < 16" for b :: byte using unsigned_less [of b, where ?'a = nat] by simp
  then have "hex_byte b = hex_byte c \<longleftrightarrow> unat b div 16 = unat c div 16 \<and> unat b mod 16 = unat c mod 16"
    by (simp add: hex_byte_def hex_digit_inj)
  also have "\<dots> \<longleftrightarrow> b = c" by (metis div_mult_mod_eq word_unat_eq_iff)
  finally show ?thesis by (auto simp: hex_byte_def)
qed

lemma display_id_inj: "display_id i = display_id j \<longleftrightarrow> i = j"
proof -
  have n: "hex_byte b \<noteq> []" for b by (simp add: hex_byte_def)
  have "concat (map hex_byte bs) = concat (map hex_byte cs) \<longleftrightarrow> bs = cs" for bs cs
  proof (induction bs arbitrary: cs)
    case Nil
    then show ?case using n by (cases cs) auto
  next
    case (Cons c bs)
    then show ?case using n by (cases cs) (auto simp: hex_byte_inj)
  qed
  moreover have "from_be (to_be 8 v) = v" for v :: u64 by (rule from_be_to_be) simp
  then have "to_be 8 v = to_be 8 w \<longleftrightarrow> v = w" for v w :: u64 by metis
  ultimately show ?thesis by (cases i; cases j) simp
qed

section \<open>Fields\<close>

text \<open>Text without the first character of the pattern is skipped whole; so is a first character that
  another one than the second of the pattern follows.\<close>

lemma split_from_word: "c \<notin> set w \<Longrightarrow> split_from (c # pat) part (w @ text) = split_from (c # pat) (part @ w) text"
proof (induction w arbitrary: part)
  case (Cons b w)
  then show ?case by (subst split_from.simps) auto
qed simp

lemma split_from_other:
  "b \<noteq> d \<Longrightarrow> split_from (c # d # pat) part (c # b # text) = split_from (c # d # pat) (part @ [c]) (b # text)"
  by (subst split_from.simps) simp

lemma split_from_end: "split_from pat part [] = [part]"
  by (subst split_from.simps) simp

text \<open>Text before a separator that it does not contain is determined by the whole.\<close>

lemma field_unique: "c \<notin> set u \<Longrightarrow> c \<notin> set u' \<Longrightarrow> u @ c # r = u' @ c # r' \<longleftrightarrow> u = u' \<and> r = r'"
proof (induction u arbitrary: u')
  case Nil
  then show ?case by (cases u') auto
next
  case (Cons b u)
  then show ?case by (cases u') auto
qed

lemma no_space_digits: "list_all is_digit ds \<Longrightarrow> 0x20 \<notin> set ds"
  by (auto simp: list_all_iff is_digit_def)

lemma no_space_decimal [simp]: "0x20 \<notin> set (decimal n)"
  by (rule no_space_digits) simp

lemma no_space_fixed [simp]: "0x20 \<notin> set (fixed places x)"
  by (cases x) (auto simp: ascii_def of_char_def Let_def)

end
