(* ===== verification/Conformance_Peer.thy ===== *)
theory Conformance_Peer
  imports Text_Format
begin

text \<open>
  The command-line peer, \<^verbatim>\<open>crates/tactus/src/bin/conformance-peer.rs\<close>: the loop over the commands on standard
  input, and the thread that feeds a sine into the published channel and prints status lines. Each call of
  the peer's interface takes the lock on its own, so \<open>others n\<close> stands for what the other threads do to the
  shared state before the \<open>n\<close>th call of a command or of a turn of the thread.
\<close>

definition QUANTUM :: f64 where "QUANTUM = Fin 4"

definition SAMPLE_RATE :: nat where "SAMPLE_RATE = 48000"

definition CHANNEL_NAME :: bytes where "CHANNEL_NAME = ascii ''tactus''"

record audio_ctl =
  ctl_published :: "channel_id option"
  ctl_subscribed :: "channel_id option"

definition default_ctl :: audio_ctl where
  "default_ctl = \<lparr>ctl_published = None, ctl_subscribed = None\<rparr>"

type_synonym others = "nat \<Rightarrow> engine \<Rightarrow> engine"
type_synonym process = "audio_ctl \<times> engine"

section \<open>Commands\<close>

datatype command =
    Do_enable | Do_disable | Do_tempo f64 | Do_start | Do_stop | Do_sync bool
  | Do_audio_enable | Do_audio_disable | Do_audio_subscribe nat | Do_audio_unsubscribe
  | Do_quit | Ignored

fun next_word :: "bytes list \<Rightarrow> bytes option" where
  "next_word [] = None"
| "next_word (w # ws) = Some w"

definition parse_command :: "bytes list \<Rightarrow> command" where
  "parse_command ws = (case ws of [] \<Rightarrow> Ignored | w # args \<Rightarrow>
     if w = ascii ''enable'' then Do_enable
     else if w = ascii ''disable'' then Do_disable
     else if w = ascii ''tempo'' then
       (case Option.bind (next_word args) parse_f64 of Some bpm \<Rightarrow> Do_tempo bpm | None \<Rightarrow> Ignored)
     else if w = ascii ''start'' then Do_start
     else if w = ascii ''stop'' then Do_stop
     else if w = ascii ''startstop-sync'' then
       (case next_word args of Some v \<Rightarrow> Do_sync (v = ascii ''1'') | None \<Rightarrow> Ignored)
     else if w = ascii ''audio-enable'' then Do_audio_enable
     else if w = ascii ''audio-disable'' then Do_audio_disable
     else if w = ascii ''audio-subscribe'' then
       Do_audio_subscribe (case Option.bind (next_word args) parse_usize of Some i \<Rightarrow> i | None \<Rightarrow> 0)
     else if w = ascii ''audio-unsubscribe'' then Do_audio_unsubscribe
     else if w = ascii ''quit'' then Do_quit
     else Ignored)"

text \<open>\<open>None\<close> leaves the loop.\<close>

definition execute :: "others \<Rightarrow> command \<Rightarrow> process \<Rightarrow> process option" where
  "execute others c p = (let (ctl, e) = p in case c of
      Do_enable \<Rightarrow> Some (ctl, enable (others 0 e))
    | Do_disable \<Rightarrow> Some (ctl, disable (others 0 e))
    | Do_tempo bpm \<Rightarrow> Some (ctl, set_tempo bpm (others 0 e))
    | Do_start \<Rightarrow> Some (ctl, set_is_playing True (others 0 e))
    | Do_stop \<Rightarrow> Some (ctl, set_is_playing False (others 0 e))
    | Do_sync b \<Rightarrow> Some (ctl, enable_start_stop_sync b (others 0 e))
    | Do_audio_enable \<Rightarrow>
        let e = enable_audio (ascii ''tactus-peer'') (others 0 e) in
        if ctl_published ctl = None
        then let (i, e) = publish CHANNEL_NAME (others 1 e) in Some (ctl\<lparr>ctl_published := i\<rparr>, e)
        else Some (ctl, e)
    | Do_audio_disable \<Rightarrow>
        Some (ctl\<lparr>ctl_published := None, ctl_subscribed := None\<rparr>, disable_audio (others 0 e))
    | Do_audio_subscribe index \<Rightarrow>
        let e = others 0 e; channels = visible_channels e in
        if length channels \<le> index then Some (ctl, e) else
        let ch = vc_id (channels ! index);
            e = (case ctl_subscribed ctl of None \<Rightarrow> e | Some old \<Rightarrow> unsubscribe old (others 1 e))
        in Some (ctl\<lparr>ctl_subscribed := Some ch\<rparr>, subscribe_channel ch QUANTUM (others 2 e))
    | Do_audio_unsubscribe \<Rightarrow>
        (case ctl_subscribed ctl of None \<Rightarrow> Some (ctl, e)
         | Some i \<Rightarrow> Some (ctl\<lparr>ctl_subscribed := None\<rparr>, unsubscribe i (others 0 e)))
    | Do_quit \<Rightarrow> None
    | Ignored \<Rightarrow> Some (ctl, e))"

text \<open>The loop over the lines of standard input, up to its end, an unreadable line (\<open>None\<close>) or \<open>quit\<close>.\<close>

fun command_loop :: "(nat \<Rightarrow> others) \<Rightarrow> bytes option list \<Rightarrow> process \<Rightarrow> process" where
  "command_loop others [] p = p"
| "command_loop others (None # lines) p = p"
| "command_loop others (Some line # lines) p =
     (case execute (others 0) (parse_command (split_whitespace line)) p of None \<Rightarrow> p
      | Some p' \<Rightarrow> command_loop (others \<circ> Suc) lines p')"

definition default_config :: config where
  "default_config = \<lparr>cf_gateways = Auto, fill_audio_datagrams = False\<rparr>"

definition new_link :: "f64 \<Rightarrow> env \<Rightarrow> engine" where
  "new_link bpm v = new_engine bpm default_config v"

text \<open>\<open>None\<close> where the process dies of a panic: of the engine's, or because \<^verbatim>\<open>ready\<close> could not be printed, which it is
  once the peer exists and before the first command is read. (A status line that cannot be printed ends the
  thread below and not the process.)\<close>

definition conformance_peer :: "bool \<Rightarrow> (nat \<Rightarrow> others) \<Rightarrow> (engine \<Rightarrow> engine) \<Rightarrow> bytes option list \<Rightarrow> env \<Rightarrow> engine option" where
  "conformance_peer ready_printed others before_exit lines v =
     (let e = new_link (Fin 120) v in
      if panicked e \<or> \<not> ready_printed then None else
      let e = before_exit (snd (command_loop others lines (default_ctl, e)))
      in if panicked e then None else Some (disable e))"

section \<open>The sine\<close>

text \<open>The casts \<open>as u64\<close> and \<open>as i16\<close> truncate and saturate. A duration is its nanoseconds.\<close>

fun f64_to_u64 :: "f64 \<Rightarrow> u64" where
  "f64_to_u64 (Fin a) = word_of_int (max 0 (min (2 ^ 64 - 1) (trunc_rat a)))"
| "f64_to_u64 PInf = word_of_int (2 ^ 64 - 1)"
| "f64_to_u64 NInf = 0"
| "f64_to_u64 NaN = 0"

fun f64_to_i16 :: "f64 \<Rightarrow> i16" where
  "f64_to_i16 (Fin a) = word_of_int (max (- (2 ^ 15)) (min (2 ^ 15 - 1) (trunc_rat a)))"
| "f64_to_i16 PInf = word_of_int (2 ^ 15 - 1)"
| "f64_to_i16 NInf = word_of_int (- (2 ^ 15))"
| "f64_to_i16 NaN = 0"

definition as_secs_f64 :: "nat \<Rightarrow> f64" where
  "as_secs_f64 nanos = f64_add (f64_of_int (int (nanos div 10 ^ 9)))
     (f64_div (f64_of_int (int (nanos mod 10 ^ 9))) (Fin (10 ^ 9)))"

text \<open>The double nearest to \<open>2 \<pi>\<close>. The sine itself is the platform's, a parameter.\<close>

definition TAU :: f64 where "TAU = Fin (7074237752028440 / 2 ^ 50)"

definition phase_step :: f64 where
  "phase_step = f64_div (f64_mul (Fin 440) TAU) (f64_of_int (int SAMPLE_RATE))"

primrec sine_samples :: "(f64 \<Rightarrow> f64) \<Rightarrow> nat \<Rightarrow> f64 \<Rightarrow> i16 list \<times> f64" where
  "sine_samples sn 0 ph = ([], ph)"
| "sine_samples sn (Suc n) ph =
     (let ph = f64_add ph phase_step; (rest, final) = sine_samples sn n ph
      in (f64_to_i16 (f64_mul (sn ph) (Fin 8000)) # rest, final))"

section \<open>The pump\<close>

record pump =
  generated_frames :: u64
  cursor_beat :: "f64 option"
  wave_phase :: f64
  last_status :: int
  last_line :: bytes

definition new_pump :: "int \<Rightarrow> pump" where
  "new_pump now_nanos = \<lparr>generated_frames = 0, cursor_beat = None, wave_phase = Fin 0,
     last_status = now_nanos - 10 ^ 9, last_line = []\<rparr>"

definition frames_target :: "nat \<Rightarrow> u64" where
  "frames_target elapsed = f64_to_u64 (f64_mul (as_secs_f64 elapsed) (f64_of_int (int SAMPLE_RATE)))"

definition frames_now :: "nat \<Rightarrow> pump \<Rightarrow> u64" where
  "frames_now elapsed p =
     min (frames_target elapsed - generated_frames p) (word_of_nat SAMPLE_RATE div 10)"

definition begin_beat :: "others \<Rightarrow> pump \<Rightarrow> engine \<Rightarrow> f64 option \<times> engine" where
  "begin_beat others p e = (case cursor_beat p of Some b \<Rightarrow> (Some b, e)
     | None \<Rightarrow> let (t, e) = now (others 0 e); e = others 1 e in (beat_at_time t QUANTUM e, e))"

text \<open>\<open>None\<close> is a panic.\<close>

definition pump_audio :: "(f64 \<Rightarrow> f64) \<Rightarrow> others \<Rightarrow> channel_id option \<Rightarrow> nat \<Rightarrow> pump \<Rightarrow> engine
    \<Rightarrow> (pump \<times> engine) option" where
  "pump_audio sn others published elapsed p e = (case published of
      None \<Rightarrow> Some (p\<lparr>cursor_beat := None, generated_frames := frames_target elapsed\<rparr>, e)
    | Some channel \<Rightarrow>
        let frames = frames_now elapsed p;
            p = p\<lparr>generated_frames := frames_target elapsed\<rparr> in
        if frames = 0 then Some (p, e) else
        (case begin_beat others p e of (None, e) \<Rightarrow> None
         | (Some begin, e) \<Rightarrow>
             let (samples, ph) = sine_samples sn (unat frames) (wave_phase p);
                 e = write_channel channel samples (word_of_nat SAMPLE_RATE) 1 begin QUANTUM (others 2 e);
                 e = others 3 e;
                 beats = f64_mul (f64_div (f64_of_int (uint frames)) (f64_of_int (int SAMPLE_RATE)))
                   (f64_div (tempo_to_bpm (tempo (timeline e))) (Fin 60))
             in Some (p\<lparr>wave_phase := ph, cursor_beat := Some (f64_add begin beats)\<rparr>, e)))"

definition drain_inbox :: "others \<Rightarrow> channel_id option \<Rightarrow> engine \<Rightarrow> engine" where
  "drain_inbox others subscribed e = (case subscribed of None \<Rightarrow> e
     | Some i \<Rightarrow> snd (poll_channel i (others 4 e)))"

section \<open>Status lines\<close>

record status =
  st_peers :: nat
  st_tempo :: f64
  st_playing :: bool
  st_beat :: f64
  st_audio :: bool
  st_channels :: nat
  st_receiving :: bool
  st_publishing :: bool

definition read_status :: "others \<Rightarrow> channel_id option \<Rightarrow> channel_id option \<Rightarrow> engine
    \<Rightarrow> (status \<times> engine) option" where
  "read_status others published subscribed e =
     (let (t, e) = now (others 5 e); e = others 6 e in
      case beat_at_time t QUANTUM e of None \<Rightarrow> None
      | Some beat \<Rightarrow>
          let (receiving, e) = (case subscribed of None \<Rightarrow> (False, e)
                | Some i \<Rightarrow> let (t, e) = now (others 7 e) in (is_receiving i t e, e));
              (publishing, e) = (case published of None \<Rightarrow> (False, e)
                | Some i \<Rightarrow> has_requesters i (others 8 e));
              e = others 9 e; peer_count = count_peers e;
              e = others 10 e; bpm = tempo_to_bpm (tempo (timeline e));
              e = others 11 e; playing = app_playing e;
              e = others 12 e; audio_on = (audio e \<noteq> None);
              e = others 13 e
          in Some (\<lparr>st_peers = peer_count, st_tempo = bpm, st_playing = playing, st_beat = beat,
               st_audio = audio_on, st_channels = length (visible_channels e),
               st_receiving = receiving, st_publishing = publishing\<rparr>, e))"

definition flag :: "bool \<Rightarrow> bytes" where
  "flag b = decimal (if b then 1 else 0)"

definition status_line :: "status \<Rightarrow> bytes" where
  "status_line s = ascii ''status peers='' @ decimal (st_peers s) @
     ascii '' tempo='' @ fixed 2 (st_tempo s) @ ascii '' playing='' @ flag (st_playing s) @
     ascii '' beat='' @ fixed 4 (st_beat s) @ ascii '' quantum='' @ ascii ''4'' @
     ascii '' audio='' @ flag (st_audio s) @ ascii '' channels='' @ decimal (st_channels s) @
     ascii '' receiving='' @ flag (st_receiving s) @ ascii '' publishing='' @ flag (st_publishing s)"

text \<open>The key leaves the beat out: what is before it and what is after it.\<close>

definition status_key :: "bytes \<Rightarrow> bytes" where
  "status_key line = hd (split_at_pattern (ascii '' beat='') line) @
     (case split_at_pattern (ascii '' quantum='') line of _ # rest # _ \<Rightarrow> rest | _ \<Rightarrow> [])"

definition report :: "int \<Rightarrow> int \<Rightarrow> status \<Rightarrow> pump \<Rightarrow> bytes option \<times> pump" where
  "report checked stamped s p = (let line = status_line s; key = status_key line in
     if key \<noteq> last_line p \<or> 400 * 10 ^ 6 \<le> checked - last_status p
     then (Some line, p\<lparr>last_line := key, last_status := stamped\<rparr>) else (None, p))"

definition pump_turn :: "(f64 \<Rightarrow> f64) \<Rightarrow> others \<Rightarrow> channel_id option \<Rightarrow> channel_id option \<Rightarrow> nat \<Rightarrow> int \<Rightarrow> int
    \<Rightarrow> pump \<Rightarrow> engine \<Rightarrow> (bytes option \<times> pump \<times> engine) option" where
  "pump_turn sn others published subscribed elapsed checked stamped p e =
     (case pump_audio sn others published elapsed p e of None \<Rightarrow> None
      | Some (p, e) \<Rightarrow>
          (case read_status others published subscribed (drain_inbox others subscribed e) of None \<Rightarrow> None
           | Some (s, e) \<Rightarrow> let (line, p) = report checked stamped s p in Some (line, p, e)))"

section \<open>The peer does not panic\<close>

text \<open>The other threads keep the invariant of the shared state, whatever they do.\<close>

definition keep_ok :: "others \<Rightarrow> bool" where
  "keep_ok others \<longleftrightarrow> (\<forall>n e. engine_ok e \<longrightarrow> engine_ok (others n e))"

lemma keep_okD [intro]: "keep_ok others \<Longrightarrow> engine_ok e \<Longrightarrow> engine_ok (others n e)"
  by (simp add: keep_ok_def)

lemma execute_ok:
  assumes "keep_ok others" and "engine_ok e" and "execute others c (ctl, e) = Some (ctl', e')"
  shows "engine_ok e'"
  using assms keep_okD [OF assms(1)]
  by (cases c) (auto simp: execute_def Let_def prod.case_eq_if inv_intros split: option.split_asm if_split_asm)

lemma beat_at_time_Some: "engine_ok e \<Longrightarrow> \<exists>b. beat_at_time t q e = Some b"
  using app_beat_at_ghost_Some [OF engine_ok_legal] by (fastforce simp: beat_at_time_def)

lemma engine_ok_now:
  assumes "engine_ok e" and "now e = (t, e')"
  shows "engine_ok e'"
proof -
  have "engine_ok (snd (now e))" using assms(1) by simp
  with assms(2) show ?thesis by simp
qed

lemma begin_beat_ok:
  assumes "keep_ok others" and "engine_ok e"
  shows "\<exists>b e'. begin_beat others p e = (Some b, e') \<and> engine_ok e'"
proof -
  obtain t e' where n: "now (others 0 e) = (t, e')" by fastforce
  then have "engine_ok (others 1 e')" using assms by (blast intro: engine_ok_now)
  with n beat_at_time_Some [OF this] assms(2) show ?thesis
    by (auto simp: begin_beat_def Let_def split: option.split)
qed

lemma pump_audio_ok:
  assumes "keep_ok others" and "engine_ok e"
  shows "\<exists>p' e'. pump_audio sn others published elapsed p e = Some (p', e') \<and> engine_ok e' \<and>
    generated_frames p' = frames_target elapsed"
proof (cases published)
  case (Some ch)
  obtain b e' where b: "begin_beat others (p\<lparr>generated_frames := frames_target elapsed\<rparr>) e = (Some b, e')" "engine_ok e'"
    using begin_beat_ok [OF assms] by metis
  moreover have "word_of_nat SAMPLE_RATE \<noteq> (0 :: u32)" by (simp add: SAMPLE_RATE_def)
  ultimately have "engine_ok (others 3 (write_channel ch samples (word_of_nat SAMPLE_RATE) 1 b QUANTUM (others 2 e')))"
    for samples using assms(1) by (blast intro: channel_calls_ok(2))
  with Some b(1) assms(2) show ?thesis by (simp add: pump_audio_def Let_def split: prod.split)
qed (use assms(2) in \<open>simp add: pump_audio_def\<close>)

lemma read_status_ok:
  assumes "keep_ok others" and "engine_ok e"
  shows "\<exists>s e'. read_status others published subscribed e = Some (s, e') \<and> engine_ok e'"
proof -
  obtain t e1 where n: "now (others 5 e) = (t, e1)" by fastforce
  then have ok: "engine_ok (others 6 e1)" using assms by (blast intro: engine_ok_now)
  obtain b where b: "beat_at_time t QUANTUM (others 6 e1) = Some b" using beat_at_time_Some [OF ok] by blast
  show ?thesis
    using n b ok keep_okD [OF assms(1)] channel_calls_ok(4)
    by (auto simp: read_status_def Let_def prod.case_eq_if split: option.split)
qed

text \<open>A turn of the pump's thread does not panic and keeps the invariant.\<close>

lemma pump_turn_ok:
  assumes "keep_ok others" and "engine_ok e"
  shows "\<exists>line p' e'. pump_turn sn others published subscribed elapsed checked stamped p e = Some (line, p', e') \<and>
    engine_ok e'"
proof -
  obtain p1 e1 where p: "pump_audio sn others published elapsed p e = Some (p1, e1)" "engine_ok e1"
    using pump_audio_ok [OF assms] by metis
  have "engine_ok (drain_inbox others subscribed e1)"
    using p(2) keep_okD [OF assms(1)] channel_calls_ok(3) by (auto simp: drain_inbox_def split: option.split)
  then obtain s e2 where "read_status others published subscribed (drain_inbox others subscribed e1) = Some (s, e2)"
    "engine_ok e2" using read_status_ok [OF assms(1)] by metis
  with p(1) show ?thesis by (simp add: pump_turn_def Let_def split: prod.split)
qed

section \<open>The process as steps of the peer\<close>

text \<open>What a thread does to the shared state between two calls of another: a step of the system, or a reading of the
  clock.\<close>

definition turn :: "engine \<Rightarrow> engine \<Rightarrow> bool" where
  "turn e e' \<longleftrightarrow> (\<exists>s s'. step s s' \<and> eng s = e \<and> eng s' = e') \<or> e' = snd (now e)"

lemma turn_ok: "turn e e' \<Longrightarrow> engine_ok e \<Longrightarrow> engine_ok e' \<and> env e' = env e"
  unfolding turn_def using step_ok widens_step by (auto simp: widens_def now_def)

lemma turns_ok: "turn\<^sup>*\<^sup>* e e' \<Longrightarrow> engine_ok e \<Longrightarrow> engine_ok e' \<and> env e' = env e"
  by (induction rule: rtranclp_induct) (auto dest: turn_ok)

lemma turn_call: "positive_rate c \<Longrightarrow> turn e (perform c e)"
  unfolding turn_def using step.call [of c "\<lparr>eng = e, scans = Map.empty\<rparr>"] by fastforce

lemma turn_network: "turn e (enable e)" "turn e (disable e)"
  unfolding turn_def using step.enable [of "\<lparr>eng = e, scans = Map.empty\<rparr>"] step.disable [of "\<lparr>eng = e, scans = Map.empty\<rparr>"]
  by (force simp: fresh_epoch_def)+

lemma turn_calls:
  "turn e (set_tempo bpm e)" "turn e (set_is_playing p e)" "turn e (enable_start_stop_sync b e)"
  "turn e (enable_audio name e)" "turn e (disable_audio e)" "turn e (snd (publish name e))"
  "turn e (subscribe_channel ch q e)" "turn e (unsubscribe ch e)" "turn e (snd (poll_channel ch e))"
  "turn e (snd (has_requesters ch e))" "rate \<noteq> 0 \<Longrightarrow> turn e (write_channel ch samples rate nc beat q e)"
  using turn_call [of "Set_tempo bpm" e] turn_call [of "Set_is_playing p" e] turn_call [of "Enable_start_stop_sync b" e]
    turn_call [of "Enable_audio name" e] turn_call [of Disable_audio e] turn_call [of "Publish name" e]
    turn_call [of "Subscribe ch q" e] turn_call [of "Unsubscribe ch" e] turn_call [of "Poll ch" e]
    turn_call [of "Has_requesters ch" e] turn_call [of "Write ch samples rate nc beat q" e]
  by simp_all

text \<open>A command is a few turns among those of the others, and so is a turn of the pump's thread.\<close>

lemma execute_turns:
  assumes "\<And>n e. turn\<^sup>*\<^sup>* e (others n e)" and "execute others c (ctl, e) = Some (ctl', e')"
  shows "turn\<^sup>*\<^sup>* e e'"
proof -
  have t: "turn\<^sup>*\<^sup>* e x" if "turn (others n e) x" for n e x
    using assms(1) that by (rule rtranclp.rtrancl_into_rtrancl)
  note tt = rtranclp_trans [of turn]
  show ?thesis
  proof (cases c)
    case Do_audio_enable
    have "turn\<^sup>*\<^sup>* e (enable_audio (ascii ''tactus-peer'') (others 0 e))" by (rule t turn_calls)+
    moreover have "turn\<^sup>*\<^sup>* x (snd (publish CHANNEL_NAME (others 1 x)))" for x by (rule t turn_calls)+
    ultimately show ?thesis
      using assms(2) Do_audio_enable by (auto simp: execute_def Let_def prod.case_eq_if intro: tt split: if_splits)
  next
    case (Do_audio_subscribe i)
    have u: "turn\<^sup>*\<^sup>* x (unsubscribe ch (others 1 x))" for x ch by (rule t turn_calls)+
    have v: "turn\<^sup>*\<^sup>* x (subscribe_channel ch q (others 2 x))" for x ch q by (rule t turn_calls)+
    show ?thesis
      using assms(2) Do_audio_subscribe
      by (auto simp: execute_def Let_def intro: assms(1) tt [OF assms(1) v] tt [OF assms(1) tt [OF u [unfolded One_nat_def] v]]
          split: if_splits option.splits)
  qed (use assms(2) in \<open>auto simp: execute_def Let_def intro: t turn_calls turn_network split: option.splits\<close>)
qed

lemma command_loop_turns:
  assumes "\<And>n k e. turn\<^sup>*\<^sup>* e (others n k e)"
  shows "turn\<^sup>*\<^sup>* e (snd (command_loop others lines (ctl, e)))"
  using assms
proof (induction others lines "(ctl, e)" arbitrary: ctl e rule: command_loop.induct)
  case (3 others line lines)
  show ?case
  proof (cases "execute (others 0) (parse_command (split_whitespace line)) (ctl, e)")
    case (Some p)
    obtain ctl' e' where p: "p = (ctl', e')" by (cases p)
    have "turn\<^sup>*\<^sup>* e e'" by (rule execute_turns [OF 3(2)]) (use Some p in simp)
    moreover have "turn\<^sup>*\<^sup>* e' (snd (command_loop (others \<circ> Suc) lines (ctl', e')))"
      using 3 Some p by simp
    ultimately show ?thesis using Some p by simp
  qed simp
qed simp_all

lemma pump_turn_turns:
  assumes "\<And>n e. turn\<^sup>*\<^sup>* e (others n e)"
    and "pump_turn sn others published subscribed elapsed checked stamped p e = Some (line, p', e')"
  shows "turn\<^sup>*\<^sup>* e e'"
proof -
  have t: "turn\<^sup>*\<^sup>* e x" if "turn (others n e) x" for n e x
    using assms(1) that by (rule rtranclp.rtrancl_into_rtrancl)
  have n: "turn\<^sup>*\<^sup>* e (snd (now (others n e)))" for n e by (rule t [of n]) (simp add: turn_def)
  have "turn\<^sup>*\<^sup>* e1 (snd (begin_beat others p1 e1))" for p1 e1
    by (auto simp: begin_beat_def prod.case_eq_if Let_def intro: rtranclp_trans [OF n assms(1)] split: option.split)
  moreover have "turn\<^sup>*\<^sup>* x (others 3 (write_channel ch samples (word_of_nat SAMPLE_RATE) 1 b QUANTUM (others 2 x)))"
    for x ch samples b
    by (rule rtranclp_trans [OF t [OF turn_calls(11)] assms(1)]) (simp add: SAMPLE_RATE_def)
  ultimately have "turn\<^sup>*\<^sup>* e1 (others 3 (write_channel ch samples (word_of_nat SAMPLE_RATE) 1 b QUANTUM
      (others 2 (snd (begin_beat others p1 e1)))))" for e1 p1 ch samples b
    by (rule rtranclp_trans)
  then have audio: "turn\<^sup>*\<^sup>* e1 e2" if "pump_audio sn others published elapsed p1 e1 = Some (p2, e2)" for p1 p2 e1 e2
    using that by (auto simp: pump_audio_def Let_def prod.case_eq_if split: option.splits if_splits)
  have drain: "turn\<^sup>*\<^sup>* e1 (drain_inbox others subscribed e1)" for e1
    by (auto simp: drain_inbox_def intro: t turn_calls split: option.split)
  have read: "turn\<^sup>*\<^sup>* e1 e2" if "read_status others published subscribed e1 = Some (s, e2)" for s e1 e2
  proof -
    define e2 where "e2 = others 6 (snd (now (others 5 e1)))"
    define e3 where "e3 = (case subscribed of None \<Rightarrow> e2 | Some i \<Rightarrow> snd (now (others 7 e2)))"
    define e4 where "e4 = (case published of None \<Rightarrow> e3 | Some i \<Rightarrow> snd (has_requesters i (others 8 e3)))"
    have "turn\<^sup>*\<^sup>* e1 e2" unfolding e2_def by (rule rtranclp_trans [OF n assms(1)])
    moreover have "turn\<^sup>*\<^sup>* e2 e3" unfolding e3_def using n by (simp split: option.split)
    moreover have "turn\<^sup>*\<^sup>* e3 e4" unfolding e4_def by (auto intro: t turn_calls split: option.split)
    moreover have "turn\<^sup>*\<^sup>* e4 (others 13 (others 12 (others 11 (others 10 (others 9 e4)))))"
      by (meson assms(1) rtranclp_trans)
    ultimately have "turn\<^sup>*\<^sup>* e1 (others 13 (others 12 (others 11 (others 10 (others 9 e4)))))"
      by (meson rtranclp_trans)
    then show ?thesis
      using that by (auto simp: read_status_def e2_def e3_def e4_def Let_def prod.case_eq_if split: option.splits)
  qed
  from assms(2) obtain p1 e1 s where "pump_audio sn others published elapsed p e = Some (p1, e1)"
    "read_status others published subscribed (drain_inbox others subscribed e1) = Some (s, e')"
    by (auto simp: pump_turn_def Let_def prod.case_eq_if split: option.splits)
  then show ?thesis using audio read drain by (meson rtranclp_trans)
qed

text \<open>C34: Whatever is typed, up to the end of the input, an unreadable line or \<^verbatim>\<open>quit\<close>, and whatever steps the other
  threads take between the calls, the process does not panic, and it leaves the network before it exits:
  disabled, without audio or gateways, its last messages a ByeBye on every gateway it had. This is
  for a process whose standard output takes the line \<^verbatim>\<open>ready\<close> (it panics there otherwise, before it has
  joined the network), whose standard error can be written, and for a system that gives randomness
  (\<^verbatim>\<open>Id::random\<close> panics otherwise).\<close>

theorem peer_leaves:
  assumes "\<And>n k e. turn\<^sup>*\<^sup>* e (others n k e)" and "\<And>e. turn\<^sup>*\<^sup>* e (before_exit e)"
    and "fair_iteration v" and "gives_randomness v"
  shows "let e = before_exit (snd (command_loop others lines (default_ctl, new_link (Fin 120) v)))
    in \<not> panicked e \<and> (\<exists>e'. conformance_peer True others before_exit lines v = Some e' \<and>
      \<not> panicked e' \<and> \<not> enabled e' \<and> gateways e' = [] \<and> (enabled e \<longrightarrow> audio e' = None \<and>
      sent e' = sent (audio_shutdown e) @
        map (\<lambda>(_, g). Send_multicast (gw_id g) (encode_disc (disc_bye_bye (node e)))) (gateways e)))"
proof -
  define e0 where "e0 = new_link (Fin 120) v"
  define e where "e = before_exit (snd (command_loop others lines (default_ctl, e0)))"
  have e0: "engine_ok e0" "env e0 = v"
    by (simp_all add: e0_def new_link_def new_engine_ok assms(3)) (simp add: new_engine_def Let_def)
  have "turn\<^sup>*\<^sup>* e0 e"
    unfolding e_def using command_loop_turns [OF assms(1)] assms(2) by (rule rtranclp_trans)
  then have ok: "engine_ok e" "env e = v" using turns_ok e0 by auto
  then have idle: "\<not> enabled e \<Longrightarrow> gateways e = []"
    and sane: "\<not> panicked e0" "\<not> panicked e" "\<not> panicked (disable e)"
    using turn_ok [OF turn_network(2) ok(1)] e0 ok assms(4) by (auto simp: engine_ok_def engine_invs)
  have f: "node (audio_shutdown e) = node e" "gateways (audio_shutdown e) = gateways e"
    by (rule sans_audio_fields; simp add: frame_simps)+
  have a: "audio (audio_shutdown e) = None" by (simp add: audio_shutdown_def split: option.split)
  have "\<not> enabled (disable e) \<and> gateways (disable e) = [] \<and> (enabled e \<longrightarrow> audio (disable e) = None \<and>
      sent (disable e) = sent (audio_shutdown e) @
        map (\<lambda>(_, g). Send_multicast (gw_id g) (encode_disc (disc_bye_bye (node e)))) (gateways e))"
    using idle by (simp add: disable_def Let_def notify_def transmit_def f a)
  moreover have "conformance_peer True others before_exit lines v = Some (disable e)"
    unfolding conformance_peer_def e0_def [symmetric] using sane by (simp add: e_def [symmetric] Let_def)
  ultimately show ?thesis using sane unfolding e_def [symmetric] e0_def [symmetric] Let_def by blast
qed

lemma peer_leaves_witness:
  "\<exists>e'. conformance_peer True (\<lambda>_ _. snd \<circ> housekeeping_pass) id [Some (ascii ''enable''), Some (ascii ''quit'')] example_env = Some e' \<and>
    \<not> enabled e' \<and> \<not> panicked e'"
proof -
  have "turn e (snd (housekeeping_pass e))" for e
    unfolding turn_def using step.housekeeping [of "\<lparr>eng = e, scans = Map.empty\<rparr>"] by fastforce
  then show ?thesis
    using peer_leaves [of "\<lambda>_ _. snd \<circ> housekeeping_pass" id example_env "[Some (ascii ''enable''), Some (ascii ''quit'')]"]
    by (auto simp: Let_def)
qed

section \<open>Commands as typed\<close>

lemma ascii_simps [simp]:
  "ascii [] = []" "ascii (c # cs) = word_of_nat (of_char c) # ascii cs"
  by (simp_all add: ascii_def)

lemma typed_words:
  "parse_command (split_whitespace (ascii ''disable'')) = Do_disable"
  "parse_command (split_whitespace (ascii ''enable'')) = Do_enable"
  "parse_command (split_whitespace (ascii ''audio-enable'')) = Do_audio_enable"
  by (simp_all add: split_whitespace_def space_width_def byte_at_def of_char_def parse_command_def)

text \<open>A whole tempo is read exactly.\<close>

lemma words_from_digits: "list_all is_digit ds \<Longrightarrow> words_from w ds = (if w @ ds = [] then [] else [w @ ds])"
proof (induction ds arbitrary: w)
  case (Cons d ds)
  then have "0x30 \<le> d" "d \<le> 0x39" by (simp_all add: is_digit_def)
  then have "\<not> d \<le> 0x0D" "d \<noteq> 0x20" "d \<noteq> 0xC2" "d \<noteq> 0xE1" "d \<noteq> 0xE2" "d \<noteq> 0xE3"
    using order_trans [of "0x30" d "0x0D"] by auto
  then have "space_width (d # ds) = 0" by (simp add: space_width_def byte_at_def)
  with Cons show ?case by simp
qed simp

lemma parse_f64_decimal: "parse_f64 (decimal n) = Some (rnd (of_nat n))"
proof -
  have t: "takeWhile is_digit (decimal n) = decimal n" "dropWhile is_digit (decimal n) = []"
    using takeWhile_digits [of "decimal n" "[]"] by simp_all
  obtain d r where d: "decimal n = d # r" "is_digit d"
    using decimal_digits [of n] by (cases "decimal n") auto
  have "split_sign (decimal n) = (False, decimal n)" using split_sign_digits [of "decimal n" "[]"] by simp
  moreover have "parse_number (decimal n) = Some (of_nat n)" by (simp add: parse_number_def Let_def t)
  ultimately show ?thesis
    unfolding parse_f64_def using not_a_name [OF d(2), of r] by (simp add: Let_def d(1) del: ascii_simps)
qed

lemma typed_tempo:
  assumes "n \<le> 2 ^ 53"
  shows "parse_command (split_whitespace (ascii ''tempo '' @ decimal n)) = Do_tempo (Fin (of_nat n))"
proof -
  have "split_whitespace (ascii ''tempo '' @ decimal n) = [ascii ''tempo'', decimal n]"
    by (simp add: split_whitespace_def space_width_def byte_at_def of_char_def words_from_digits)
  moreover have "rnd (of_nat n) = Fin (of_nat n)"
  proof -
    have "int n \<le> 2 ^ 53" using assms by simp
    with f64_of_int_exact [of "int n"] show ?thesis by (simp add: f64_of_int_def)
  qed
  ultimately show ?thesis by (simp add: parse_command_def parse_f64_decimal)
qed

section \<open>The published channel is lost\<close>

lemma audio_enable_disable: "audio (enable e) = audio e" "enabled e \<Longrightarrow> audio (disable e) = None"
proof -
  have o: "audio (foldl (\<lambda>e a. snd (open_gateway a e)) e as) = audio e" for e as
    by (induction as arbitrary: e) (simp_all add: open_gateway_def Let_def split: option.split)
  have u: "audio (opened_up e) = audio e" for e
    by (simp add: opened_up_def o initial_addrs_def split: gateways_config.split)
  have s: "audio (snd (found_session e)) = audio e"
    by (simp add: found_session_def random_id_def now_def panic_def Let_def split: option.split)
  show "audio (enable e) = audio e"
    by (cases e rule: enable_cases) (simp_all add: u s notify_def send_alive_def transmit_def)
  show "enabled e \<Longrightarrow> audio (disable e) = None"
    by (simp add: disable_def Let_def notify_def transmit_def audio_shutdown_def split: option.split)
qed

text \<open>C37: Disabling the peer ends its audio and with it the published channel, but the command loop still holds the
  channel's identifier. When the peer is enabled again and audio is switched on again, no channel is
  published: audio is on without a sink, and nobody can request the channel the loop goes on writing to.\<close>

theorem channel_not_republished:
  assumes "enabled e" and "ctl_published ctl = Some i"
  shows "\<exists>e' a. command_loop (\<lambda>_ _. id) [Some (ascii ''disable''), Some (ascii ''enable''), Some (ascii ''audio-enable'')]
      (ctl, e) = (ctl, e') \<and> audio e' = Some a \<and> sinks a = [] \<and> \<not> fst (has_requesters i e')"
proof -
  define e' where "e' = enable_audio (ascii ''tactus-peer'') (enable (disable e))"
  have "audio (enable (disable e)) = None" using assms(1) by (simp add: audio_enable_disable)
  then have a: "audio e' = Some (new_audio_state (ascii ''tactus-peer''))"
    by (simp add: e'_def enable_audio_def notify_def del: ascii_simps)
  moreover have "sinks (new_audio_state nm) = []" for nm by (simp add: new_audio_state_def)
  moreover from this a have "\<not> fst (has_requesters i e')"
    by (simp add: has_requesters_def now_def Let_def del: ascii_simps)
  moreover have "command_loop (\<lambda>_ _. id) [Some (ascii ''disable''), Some (ascii ''enable''), Some (ascii ''audio-enable'')]
      (ctl, e) = (ctl, e')"
    using assms(2) by (simp add: typed_words execute_def e'_def comp_def del: ascii_simps)
  ultimately show ?thesis by blast
qed

lemma channel_not_republished_witness:
  "\<exists>e' a. command_loop (\<lambda>_ _. id) [Some (ascii ''disable''), Some (ascii ''enable''), Some (ascii ''audio-enable'')]
      (\<lparr>ctl_published = Some (Id 7), ctl_subscribed = None\<rparr>, eng example_joined) =
      (\<lparr>ctl_published = Some (Id 7), ctl_subscribed = None\<rparr>, e') \<and>
    audio e' = Some a \<and> sinks a = [] \<and> \<not> fst (has_requesters (Id 7) e')"
  by (rule channel_not_republished)
    (simp_all add: example_joined_def enable_enables)

end
