(* ===== verification/Peer_Output.thy ===== *)
theory Peer_Output
  imports Conformance_Peer
begin

text \<open>
  What the command-line peer puts out: the status lines on standard output show the state of the peer, and
  the frames written into the published channel keep up with the time.
\<close>

section \<open>Status keys\<close>

lemma flag_simps [simp]:
  "0x20 \<notin> set (flag b)" "flag b @ r = flag b' @ r' \<longleftrightarrow> b = b' \<and> r = r'" "flag b = flag b' \<longleftrightarrow> b = b'"
proof -
  have f: "flag b = [digit (if b then 1 else 0)]" for b by (simp add: flag_def decimal.simps)
  have d: "digit (Suc 0) \<noteq> digit 0" by (simp add: digit_def)
  show "0x20 \<notin> set (flag b)" by (cases b) (simp_all add: f digit_def)
  show "flag b @ r = flag b' @ r' \<longleftrightarrow> b = b' \<and> r = r'" "flag b = flag b' \<longleftrightarrow> b = b'"
    using d d [symmetric] by (cases b; cases b'; simp add: f)+
qed

lemma split_from_skip:
  "b \<noteq> c \<Longrightarrow> split_from (c # pat) part (b # text) = split_from (c # pat) (part @ [b]) text"
  by (subst split_from.simps) auto

lemma split_from_hit:
  "split_from (c # d # pat) part (c # d # text) = (if take (length pat) text = pat
     then part # split_from (c # d # pat) [] (drop (length pat) text)
     else split_from (c # d # pat) (part @ [c]) (d # text))"
  by (subst split_from.simps) simp

lemma status_key_line:
  "status_key (status_line s) = ascii ''status peers='' @ decimal (st_peers s) @
     ascii '' tempo='' @ fixed 2 (st_tempo s) @ ascii '' playing='' @ flag (st_playing s) @ ascii ''4'' @
     ascii '' audio='' @ flag (st_audio s) @ ascii '' channels='' @ decimal (st_channels s) @
     ascii '' receiving='' @ flag (st_receiving s) @ ascii '' publishing='' @ flag (st_publishing s)"
proof -
  note steps = split_from_skip split_from_other split_from_hit split_from_word split_from_end
  have w: "split_from (c # pat) part w = [part @ w]" if "c \<notin> set w" for c pat part w
    using split_from_word [OF that, of pat part "[]"] by (simp add: split_from_end)
  have "hd (split_at_pattern (ascii '' beat='') (status_line s)) = ascii ''status peers='' @ decimal (st_peers s) @
     ascii '' tempo='' @ fixed 2 (st_tempo s) @ ascii '' playing='' @ flag (st_playing s)"
    by (simp add: split_at_pattern_def status_line_def of_char_def steps)
  moreover have "split_at_pattern (ascii '' quantum='') (status_line s) = [hd (split_at_pattern (ascii '' quantum='') (status_line s)),
     ascii ''4'' @ ascii '' audio='' @ flag (st_audio s) @ ascii '' channels='' @ decimal (st_channels s) @
     ascii '' receiving='' @ flag (st_receiving s) @ ascii '' publishing='' @ flag (st_publishing s)]"
    by (simp add: split_at_pattern_def status_line_def of_char_def steps w)
  ultimately show ?thesis unfolding status_key_def by (smt (verit) append.assoc list.simps(5))
qed

definition same_but_beat :: "status \<Rightarrow> status \<Rightarrow> bool" where
  "same_but_beat s s' \<longleftrightarrow> st_peers s = st_peers s' \<and> fixed 2 (st_tempo s) = fixed 2 (st_tempo s') \<and>
     st_playing s = st_playing s' \<and> st_audio s = st_audio s' \<and> st_channels s = st_channels s' \<and>
     st_receiving s = st_receiving s' \<and> st_publishing s = st_publishing s'"

lemma status_key_exact: "status_key (status_line s) = status_key (status_line s') \<longleftrightarrow> same_but_beat s s'"
  by (simp add: status_key_line of_char_def field_unique same_but_beat_def)

section \<open>Status lines are current\<close>

text \<open>The lines printed in a sequence of turns. A reading is when the age of the last line was looked at, when a
  line was stamped if one was printed, and the state found.\<close>

type_synonym reading = "int \<times> int \<times> status"

fun reports :: "reading list \<Rightarrow> pump \<Rightarrow> bytes list \<times> pump" where
  "reports [] p = ([], p)"
| "reports ((checked, stamped, s) # rs) p =
     (let (line, p) = report checked stamped s p; (lines, p) = reports rs p
      in (case line of None \<Rightarrow> lines | Some l \<Rightarrow> l # lines, p))"

definition shown_by :: "bytes list \<Rightarrow> pump \<Rightarrow> reading \<Rightarrow> bool" where
  "shown_by lines p r \<longleftrightarrow> lines \<noteq> [] \<and> last lines = status_line (snd (snd r)) \<and>
     last_line p = status_key (status_line (snd (snd r))) \<and> last_status p = fst (snd r)"

lemma reports_append:
  "reports (rs @ rs') p = (let (lines, p) = reports rs p; (lines', p) = reports rs' p in (lines @ lines', p))"
  by (induction rs arbitrary: p) (auto simp: Let_def split: prod.split option.split)

lemma status_key_nonempty: "status_key (status_line s) \<noteq> []"
  by (simp add: status_key_line)

lemma reports_show:
  assumes "last_line p = []"
  shows "rs \<noteq> [] \<Longrightarrow> \<exists>r \<in> set rs. shown_by (fst (reports rs p)) (snd (reports rs p)) r \<and>
    same_but_beat (snd (snd r)) (snd (snd (last rs))) \<and> (r = last rs \<or> fst (last rs) - fst (snd r) < 400 * 10 ^ 6)"
proof (induction rs rule: rev_induct)
  case (snoc x rs)
  obtain t t' s where x: "x = (t, t', s)" by (cases x)
  obtain ls q where q: "reports rs p = (ls, q)" by fastforce
  have step: "reports (rs @ [x]) p = (case report t t' s q of (l, q') \<Rightarrow> (ls @ (case l of None \<Rightarrow> [] | Some l \<Rightarrow> [l]), q'))"
    by (simp add: reports_append q x Let_def split: prod.split option.split)
  show ?case
  proof (cases "status_key (status_line s) \<noteq> last_line q \<or> 400 * 10 ^ 6 \<le> t - last_status q")
    case True
    then have "report t t' s q = (Some (status_line s), q\<lparr>last_line := status_key (status_line s), last_status := t'\<rparr>)"
      by (simp add: report_def Let_def)
    with step have "shown_by (fst (reports (rs @ [x]) p)) (snd (reports (rs @ [x]) p)) x"
      by (simp add: shown_by_def x)
    moreover have "same_but_beat s s" by (simp add: same_but_beat_def)
    ultimately show ?thesis by (auto simp: x)
  next
    case False
    then have r: "report t t' s q = (None, q)" by (simp add: report_def Let_def)
    have "rs \<noteq> []" using False assms q status_key_nonempty [of s] by auto
    then obtain y where y: "y \<in> set rs" "shown_by ls q y" using snoc.IH q by auto
    with False have "same_but_beat (snd (snd y)) s" "t - fst (snd y) < 400 * 10 ^ 6"
      by (auto simp: shown_by_def status_key_exact same_but_beat_def)
    with y step r show ?thesis by (auto simp: x)
  qed
qed simp

text \<open>C36: After every turn the last printed line shows the state of the peer: it agrees with the state just read in
  everything but the beat, and unless this turn printed it, it was printed less than 400 ms before. A line
  is printed only for a change or after that time, since the key that is compared is exact.\<close>

theorem status_always_current:
  assumes "rs \<noteq> []" and "last rs = (checked, stamped, s)"
  shows "\<exists>lines p t t' s'. reports rs (new_pump started) = (lines, p) \<and> lines \<noteq> [] \<and> (t, t', s') \<in> set rs \<and>
    last lines = status_line s' \<and> same_but_beat s' s \<and>
    ((t, t', s') = (checked, stamped, s) \<or> checked - t' < 400 * 10 ^ 6)"
proof -
  obtain lines p where r: "reports rs (new_pump started) = (lines, p)" by fastforce
  have "last_line (new_pump started) = []" by (simp add: new_pump_def)
  from reports_show [OF this assms(1)] obtain t t' s' where "(t, t', s') \<in> set rs" "shown_by lines p (t, t', s')"
    "same_but_beat s' s" "(t, t', s') = (checked, stamped, s) \<or> checked - t' < 400 * 10 ^ 6"
    unfolding assms(2) r by auto
  with r show ?thesis unfolding shown_by_def by auto
qed

definition example_status :: "nat \<Rightarrow> status" where
  "example_status n = \<lparr>st_peers = n, st_tempo = Fin 120, st_playing = False, st_beat = Fin 0, st_audio = False,
     st_channels = 0, st_receiving = False, st_publishing = False\<rparr>"

lemma status_always_current_witness:
  "\<exists>lines p t t' s'. reports [(0, 1, example_status 0), (10, 20, example_status 1)] (new_pump 0) = (lines, p) \<and>
    lines \<noteq> [] \<and> (t :: int, t', s') \<in> set [(0, 1, example_status 0), (10, 20, example_status 1)] \<and>
    last lines = status_line s' \<and> same_but_beat s' (example_status 1) \<and>
    ((t, t', s') = (10, 20, example_status 1) \<or> (10 :: int) - t' < 400 * 10 ^ 6)"
  by (rule status_always_current) simp_all

section \<open>The pump keeps up\<close>

lemma rnd_small:
  assumes "0 \<le> x" and "x \<le> 2 ^ 80"
  shows "rnd x = Fin (round53 x)" and "0 \<le> round53 x" and "round53 x \<le> 2 ^ 80"
proof -
  have r: "representable 0" "representable (2 ^ 80)"
    using representable_of_int [of 0] by (simp_all add: representable_def exI [of _ 1] exI [of _ 80])
  have l: "\<bar>2 ^ 80 :: rat\<bar> < f64_limit" using f64_limit_big by simp
  have "0 \<le> round53 x" "round53 x \<le> 2 ^ 80"
    using round53_mono [OF assms(1)] round53_mono [OF assms(2)] round53_representable [OF r(2)] by simp_all
  with l show "rnd x = Fin (round53 x)" "0 \<le> round53 x" "round53 x \<le> 2 ^ 80"
    by (simp_all add: rnd_def Let_def)
qed

text \<open>The seconds of a duration as a double, for durations far longer than any run.\<close>

definition secs_rat :: "nat \<Rightarrow> rat" where
  "secs_rat n = of_nat (n div 10 ^ 9) + round53 (of_nat (n mod 10 ^ 9) / 10 ^ 9)"

lemma nanos_bounds: "0 \<le> round53 (of_nat (n mod 10 ^ 9) / 10 ^ 9)" "round53 (of_nat (n mod 10 ^ 9) / 10 ^ 9) \<le> 1"
proof -
  have "(of_nat (n mod 10 ^ 9) :: rat) \<le> of_nat (10 ^ 9)" by (subst of_nat_le_iff) simp
  then have le: "of_nat (n mod 10 ^ 9) / 10 ^ 9 \<le> (1 :: rat)" by simp
  have "round53 1 = 1" using representable_of_int [of 1] by (simp add: round53_representable)
  with round53_mono [OF le] show "round53 (of_nat (n mod 10 ^ 9) / 10 ^ 9) \<le> 1" by simp
  show "0 \<le> round53 (of_nat (n mod 10 ^ 9) / 10 ^ 9)" by (rule round53_nonneg) simp
qed

lemma secs_rat_mono: "m \<le> n \<Longrightarrow> secs_rat m \<le> secs_rat n"
proof (cases "m div 10 ^ 9 = n div 10 ^ 9")
  case True
  assume "m \<le> n"
  with True have "m mod 10 ^ 9 \<le> n mod 10 ^ 9" by (metis add_le_cancel_left mult_div_mod_eq)
  then have "(of_nat (m mod 10 ^ 9) :: rat) / 10 ^ 9 \<le> of_nat (n mod 10 ^ 9) / 10 ^ 9"
    by (intro divide_right_mono) (simp_all del: of_nat_mod)
  from round53_mono [OF this] show ?thesis unfolding secs_rat_def True by simp
next
  case False
  assume "m \<le> n"
  with False have "m div 10 ^ 9 + 1 \<le> n div 10 ^ 9" by (metis Suc_eq_plus1 Suc_leI div_le_mono le_neq_implies_less)
  then have "of_nat (m div 10 ^ 9 + 1) \<le> (of_nat (n div 10 ^ 9) :: rat)" by (simp only: of_nat_le_iff)
  then have "of_nat (m div 10 ^ 9) + 1 \<le> (of_nat (n div 10 ^ 9) :: rat)" by (simp only: of_nat_add of_nat_1)
  with nanos_bounds [of m] nanos_bounds [of n] show ?thesis unfolding secs_rat_def by linarith
qed

lemma secs_rat_bounds:
  assumes "n \<le> 2 ^ 53 * 10 ^ 9"
  shows "0 \<le> secs_rat n" and "secs_rat n \<le> 2 ^ 54"
proof -
  have "n div 10 ^ 9 \<le> 2 ^ 53 * 10 ^ 9 div 10 ^ 9" by (rule div_le_mono [OF assms])
  then have "n div 10 ^ 9 \<le> 2 ^ 53" by simp
  then have "(of_nat (n div 10 ^ 9) :: rat) \<le> of_nat (2 ^ 53)" by (simp only: of_nat_le_iff)
  with nanos_bounds [of n] show "0 \<le> secs_rat n" "secs_rat n \<le> 2 ^ 54"
    unfolding secs_rat_def by (simp_all del: of_nat_div)
qed

lemma as_secs_f64_eq:
  assumes "n \<le> 2 ^ 53 * 10 ^ 9"
  shows "as_secs_f64 n = Fin (round53 (secs_rat n))"
proof -
  have "n div 10 ^ 9 \<le> 2 ^ 53 * 10 ^ 9 div 10 ^ 9" by (rule div_le_mono [OF assms])
  then have "n div 10 ^ 9 \<le> 2 ^ 53" by simp
  then have "int (n div 10 ^ 9) \<le> int (2 ^ 53)" by (simp only: of_nat_le_iff)
  then have "\<bar>int (n div 10 ^ 9)\<bar> \<le> 2 ^ 53" by (simp del: of_nat_div)
  from f64_of_int_exact [OF this] have s: "f64_of_int (int (n div 10 ^ 9)) = Fin (of_nat (n div 10 ^ 9))" by simp
  have "\<bar>int (n mod 10 ^ 9)\<bar> \<le> 2 ^ 53" by (simp add: order_trans [OF less_imp_le [OF mod_less_divisor]])
  from f64_of_int_exact [OF this] have m: "f64_of_int (int (n mod 10 ^ 9)) = Fin (of_nat (n mod 10 ^ 9))" by simp
  have "of_nat (n mod 10 ^ 9) \<le> (of_nat (10 ^ 9) :: rat)" by (subst of_nat_le_iff) simp
  then have "rnd (of_nat (n mod 10 ^ 9) / 10 ^ 9) = Fin (round53 (of_nat (n mod 10 ^ 9) / 10 ^ 9))"
    by (intro rnd_small(1)) (simp_all del: of_nat_mod)
  moreover have "rnd (secs_rat n) = Fin (round53 (secs_rat n))"
    using secs_rat_bounds [OF assms] by (intro rnd_small(1)) simp_all
  ultimately show ?thesis unfolding as_secs_f64_def s m by (simp add: secs_rat_def)
qed

lemma frames_target_eq:
  assumes "n \<le> 2 ^ 53 * 10 ^ 9"
  shows "frames_target n = word_of_int (max 0 (min (2 ^ 64 - 1) \<lfloor>round53 (round53 (secs_rat n) * 48000)\<rfloor>))"
proof -
  have b: "0 \<le> round53 (secs_rat n)" "round53 (secs_rat n) \<le> 2 ^ 54"
    using round53_mono [OF secs_rat_bounds(2) [OF assms]] round53_nonneg [OF secs_rat_bounds(1) [OF assms]]
      round53_representable [of "2 ^ 54"] by (simp_all add: representable_def exI [of _ 1] exI [of _ 54])
  then have "0 \<le> round53 (secs_rat n) * 48000" "round53 (secs_rat n) * 48000 \<le> 2 ^ 80" by simp_all
  note r = rnd_small [OF this]
  have "f64_of_int (int SAMPLE_RATE) = Fin 48000" using f64_of_int_exact [of 48000] by (simp add: SAMPLE_RATE_def)
  with r show ?thesis by (simp add: frames_target_def as_secs_f64_eq [OF assms] trunc_rat_def)
qed

lemma uint_saturated: "uint (word_of_int (max 0 (min (2 ^ 64 - 1) i)) :: u64) = max 0 (min (2 ^ 64 - 1) i)"
proof -
  have "0 \<le> max 0 (min (2 ^ 64 - 1) i)" "max 0 (min (2 ^ 64 - 1) i) < 2 ^ 64" by simp_all
  then show ?thesis by (simp only: uint_word_of_int_eq) (simp add: take_bit_int_eq_self)
qed

lemma frames_target_mono:
  assumes "m \<le> n" and "n \<le> 2 ^ 53 * 10 ^ 9"
  shows "frames_target m \<le> frames_target n"
proof -
  have m: "m \<le> 2 ^ 53 * 10 ^ 9" using assms by simp
  have "round53 (secs_rat m) \<le> round53 (secs_rat n)" by (rule round53_mono [OF secs_rat_mono [OF assms(1)]])
  then have "\<lfloor>round53 (round53 (secs_rat m) * 48000)\<rfloor> \<le> \<lfloor>round53 (round53 (secs_rat n) * 48000)\<rfloor>"
    by (intro floor_mono round53_mono) simp
  then show ?thesis
    unfolding frames_target_eq [OF assms(2)] frames_target_eq [OF m] word_le_def uint_saturated by simp
qed

text \<open>The turns of the pump while a channel is published, at the given times since its start; the number is the
  frames written in all.\<close>

fun pump_turns :: "(f64 \<Rightarrow> f64) \<Rightarrow> (nat \<Rightarrow> others) \<Rightarrow> channel_id \<Rightarrow> nat list \<Rightarrow> pump \<Rightarrow> engine
    \<Rightarrow> (nat \<times> pump \<times> engine) option" where
  "pump_turns sn others ch [] p e = Some (0, p, e)"
| "pump_turns sn others ch (t # ts) p e =
     (case pump_audio sn (others 0) (Some ch) t p e of None \<Rightarrow> None
      | Some (p', e) \<Rightarrow> map_option (\<lambda>(n, r). (unat (frames_now t p) + n, r))
          (pump_turns sn (others \<circ> Suc) ch ts p' e))"

text \<open>How many frames fall due between two times.\<close>

definition due_between :: "nat \<Rightarrow> nat \<Rightarrow> nat" where
  "due_between s t = unat (frames_target t) - unat (frames_target s)"

lemma frames_now_exact:
  assumes "s \<le> t" and "t \<le> 2 ^ 53 * 10 ^ 9" and "generated_frames p = frames_target s"
  shows "unat (frames_now t p) = min (due_between s t) 4800"
proof -
  have le: "frames_target s \<le> frames_target t" by (rule frames_target_mono [OF assms(1,2)])
  have d: "unat (frames_target t - frames_target s) = due_between s t"
    unfolding due_between_def by (rule unat_sub [OF le])
  have "word_of_nat SAMPLE_RATE div 10 = (4800 :: u64)" by (simp add: SAMPLE_RATE_def)
  then show ?thesis unfolding frames_now_def assms(3) by (simp add: min_def word_le_nat_alt d)
qed

lemma due_between_add:
  "s \<le> t \<Longrightarrow> t \<le> u \<Longrightarrow> u \<le> 2 ^ 53 * 10 ^ 9 \<Longrightarrow> due_between s t + due_between t u = due_between s u"
  using frames_target_mono [of s t] frames_target_mono [of t u] by (simp add: due_between_def word_le_nat_alt)

text \<open>C35: While a channel is published the pump does not panic and writes no more than is due: no subtraction wraps
  around, each turn writes at most a tenth of a second, and when no turn is later than that the frames
  written are exactly those that fell due, whatever the rounding of the times.\<close>

theorem pump_keeps_up:
  assumes "sorted (t # ts)" and "last (t # ts) \<le> 2 ^ 53 * 10 ^ 9" and "generated_frames p = frames_target t"
    and "\<And>n. keep_ok (others n)" and "engine_ok e"
  shows "\<exists>n p' e'. pump_turns sn others ch ts p e = Some (n, p', e') \<and> engine_ok e' \<and>
    n \<le> due_between t (last (t # ts)) \<and> n \<le> 4800 * length ts \<and>
    ((\<forall>(a, b) \<in> set (zip (t # ts) ts). due_between a b \<le> 4800) \<longrightarrow> n = due_between t (last (t # ts)))"
  using assms
proof (induction ts arbitrary: t p e others)
  case Nil
  then show ?case by (simp add: due_between_def)
next
  case (Cons u us)
  obtain p1 e1 where p1: "pump_audio sn (others 0) (Some ch) u p e = Some (p1, e1)" "engine_ok e1"
    "generated_frames p1 = frames_target u" using pump_audio_ok [OF Cons.prems(4,5)] by blast
  have le: "t \<le> u" "u \<le> last (u # us)" "last (u # us) \<le> 2 ^ 53 * 10 ^ 9"
    using Cons.prems(1,2) last_in_set [of "u # us"] by (auto split: if_splits)
  have "sorted (u # us)" using Cons.prems(1) by simp
  moreover have "keep_ok ((others \<circ> Suc) n)" for n using Cons.prems(4) by simp
  ultimately obtain n p2 e2 where n: "pump_turns sn (others \<circ> Suc) ch us p1 e1 = Some (n, p2, e2)" "engine_ok e2"
    "n \<le> due_between u (last (u # us))" "n \<le> 4800 * length us"
    "(\<forall>(a, b) \<in> set (zip (u # us) us). due_between a b \<le> 4800) \<longrightarrow> n = due_between u (last (u # us))"
    using Cons.IH [OF _ le(3) p1(3) _ p1(2)] by blast
  have f: "unat (frames_now u p) = min (due_between t u) 4800"
    using le Cons.prems(3) by (intro frames_now_exact) simp_all
  have add: "due_between t u + due_between u (last (u # us)) = due_between t (last (t # u # us))"
    using due_between_add [OF le] by simp
  have "pump_turns sn others ch (u # us) p e = Some (unat (frames_now u p) + n, p2, e2)"
    using p1(1) n(1) by simp
  moreover have "min (due_between t u) 4800 + n \<le> due_between t (last (t # u # us))" using n(3) add by linarith
  moreover have "min (due_between t u) 4800 + n \<le> 4800 * length (u # us)" using n(4) by simp
  moreover have "(\<forall>(a, b) \<in> set (zip (t # u # us) (u # us)). due_between a b \<le> 4800) \<longrightarrow>
      min (due_between t u) 4800 + n = due_between t (last (t # u # us))" using n(5) add by simp
  ultimately show ?case using n(2) unfolding f by blast
qed

lemma pump_keeps_up_witness:
  "\<exists>n p' e'. pump_turns (\<lambda>x. x) (\<lambda>_ _. id) (Id 1) [10 ^ 9] (new_pump 0) (new_engine (Fin 120) example_config example_env) =
    Some (n, p', e') \<and> n \<le> due_between 0 (10 ^ 9) \<and> n \<le> 4800"
proof -
  have "generated_frames (new_pump 0) = frames_target 0"
    using frames_target_eq [of 0] by (simp add: new_pump_def secs_rat_def)
  moreover have "keep_ok (\<lambda>_. id)" by (simp add: keep_ok_def)
  ultimately show ?thesis
    using pump_keeps_up [of 0 "[10 ^ 9]" "new_pump 0" "\<lambda>_ _. id" "new_engine (Fin 120) example_config example_env"
        "\<lambda>x. x" "Id 1"] new_engine_ok [OF fair_example] by auto
qed

end
