(* ===== verification/Spec2Isabelle.thy ===== *)
theory Spec2Isabelle
  imports Session_Spec Peer_Network Broadcast Enumeration Schedule Peer_Output
begin

text \<open>
  A model of tactus, a peer of the Link tempo synchronisation protocol with LinkAudio, and of its wire
  codec. A peer keeps one shared state behind a mutex; threads receive datagrams on the sockets of each
  gateway (a local IPv4 address), a housekeeping thread runs the timers, a rescan thread follows the
  interfaces of the host, and the application calls in. Peers gossip their timeline, session and
  transport state, measure the clock of other sessions, elect one session, and stream audio to the peers
  that ask for it.

  \<^bold>\<open>Theories and sources.\<close> \<open>Prelude\<close> has the integer types, signed minimum and maximum, big-endian numbers
  and the \<open>?\<close> operator as \<open>bind_res\<close>; \<open>Float64\<close> is IEEE double precision over the rationals.
  The crate \<^verbatim>\<open>tactus-wire\<close>: \<open>Codec\<close> is codec.rs, \<open>Wire_Types\<close> types.rs, \<open>Discovery\<close> discovery.rs,
  \<open>Sync\<close> sync.rs and \<open>Wire_Audio\<close> audio.rs; a reader is a function from the unread bytes to an error or a
  value and the rest, a writer extends the bytes written so far.
  The crate \<^verbatim>\<open>tactus\<close>: \<open>Beat_Math\<close> is math.rs; \<open>Iface\<close> and \<open>Enumeration\<close> are iface.rs (the admission
  filter and the plan of a rescan; the walks over what the operating system lists); \<open>Sockets\<close> is net.rs;
  \<open>Engine_State\<close> holds the records of engine.rs and audio.rs, \<open>Hash_Map\<close> the maps they are kept in and
  \<open>Contracts\<close> the invariant of a peer; \<open>Audio_Data\<close>, \<open>Sink_Drain\<close>, \<open>Channel_Feed\<close>, \<open>Audio_Ops\<close> and
  \<open>Audio_Inv\<close> are audio.rs (the data plane, the draining of a sink into datagrams, the delivery to a
  subscription, the operations on the engine, their invariant); \<open>Session\<close>, \<open>Median\<close>, \<open>Measuring\<close>,
  \<open>Gossip\<close> and \<open>Housekeeping\<close> are engine.rs (election and departure, the estimate, clock measurement, the
  discovery handler, the timers); \<open>Runtime\<close> and \<open>Threads\<close> are runtime.rs (the operations the threads
  perform under the lock; the loops around them); \<open>Link\<close> and \<open>App_View\<close> are lib.rs. \<open>Conformance_Peer\<close> is
  bin/conformance-peer.rs, a peer driven by lines on standard input that feeds a sine into its channel and
  prints status lines; \<open>Text_Format\<close> is what it uses of Rust's strings and numbers, and the printed forms of
  identifiers and errors; \<open>Peer_Output\<close> has the theorems on its output. Each of its calls takes the lock on its
  own: what the other threads do in between is an argument, any functions that take steps of the peer, or that
  keep its invariant.

  \<^bold>\<open>State and operations.\<close> The record \<open>engine\<close> is the code's \<open>State\<close> field by field, extended by the
  configuration, the environment \<open>env\<close> (clock, random identifiers, outcome of opening a gateway, interface
  lists, iteration order of the hash maps), counters that say how much of the environment has been used,
  the datagrams sent in order, the notifications given, and \<open>panicked\<close>, which is set where the code would
  panic; what follows in the same handler is then skipped by \<open>and_then\<close>, and the account of a peer ends. Every operation
  maps engines to engines. The build is a release build: integers have the width of the code and wrap around,
  where a debug build would panic, and the debug assertions (of the encoders on the size of a message, of the
  division in math.rs, of the endpoint reader) are not there. A map is an association list with the iteration order as stored, except where the
  code's effect depends on the order of a hash map: there the order is a function of the environment that
  visits every entry once (\<open>fair_iteration\<close>). \<open>System\<close> composes the operations to a transition system: a
  step is what one thread does while it holds the lock, in any order; the rescan thread takes the lock
  twice and anything may happen in between.

  \<^bold>\<open>Interfaces.\<close> \<open>wire_type\<close> and \<open>strict_wire_type\<close> state what the reader and the writer of a type promise
  each other, interpreted for every type on the wire; \<open>hash_map\<close> states the laws of the maps, interpreted on
  association lists; \<open>observer\<close> is an invariant that sending and clock readings leave alone, interpreted for
  the invariant \<open>engine_ok\<close> and the parts of it; \<open>greatest_wins\<close> is gossip in which the greatest value wins,
  interpreted for timelines and for transport states.
\<close>

text \<open>
  \<^bold>\<open>What is shown.\<close> Wire: round trips of every frame, payloads read in any order, rejection of inconsistent
  audio buffers. \<open>Beat_Math\<close>: conversions between beats, ghost time and application beats are inverse within
  rounding. \<open>System\<close>: from the start of a peer, no sequence of datagrams, timers, rescans and calls makes it
  panic, given randomness, and tables stay bounded and keyed by gateways that have existed, one per address, identifiers never
  reused. \<open>Session_Spec\<close>: every step refines an event of an abstract peer, whose time only moves forward within a
  session. \<open>Election\<close>, \<open>Propagation\<close>: peers agree on a session and on the timeline with the greatest origin;
  changes of tempo and transport reach the peers that hear them; beats do not jump. \<open>Tempo_Burst\<close>: a burst of
  changes ends on its last tempo everywhere, shown to within a hundredth of a beat per minute; the example
  program \<^verbatim>\<open>rapid_tempo.rs\<close> tests this. \<open>Peer_Network\<close>: in a network of any number of peers, which
  loses, repeats, delays and reorders datagrams, every tempo is one that some application asked for. \<open>Clock_Sync\<close>: an
  exchange of ping and pong gives samples within half a round trip of the true offset, the estimate lies
  where most of them do, and an unanswered measurement fails after its budget. \<open>Joining\<close>: two engines pass their
  datagrams to each other, and a peer that hears another session measures it and joins it exactly if its
  clock leads. \<open>Membership\<close>: what closing a
  gateway and pruning forget, and that an Alive is answered. \<open>Audio_Stream\<close>, \<open>Broadcast\<close>: what one application
  writes, in any number of writes, is what the application of a subscriber polls, from the beat it was written for, where the
  datagrams fit the 2048 bytes that a receiver takes. \<open>Subscription\<close>: an announced channel can be subscribed to, and a subscription lapses for
  the lateness of its renewal. \<open>App_View\<close>: the phase of a snapshot and the visible channels. \<open>Enumeration\<close>, \<open>Sockets\<close>:
  which addresses are opened, and how the sockets are set up to share a port. \<open>Threads\<close>, \<open>Schedule\<close>:
  receivers end with their gateway, and the housekeeping thread looks again in time for every deadline, except for
  a measurement that the pass itself has started and for the broadcast and Alive of a session that it has founded. \<open>Conformance_Peer\<close>, \<open>Peer_Output\<close>: whatever is typed, the
  command-line peer, once it has printed its first line, does not panic and leaves the network before it exits, its status lines are current and
  its pump keeps up; a channel published before it is disabled is not published again.

  \<^bold>\<open>Loops and bounds.\<close> No definition uses fuel: every loop of the code is structural recursion over the
  data it consumes, or has a measure: the bytes that are left (payload entries, lossy strings, the chunks of
  a buffer), the pending frames of a sink, the attempts of the Windows enumeration, at most four. A thread's
  endless loop is its turn, a function from the state it finds to the state it leaves and whether it goes on;
  where a wait ends is a function of the states it sees when it wakes.

  \<^bold>\<open>Hypotheses.\<close> \<open>positive_rate\<close>: no audio is written at a sample rate of zero, which panics (shown).
  \<open>gives_randomness\<close>: the system gives randomness for an identifier whenever it is asked; \<^verbatim>\<open>Id::random\<close> panics
  otherwise (shown). \<open>roomy_state\<close>: the origin of the timeline and the time stamp of the transport state are less than the
  greatest \<^verbatim>\<open>i64\<close>, where a datagram can bring them (shown). \<open>fresh_epoch\<close>: no rescan thread sleeps through \<open>2 ^ 64\<close> changes of the epoch. \<open>documented_kernel\<close>: the
  rules by which an operating system calls a port in use; other errors are free to it. \<open>keep_ok\<close>: the threads between two calls
  of the pump keep the invariant of the engine, as every step does (shown). The theorems on timing and beats bound their
  inputs so that no integer wraps around, far outside what clocks and tempos reach; each has a witness.

  \<^bold>\<open>Not modelled.\<close> The kernel, \<open>getifaddrs\<close> and \<open>GetAdaptersAddresses\<close> are parameters; their memory
  safety (pointers and their lifetimes) is not part of the model. Thread creation, allocation and the blocking of a
  condition variable are left out: a turn happens or it does not. Printing is left out, with the panic of a
  print to a closed standard output or error, but for the line \<^verbatim>\<open>ready\<close> of the command-line peer; its status thread
  ends at such a panic, which the process survives. The sign of a floating-point zero and the
  payload of a NaN are not distinguished. The sine of the platform is a parameter. Getters that return a
  field, accessors that no code uses, the text of log messages and the tests are left out.
\<close>

end
